(* ===== verification/Cfgms_Prelude.thy ===== *)
theory Cfgms_Prelude
  imports Main "HOL-Library.Char_ord" "HOL-Library.List_Lexorder" "HOL-Library.Product_Lexorder"
    "HOL-Library.Multiset"
begin

text \<open>
  What every component of the development shares: the Go notions the sources use (instants
  and durations, 64-bit wrap-around, byte strings and the functions of package \<open>strings\<close>),
  three-way comparison, maps kept as association lists, and the locale of a deterministic
  machine whose operations keep an invariant.
\<close>

named_theorems go_defs \<open>definitions of the Go standard-library functions\<close>

section \<open>Time and machine integers\<close>

text \<open>
  An instant (\<open>time.Time\<close>) and a duration (\<open>time.Duration\<close>) are integers counting
  nanoseconds. Instants are unbounded; durations are 64-bit signed, so arithmetic on them
  wraps (\<open>wrap64\<close>), while \<open>Time.Sub\<close> saturates at the extreme durations.
\<close>

type_synonym instant = int
type_synonym duration = int

definition max_duration :: duration where "max_duration = 2 ^ 63 - 1"

definition min_duration :: duration where "min_duration = - (2 ^ 63)"

definition wrap64 :: "int \<Rightarrow> int" where
  "wrap64 x = (x + 2 ^ 63) mod 2 ^ 64 - 2 ^ 63"

definition time_Sub :: "instant \<Rightarrow> instant \<Rightarrow> duration" where
  "time_Sub t u = max min_duration (min max_duration (t - u))"

abbreviation duration_range :: "int \<Rightarrow> bool" where
  "duration_range d \<equiv> min_duration \<le> d \<and> d \<le> max_duration"

lemma wrap64_id [simp]: "duration_range x \<Longrightarrow> wrap64 x = x"
  by (simp add: wrap64_def max_duration_def min_duration_def)

lemma wrap64_range: "duration_range (wrap64 x)"
proof -
  have "0 \<le> (x + 2 ^ 63) mod 2 ^ 64 \<and> (x + 2 ^ 63) mod 2 ^ 64 < (2 ^ 64 :: int)"
    by (simp add: pos_mod_bound)
  then show ?thesis by (simp add: wrap64_def max_duration_def min_duration_def)
qed

lemma time_Sub_less_iff:
  assumes "duration_range d"
  shows "time_Sub t u < d \<longleftrightarrow> t - u < d \<and> min_duration < d"
  using assms by (auto simp: time_Sub_def max_duration_def min_duration_def)

text \<open>Go's \<open>%\<close> truncates towards zero.\<close>

definition go_rem :: "int \<Rightarrow> int \<Rightarrow> int" where
  "go_rem a b = (if 0 \<le> a then a mod \<bar>b\<bar> else - ((- a) mod \<bar>b\<bar>))"

lemma go_rem_nonneg [simp]: "0 \<le> a \<Longrightarrow> 0 < b \<Longrightarrow> go_rem a b = a mod b"
  by (simp add: go_rem_def)

section \<open>Three-way comparison\<close>

definition cmp :: "'a::linorder \<Rightarrow> 'a \<Rightarrow> int" where
  "cmp x y = (if x < y then -1 else if y < x then 1 else 0)"

lemma cmp_simps [simp]:
  "cmp x x = 0" "cmp x y = 0 \<longleftrightarrow> x = y" "cmp x y < 0 \<longleftrightarrow> x < y" "0 < cmp x y \<longleftrightarrow> y < x"
  by (auto simp: cmp_def)

lemma cmp_swap: "cmp y x = - cmp x y"
  by (auto simp: cmp_def)

lemma cmp_prod: "cmp (a, b) (c, d) = (if cmp a c \<noteq> 0 then cmp a c else cmp b d)"
  by (auto simp: cmp_def less_prod_def)

lemma cmp_Cons: "cmp (a # as) (b # bs) = (if cmp a b \<noteq> 0 then cmp a b else cmp as bs)"
  by (auto simp: cmp_def)

lemma cmp_Nil [simp]: "cmp [] [] = 0" "cmp [] (b # bs) = -1" "cmp (a # as) [] = 1"
  by (auto simp: cmp_def)

section \<open>Byte strings\<close>

text \<open>
  A Go string is a sequence of bytes, and so is a HOL \<open>string\<close> (a list of 8-bit characters);
  Go's \<open><\<close> on strings is the lexicographic order of List_Lexorder over Char_ord.
\<close>

definition HasPrefix :: "string \<Rightarrow> string \<Rightarrow> bool" where [go_defs]:
  "HasPrefix s p \<longleftrightarrow> take (length p) s = p"

definition HasSuffix :: "string \<Rightarrow> string \<Rightarrow> bool" where [go_defs]:
  "HasSuffix s p \<longleftrightarrow> length p \<le> length s \<and> drop (length s - length p) s = p"

definition TrimSuffix :: "string \<Rightarrow> string \<Rightarrow> string" where [go_defs]:
  "TrimSuffix s suffix = (if HasSuffix s suffix then take (length s - length suffix) s else s)"

fun Contains :: "string \<Rightarrow> string \<Rightarrow> bool" where
  "Contains [] sub = (sub = [])"
| "Contains (c # s) sub = (HasPrefix (c # s) sub \<or> Contains s sub)"

definition ContainsAny :: "string \<Rightarrow> string \<Rightarrow> bool" where [go_defs]:
  "ContainsAny s chars \<longleftrightarrow> list_ex (\<lambda>c. c \<in> set chars) s"

text \<open>\<open>IndexByte\<close> (None for Go's \<open>-1\<close>), \<open>LastIndex\<close> of a byte, \<open>Cut\<close> and \<open>Split\<close> at a byte.\<close>

fun IndexByte :: "string \<Rightarrow> char \<Rightarrow> nat option" where
  "IndexByte [] c = None"
| "IndexByte (x # s) c = (if x = c then Some 0 else map_option Suc (IndexByte s c))"

definition Cut :: "string \<Rightarrow> char \<Rightarrow> string \<times> string option" where [go_defs]:
  "Cut s c = (takeWhile (\<lambda>x. x \<noteq> c) s,
     case dropWhile (\<lambda>x. x \<noteq> c) s of [] \<Rightarrow> None | _ # t \<Rightarrow> Some t)"

fun Split :: "string \<Rightarrow> char \<Rightarrow> string list" where
  "Split [] sep = [[]]"
| "Split (c # s) sep =
     (if c = sep then [] # Split s sep
      else (case Split s sep of [] \<Rightarrow> [[c]] | w # ws \<Rightarrow> (c # w) # ws))"

definition ReplaceByte :: "string \<Rightarrow> char \<Rightarrow> char \<Rightarrow> string" where [go_defs]:
  "ReplaceByte s a b = map (\<lambda>c. if c = a then b else c) s"

fun join :: "char \<Rightarrow> string list \<Rightarrow> string" where
  "join sep [] = []"
| "join sep [w] = w"
| "join sep (w # ws) = w @ sep # join sep ws"

lemma IndexByte_Some: "IndexByte s c = Some n \<Longrightarrow> n < length s \<and> s ! n = c \<and> c \<notin> set (take n s)"
proof (induction s arbitrary: n)
  case (Cons x s)
  then show ?case by (cases "x = c"; cases n) auto
qed simp

lemma IndexByte_None: "IndexByte s c = None \<longleftrightarrow> c \<notin> set s"
  by (induction s) auto

lemma IndexByte_append: "c \<notin> set s \<Longrightarrow> IndexByte (s @ c # t) c = Some (length s)"
  by (induction s) auto

lemma IndexByte_append_notin:
  "c \<notin> set s \<Longrightarrow> IndexByte (s @ t) c = map_option (\<lambda>n. length s + n) (IndexByte t c)"
proof (cases "IndexByte t c")
  case None
  then show "c \<notin> set s \<Longrightarrow> ?thesis" by (induction s) auto
next
  case (Some n)
  then show "c \<notin> set s \<Longrightarrow> ?thesis" by (induction s) auto
qed

lemma Split_not_Nil [simp]: "Split s c \<noteq> []"
  by (induction s) (auto split: list.splits)

lemma Split_join: "ws \<noteq> [] \<Longrightarrow> \<forall>w \<in> set ws. c \<notin> set w \<Longrightarrow> Split (join c ws) c = ws"
proof (induction c ws rule: join.induct)
  case (2 c w)
  then show ?case by (induction w) auto
next
  case (3 c w v ws)
  have "Split (w @ c # join c (v # ws)) c = w # Split (join c (v # ws)) c"
    using "3.prems" by (induction w) auto
  with 3 show ?case by simp
qed simp

lemma join_Split: "join c (Split s c) = s"
proof (induction s)
  case (Cons x s)
  obtain w ws where W: "Split s c = w # ws" by (cases "Split s c") auto
  with Cons show ?case by (cases ws) auto
qed simp

text \<open>
  \<open>TrimSpace\<close> removes leading and trailing Unicode white space. Each white-space code point
  is listed by its UTF-8 bytes; a suffix equal to one of them is always decoded as that code
  point, so trimming works on the byte sequences.
\<close>

definition space_runes :: "string list" where
  "space_runes =
     [[CHR 0x09], [CHR 0x0A], [CHR 0x0B], [CHR 0x0C], [CHR 0x0D], [CHR 0x20],
      [CHR 0xC2, CHR 0x85], [CHR 0xC2, CHR 0xA0], [CHR 0xE1, CHR 0x9A, CHR 0x80],
      [CHR 0xE2, CHR 0x80, CHR 0x80], [CHR 0xE2, CHR 0x80, CHR 0x81],
      [CHR 0xE2, CHR 0x80, CHR 0x82], [CHR 0xE2, CHR 0x80, CHR 0x83],
      [CHR 0xE2, CHR 0x80, CHR 0x84], [CHR 0xE2, CHR 0x80, CHR 0x85],
      [CHR 0xE2, CHR 0x80, CHR 0x86], [CHR 0xE2, CHR 0x80, CHR 0x87],
      [CHR 0xE2, CHR 0x80, CHR 0x88], [CHR 0xE2, CHR 0x80, CHR 0x89],
      [CHR 0xE2, CHR 0x80, CHR 0x8A], [CHR 0xE2, CHR 0x80, CHR 0xA8],
      [CHR 0xE2, CHR 0x80, CHR 0xA9], [CHR 0xE2, CHR 0x80, CHR 0xAF],
      [CHR 0xE2, CHR 0x81, CHR 0x9F], [CHR 0xE3, CHR 0x80, CHR 0x80]]"

text \<open>\<open>strip_runes rs n s\<close> strips runes of \<open>rs\<close> from the front of \<open>s\<close>, at most \<open>n\<close> of them.\<close>

fun strip_runes :: "string list \<Rightarrow> nat \<Rightarrow> string \<Rightarrow> string" where
  "strip_runes rs 0 s = s"
| "strip_runes rs (Suc n) s =
     (case find (HasPrefix s) rs of None \<Rightarrow> s | Some r \<Rightarrow> strip_runes rs n (drop (length r) s))"

definition TrimLeftSpace :: "string \<Rightarrow> string" where
  "TrimLeftSpace s = strip_runes space_runes (length s) s"

definition TrimRightSpace :: "string \<Rightarrow> string" where
  "TrimRightSpace s = rev (strip_runes (map rev space_runes) (length s) (rev s))"

definition TrimSpace :: "string \<Rightarrow> string" where
  "TrimSpace s = TrimRightSpace (TrimLeftSpace s)"

lemma strip_runes_done:
  assumes "length s \<le> n" and "[] \<notin> set rs" and "r \<in> set rs"
  shows "\<not> HasPrefix (strip_runes rs n s) r"
  using assms(1)
proof (induction n arbitrary: s)
  case 0
  with assms(2,3) show ?case by (auto simp: HasPrefix_def)
next
  case (Suc n)
  show ?case
  proof (cases "find (HasPrefix s) rs")
    case None
    moreover from this have "\<not> HasPrefix s r" using assms(3) by (simp add: find_None_iff)
    ultimately show ?thesis by simp
  next
    case (Some p)
    then have "p \<in> set rs" "HasPrefix s p" by (auto simp: find_Some_iff)
    moreover from this assms(2) have "p \<noteq> []" by auto
    ultimately have "length (drop (length p) s) \<le> n" using Suc.prems
      by (cases "length p") simp_all
    with Suc.IH Some show ?thesis by simp
  qed
qed

lemma TrimSpace_last: "TrimSpace s \<noteq> [] \<Longrightarrow> last (TrimSpace s) \<noteq> CHR '' ''"
proof
  let ?t = "strip_runes (map rev space_runes) (length (TrimLeftSpace s)) (rev (TrimLeftSpace s))"
  assume "TrimSpace s \<noteq> []" "last (TrimSpace s) = CHR '' ''"
  then have "HasPrefix ?t [CHR 0x20]"
    by (cases ?t) (auto simp: TrimSpace_def TrimRightSpace_def HasPrefix_def)
  moreover have "\<not> HasPrefix ?t [CHR 0x20]"
    by (rule strip_runes_done) (auto simp: space_runes_def)
  ultimately show False by blast
qed

text \<open>
  \<open>ToLower\<close> as far as a comparison with an ASCII literal can see it: ASCII letters, and the
  two code points outside ASCII whose lower case is an ASCII letter (U+0130 gives \<open>i\<close>,
  U+212A gives \<open>k\<close>). Other code points stay outside ASCII and are left as they are.
\<close>

definition lower_byte :: "char \<Rightarrow> char" where
  "lower_byte c =
     (if CHR ''A'' \<le> c \<and> c \<le> CHR ''Z'' then char_of (of_char c + 32 :: nat) else c)"

fun ToLower :: "string \<Rightarrow> string" where
  "ToLower [] = []"
| "ToLower [c] = [lower_byte c]"
| "ToLower [c, d] = (if c = CHR 0xC4 \<and> d = CHR 0xB0 then ''i'' else lower_byte c # ToLower [d])"
| "ToLower (c # d # e # s) =
     (if c = CHR 0xC4 \<and> d = CHR 0xB0 then CHR ''i'' # ToLower (e # s)
      else if c = CHR 0xE2 \<and> d = CHR 0x84 \<and> e = CHR 0xAA then CHR ''k'' # ToLower s
      else lower_byte c # ToLower (d # e # s))"

section \<open>Decimal digits\<close>

definition is_digit :: "char \<Rightarrow> bool" where
  "is_digit c \<longleftrightarrow> CHR ''0'' \<le> c \<and> c \<le> CHR ''9''"

definition digit_value :: "char \<Rightarrow> nat" where
  "digit_value c = of_char c - 48"

definition decimal :: "string \<Rightarrow> nat" where
  "decimal s = foldl (\<lambda>n c. 10 * n + digit_value c) 0 s"

text \<open>
  \<open>strconv.Atoi\<close>: an optional sign and at least one digit, within 64 bits; its inverse
  \<open>strconv.Itoa\<close>; and the verb \<open>%02d\<close>.
\<close>

definition Atoi :: "string \<Rightarrow> int option" where [go_defs]:
  "Atoi s =
     (let neg = HasPrefix s ''-'';
          ds = (if neg \<or> HasPrefix s ''+'' then tl s else s);
          v = (if neg then - int (decimal ds) else int (decimal ds))
      in if ds \<noteq> [] \<and> list_all is_digit ds \<and> - (2 ^ 63) \<le> v \<and> v < 2 ^ 63 then Some v else None)"

fun digits :: "nat \<Rightarrow> string" where
  "digits n = (if n < 10 then [char_of (48 + n)] else digits (n div 10) @ [char_of (48 + n mod 10)])"

declare digits.simps [simp del]

definition Itoa :: "int \<Rightarrow> string" where [go_defs]:
  "Itoa i = (if i < 0 then CHR ''-'' # digits (nat (- i)) else digits (nat i))"

definition fmt02 :: "int \<Rightarrow> string" where [go_defs]:
  "fmt02 i = (let s = Itoa i in if length s < 2 then CHR ''0'' # s else s)"

lemma digit_char:
  assumes "d < 10"
  shows "is_digit (char_of (48 + d))" "digit_value (char_of (48 + d)) = d"
    "char_of (48 + d) \<noteq> CHR '':''" "char_of (48 + d) \<noteq> CHR ''-''" "char_of (48 + d) \<noteq> CHR ''+''"
proof -
  have o: "of_char (char_of (48 + d)) = 48 + d" using assms by (simp add: of_char_of)
  show "is_digit (char_of (48 + d))" using assms by (simp add: is_digit_def less_eq_char_def)
  show "digit_value (char_of (48 + d)) = d" using o by (simp add: digit_value_def)
  show "char_of (48 + d) \<noteq> CHR '':''" "char_of (48 + d) \<noteq> CHR ''-''" "char_of (48 + d) \<noteq> CHR ''+''"
    using o assms by (auto simp del: of_char_of dest!: arg_cong [where f = "of_char :: char \<Rightarrow> nat"])
qed

lemma fmt02_two_digits:
  assumes "0 \<le> h" "h < 100"
  shows "fmt02 h = [char_of (48 + nat h div 10), char_of (48 + nat h mod 10)]"
proof (cases "h < 10")
  case True
  then have "nat h < 10" by linarith
  then have "digits (nat h) = [char_of (48 + nat h)]" by (subst digits.simps) simp
  moreover have "CHR ''0'' = char_of (48 :: nat)" by code_simp
  ultimately show ?thesis using True assms by (simp add: fmt02_def Itoa_def)
next
  case False
  have "nat h div 10 < 10" using assms by simp
  then have "digits (nat h div 10) = [char_of (48 + nat h div 10)]" by (subst digits.simps) simp
  moreover have "digits (nat h) = digits (nat h div 10) @ [char_of (48 + nat h mod 10)]"
    using False by (subst digits.simps) (simp add: nat_less_iff)
  ultimately show ?thesis using assms by (simp add: fmt02_def Itoa_def)
qed

lemma Atoi_fmt02:
  assumes "0 \<le> h" "h < 100"
  shows "Atoi (fmt02 h) = Some h"
proof -
  define a b where "a = nat h div 10" and "b = nat h mod 10"
  have "nat h = a * 10 + b" by (simp add: a_def b_def)
  moreover have "a < 10" "b < 10" using assms by (auto simp: a_def b_def)
  ultimately have ab: "a < 10" "b < 10" "int a * 10 + int b = h" using assms by linarith+
  have "decimal [char_of (48 + a), char_of (48 + b)] = 10 * a + b"
    using digit_char(2) [OF ab(1)] digit_char(2) [OF ab(2)] by (simp add: decimal_def)
  then show ?thesis
    using ab digit_char [OF ab(1)] digit_char [OF ab(2)] 
    unfolding fmt02_two_digits [OF assms] a_def [symmetric] b_def [symmetric]
    by (simp add: Atoi_def Let_def HasPrefix_def)
qed
lemma decimal_snoc [simp]: "decimal (s @ [c]) = 10 * decimal s + digit_value c"
  by (simp add: decimal_def)

lemma decimal_digits: "decimal (digits n) = n"
proof (induction n rule: digits.induct)
  case (1 n)
  show ?case
  proof (cases "n < 10")
    case True
    then show ?thesis by (subst digits.simps) (simp add: digit_char decimal_def)
  next
    case False
    then show ?thesis using 1 by (subst digits.simps) (simp add: digit_char)
  qed
qed

lemma digits_are_digits: "c \<in> set (digits n) \<Longrightarrow> c \<noteq> CHR '':'' \<and> c \<noteq> CHR ''-''"
proof (induction n rule: digits.induct)
  case (1 n)
  then show ?case
    by (subst (asm) digits.simps) (auto simp: digit_char split: if_splits)
qed

lemma Itoa_no_colon: "CHR '':'' \<notin> set (Itoa i)"
  using digits_are_digits by (auto simp: Itoa_def)

lemma digits_inj [simp]: "digits m = digits n \<longleftrightarrow> m = n"
  using decimal_digits by metis

lemma digits_sign [simp]: "CHR ''-'' # s \<noteq> digits n" "digits n \<noteq> CHR ''-'' # s"
  using digits_are_digits [of "CHR ''-''" n] by (metis list.set_intros(1))+

lemma Itoa_inj [simp]: "Itoa i = Itoa j \<longleftrightarrow> i = j"
  by (auto simp: Itoa_def)

lemma fmt02_24: "fmt02 24 = ''24''"
  unfolding fmt02_two_digits [of 24, simplified] by code_simp

lemma fmt02_no_colon: "0 \<le> h \<Longrightarrow> h < 100 \<Longrightarrow> CHR '':'' \<notin> set (fmt02 h)"
  using digit_char(3) [of "nat h div 10"] digit_char(3) [of "nat h mod 10"]
  by (force simp: fmt02_two_digits nat_less_iff)

section \<open>Errors\<close>

text \<open>
  A Go function that returns a value and an error is a function to a sum, the error on the
  left; \<open>bindE\<close> is the check \<open>if err != nil\<close> with its early return.
\<close>

definition bindE :: "'e + 'a \<Rightarrow> ('a \<Rightarrow> 'e + 'b) \<Rightarrow> 'e + 'b" where
  "bindE r f = (case r of Inl e \<Rightarrow> Inl e | Inr a \<Rightarrow> f a)"

fun mapE :: "('a \<Rightarrow> 'e + 'b) \<Rightarrow> 'a list \<Rightarrow> 'e + 'b list" where
  "mapE f [] = Inr []"
| "mapE f (x # xs) = bindE (f x) (\<lambda>y. bindE (mapE f xs) (\<lambda>ys. Inr (y # ys)))"

lemma bindE_simps [simp]: "bindE (Inl e) f = Inl e" "bindE (Inr a) f = f a"
  by (simp_all add: bindE_def)

lemma bindE_Inr: "bindE r f = Inr b \<longleftrightarrow> (\<exists>a. r = Inr a \<and> f a = Inr b)"
  by (cases r) simp_all

lemma mapE_Inr: "mapE f xs = Inr ys \<longleftrightarrow> list_all2 (\<lambda>x y. f x = Inr y) xs ys"
  by (induction xs arbitrary: ys) (auto simp: bindE_Inr list_all2_Cons1)

section \<open>Maps as association lists\<close>

text \<open>
  A Go map whose size or iteration matters is an association list with distinct keys;
  \<open>put\<close> is \<open>m[k] = v\<close> and \<open>del\<close> is \<open>delete(m, k)\<close>. Go iterates over a map in an order it
  does not specify: where the code ranges over a map, the model takes the order as a
  function \<open>rng\<close>, and what is known of it is \<open>map_order rng\<close>.
\<close>

fun put :: "'k \<Rightarrow> 'v \<Rightarrow> ('k \<times> 'v) list \<Rightarrow> ('k \<times> 'v) list" where
  "put k v [] = [(k, v)]"
| "put k v ((a, b) # m) = (if a = k then (k, v) # m else (a, b) # put k v m)"

definition del :: "'k \<Rightarrow> ('k \<times> 'v) list \<Rightarrow> ('k \<times> 'v) list" where
  "del k m = filter (\<lambda>(a, b). a \<noteq> k) m"

abbreviation keys :: "('k \<times> 'v) list \<Rightarrow> 'k list" where "keys m \<equiv> map fst m"

definition map_order :: "('a list \<Rightarrow> 'a list) \<Rightarrow> bool" where
  "map_order rng \<longleftrightarrow> (\<forall>xs. mset (rng xs) = mset xs)"

lemma map_of_put [simp]: "map_of (put k v m) = (map_of m)(k \<mapsto> v)"
  by (induction k v m rule: put.induct) auto

lemma map_of_del [simp]: "map_of (del k m) = (map_of m)(k := None)"
  by (induction m) (auto simp: del_def)

lemma keys_put [simp]: "fst ` set (put k v m) = insert k (fst ` set m)"
  by (induction k v m rule: put.induct) auto

lemma distinct_put [simp]: "distinct (keys m) \<Longrightarrow> distinct (keys (put k v m))"
  by (induction k v m rule: put.induct) auto

lemma keys_del [simp]: "fst ` set (del k m) = fst ` set m - {k}"
  by (force simp: del_def)

lemma distinct_del [simp]: "distinct (keys m) \<Longrightarrow> distinct (keys (del k m))"
  by (induction m) (auto simp: del_def)

lemma length_put: "length (put k v m) = (if k \<in> set (keys m) then length m else Suc (length m))"
  by (induction k v m rule: put.induct) auto

lemma length_del_le: "length (del k m) \<le> length m"
  by (simp add: del_def)

lemma length_del:
  "distinct (keys m) \<Longrightarrow> k \<in> set (keys m) \<Longrightarrow> Suc (length (del k m)) = length m"
proof (induction m)
  case (Cons p m)
  show ?case
  proof (cases "fst p = k")
    case True
    with Cons.prems have "k \<notin> set (keys m)" by auto
    then have "del k m = m" by (force simp: del_def filter_id_conv)
    with True show ?thesis by (simp add: del_def split_beta)
  next
    case False
    with Cons show ?thesis by (auto simp: del_def split_beta)
  qed
qed simp

lemma del_absent: "map_of m k = None \<Longrightarrow> del k m = m"
  by (force simp: del_def filter_id_conv map_of_eq_None_iff)

lemma set_del: "set (del k m) = {p \<in> set m. fst p \<noteq> k}"
  by (auto simp: del_def)

lemma mset_del:
  "distinct (keys m) \<Longrightarrow> map_of m k = Some e \<Longrightarrow> mset m = add_mset (k, e) (mset (del k m))"
proof (induction m)
  case (Cons p m)
  obtain a b where p: "p = (a, b)" by (cases p)
  show ?case
  proof (cases "a = k")
    case True
    then have "map_of m k = None" using Cons.prems p by (simp add: map_of_eq_None_iff)
    with del_absent [OF this] True Cons.prems p show ?thesis by (simp add: del_def)
  next
    case False
    with Cons p show ?thesis by (simp add: del_def)
  qed
qed simp

lemma mset_put: "distinct (keys m) \<Longrightarrow> mset (put k v m) = add_mset (k, v) (mset (del k m))"
proof (induction k v m rule: put.induct)
  case (2 k v a b m)
  show ?case
  proof (cases "a = k")
    case True
    then have "map_of m k = None" using 2(2) by (simp add: map_of_eq_None_iff)
    with del_absent [OF this] True show ?thesis by (simp add: del_def)
  next
    case False
    with 2 show ?thesis by (simp add: del_def)
  qed
qed (simp add: del_def)

lemma set_put: "distinct (keys m) \<Longrightarrow> set (put k v m) = insert (k, v) {p \<in> set m. fst p \<noteq> k}"
  using mset_put [of m k v] by (metis mset_eq_setD set_mset_add_mset_insert set_mset_mset set_del)

lemma distinct_map_put:
  assumes "distinct (keys m)" "distinct (map f m)" "f (k, v) \<notin> f ` set m"
  shows "distinct (map f (put k v m))"
proof -
  have "mset (map f (put k v m)) = mset (map f ((k, v) # del k m))"
    using mset_put [OF assms(1), of k v] by simp
  moreover have "distinct (map f ((k, v) # del k m))"
    using assms(2,3) by (auto simp: del_def intro: distinct_map_filter)
  ultimately show ?thesis by (metis mset_eq_imp_distinct_iff)
qed

lemma map_of_filter_keys: "map_of (filter (\<lambda>(k, _). k \<notin> S) m) a = (if a \<in> S then None else map_of m a)"
  by (induction m) auto

lemma map_of_filter_val:
  "distinct (keys m) \<Longrightarrow> map_of (filter (\<lambda>(k, e). P e) m) k =
     (case map_of m k of None \<Rightarrow> None | Some e \<Rightarrow> if P e then Some e else None)"
proof (induction m)
  case (Cons p m)
  obtain a b where p: "p = (a, b)" by (cases p)
  have "map_of m a = None" using Cons.prems p by (simp add: map_of_eq_None_iff)
  with Cons p show ?case by (cases "k = a") auto
qed simp

lemma map_order_id [simp]: "map_order (\<lambda>xs. xs)"
  by (simp add: map_order_def)

lemma map_order_rev [simp]: "map_order rev"
  by (simp add: map_order_def)

lemma map_orderD:
  assumes "map_order rng"
  shows "mset (rng xs) = mset xs" "set (rng xs) = set xs" "length (rng xs) = length xs"
    "distinct (rng xs) = distinct xs"
proof -
  show m: "mset (rng xs) = mset xs" using assms by (simp add: map_order_def)
  show "set (rng xs) = set xs" using m by (rule mset_eq_setD)
  show "length (rng xs) = length xs" using m by (rule mset_eq_length)
  show "distinct (rng xs) = distinct xs" using m by (rule mset_eq_imp_distinct_iff)
qed

section \<open>Counting\<close>

lemma length_filter_mono: "(\<And>y. Q y \<Longrightarrow> P y) \<Longrightarrow> length (filter Q xs) \<le> length (filter P xs)"
  by (induction xs) (auto intro: le_SucI)

lemma length_filter_strict:
  "x \<in> set xs \<Longrightarrow> P x \<Longrightarrow> \<not> Q x \<Longrightarrow> (\<And>y. Q y \<Longrightarrow> P y) \<Longrightarrow>
     length (filter Q xs) < length (filter P xs)"
  by (induction xs) (auto simp: less_Suc_eq_le length_filter_mono)

section \<open>Deterministic machines\<close>

text \<open>
  A component that owns a state and offers operations is a step function; the invariant that
  every admissible operation keeps holds after every sequence of them.
\<close>

locale op_machine =
  fixes step :: "'s \<Rightarrow> 'op \<Rightarrow> 's" and inv :: "'s \<Rightarrow> bool" and ok :: "'op \<Rightarrow> bool"
  assumes step_inv: "inv s \<Longrightarrow> ok op \<Longrightarrow> inv (step s op)"
begin

lemma run_inv: "inv s \<Longrightarrow> list_all ok ops \<Longrightarrow> inv (foldl step s ops)"
  by (induction ops arbitrary: s) (auto intro: step_inv)

lemma run_mono:
  assumes "\<And>s op. inv s \<Longrightarrow> ok op \<Longrightarrow> (f :: 's \<Rightarrow> 'o::order) s \<le> f (step s op)"
  shows "inv s \<Longrightarrow> list_all ok ops \<Longrightarrow> f s \<le> f (foldl step s ops)"
proof (induction ops arbitrary: s)
  case (Cons op ops)
  then have "f s \<le> f (step s op)" using assms by simp
  also have "\<dots> \<le> f (foldl step (step s op) ops)" using Cons by (simp add: step_inv)
  finally show ?case by simp
qed simp

lemma run_const:
  assumes "\<And>s op. inv s \<Longrightarrow> ok op \<Longrightarrow> f (step s op) = f s"
  shows "inv s \<Longrightarrow> list_all ok ops \<Longrightarrow> f (foldl step s ops) = f s"
  by (induction ops arbitrary: s) (simp_all add: assms step_inv)

end

end
