(* ===== verification/Version.thy ===== *)
theory Version
  imports Cfgms_Prelude
begin

text \<open>
  \<open>pkg/version/semver.go\<close>: parsing and comparison of semantic versions. The order of SemVer
  2.0 precedence is given as a linear order on parsed versions, by a sort key; the theorems
  show that the code computes exactly that order, and that its comparison of digit strings is
  the comparison of the numbers they denote, however long they are.
\<close>

section \<open>The code\<close>

datatype version_error = ErrInvalidSemanticVersion

datatype semanticVersion =
  SemanticVersion (core: "string \<times> string \<times> string") (prerelease: "string list")

definition core_list :: "semanticVersion \<Rightarrow> string list" where
  "core_list v = (case core v of (a, b, c) \<Rightarrow> [a, b, c])"

text \<open>
  \<open>semanticVersionRE\<close>: an optional \<open>v\<close>, three numbers without leading zeros, an optional
  dotted pre-release after the first \<open>-\<close> and an optional dotted build after the first \<open>+\<close>.
  The match is unambiguous: a number has no \<open>-\<close> or \<open>+\<close>, a pre-release has no \<open>+\<close>.
\<close>

definition numeric_component :: "string \<Rightarrow> bool" where
  "numeric_component s \<longleftrightarrow> s = ''0'' \<or>
     (case s of [] \<Rightarrow> False | c # t \<Rightarrow> CHR ''1'' \<le> c \<and> c \<le> CHR ''9'' \<and> list_all is_digit t)"

definition identifier_char :: "char \<Rightarrow> bool" where
  "identifier_char c \<longleftrightarrow> is_digit c \<or> CHR ''A'' \<le> c \<and> c \<le> CHR ''Z'' \<or>
     CHR ''a'' \<le> c \<and> c \<le> CHR ''z'' \<or> c = CHR ''-''"

definition dotted_identifiers :: "string \<Rightarrow> bool" where
  "dotted_identifiers s \<longleftrightarrow>
     list_all (\<lambda>w. w \<noteq> [] \<and> list_all identifier_char w) (Split s (CHR ''.''))"

definition strip_v :: "string \<Rightarrow> string" where
  "strip_v s = (case s of [] \<Rightarrow> [] | c # t \<Rightarrow> if c = CHR ''v'' then t else s)"

definition semanticVersionRE :: "string \<Rightarrow> (string \<times> string \<times> string \<times> string) option" where
  "semanticVersionRE v =
     (let (rest, build) = Cut (strip_v v) (CHR ''+''); (nums, pre) = Cut rest (CHR ''-'')
      in case Split nums (CHR ''.'') of
           [a, b, c] \<Rightarrow>
             if numeric_component a \<and> numeric_component b \<and> numeric_component c
                \<and> (case pre of None \<Rightarrow> True | Some p \<Rightarrow> dotted_identifiers p)
                \<and> (case build of None \<Rightarrow> True | Some p \<Rightarrow> dotted_identifiers p)
             then Some (a, b, c, case pre of None \<Rightarrow> [] | Some p \<Rightarrow> p) else None
         | _ \<Rightarrow> None)"

definition numericIdentifierRE :: "string \<Rightarrow> bool" where
  "numericIdentifierRE s \<longleftrightarrow> s \<noteq> [] \<and> list_all is_digit s"

definition parseSemantic :: "string \<Rightarrow> version_error + semanticVersion" where
  "parseSemantic v =
     (case semanticVersionRE v of
        None \<Rightarrow> Inl ErrInvalidSemanticVersion
      | Some (a, b, c, pre) \<Rightarrow>
          if pre = [] then Inr (SemanticVersion (a, b, c) [])
          else if list_ex (\<lambda>i. numericIdentifierRE i \<and> 1 < length i \<and> hd i = CHR ''0'')
                    (Split pre (CHR ''.''))
          then Inl ErrInvalidSemanticVersion
          else Inr (SemanticVersion (a, b, c) (Split pre (CHR ''.''))))"

definition IsSemantic :: "string \<Rightarrow> bool" where
  "IsSemantic v = (case parseSemantic v of Inl _ \<Rightarrow> False | Inr _ \<Rightarrow> True)"

definition compareNumericIdentifier :: "string \<Rightarrow> string \<Rightarrow> int" where
  "compareNumericIdentifier a b =
     (if length a < length b then -1 else if length a > length b then 1
      else if a < b then -1 else if b < a then 1 else 0)"

text \<open>The loop over the three core components returns at the first difference.\<close>

fun compare_core_loop :: "string list \<Rightarrow> string list \<Rightarrow> int option" where
  "compare_core_loop (a # as) (b # bs) =
     (if compareNumericIdentifier a b \<noteq> 0 then Some (compareNumericIdentifier a b)
      else compare_core_loop as bs)"
| "compare_core_loop _ _ = None"

text \<open>The loop over the common pre-release identifiers; None when it runs to its end.\<close>

fun compare_prerelease_loop :: "string list \<Rightarrow> string list \<Rightarrow> int option" where
  "compare_prerelease_loop (a # as) (b # bs) =
     (let an = numericIdentifierRE a; bn = numericIdentifierRE b
      in if an \<and> bn then
           (if compareNumericIdentifier a b \<noteq> 0 then Some (compareNumericIdentifier a b)
            else compare_prerelease_loop as bs)
         else if an then Some (-1)
         else if bn then Some 1
         else if a < b then Some (-1)
         else if b < a then Some 1
         else compare_prerelease_loop as bs)"
| "compare_prerelease_loop _ _ = None"

definition CompareSemantic :: "string \<Rightarrow> string \<Rightarrow> version_error + int" where
  "CompareSemantic a b =
     (case parseSemantic a of Inl e \<Rightarrow> Inl e | Inr av \<Rightarrow>
     (case parseSemantic b of Inl e \<Rightarrow> Inl e | Inr bv \<Rightarrow>
     (case compare_core_loop (core_list av) (core_list bv) of Some r \<Rightarrow> Inr r | None \<Rightarrow>
      if prerelease av = [] \<and> prerelease bv = [] then Inr 0
      else if prerelease av = [] then Inr 1
      else if prerelease bv = [] then Inr (-1)
      else (case compare_prerelease_loop (prerelease av) (prerelease bv) of Some r \<Rightarrow> Inr r | None \<Rightarrow>
        if length (prerelease av) < length (prerelease bv) then Inr (-1)
        else if length (prerelease av) > length (prerelease bv) then Inr 1
        else Inr 0))))"

section \<open>SemVer precedence as a linear order\<close>

text \<open>
  A number is ordered by its length, then by its digits. A pre-release identifier that is a
  number comes before one that is not; a list of identifiers is ordered lexicographically, a
  proper prefix first; a version without pre-release comes after every pre-release of it.
\<close>

definition num_key :: "string \<Rightarrow> nat \<times> string" where
  "num_key s = (length s, s)"

definition ident_key :: "string \<Rightarrow> nat \<times> nat \<times> string" where
  "ident_key s = (if numericIdentifierRE s then (0, length s, s) else (1, 0, s))"

definition version_key ::
    "semanticVersion \<Rightarrow> (nat \<times> string) list \<times> nat \<times> (nat \<times> nat \<times> string) list" where
  "version_key v = (map num_key (core_list v), if prerelease v = [] then 1 else 0,
     map ident_key (prerelease v))"

instantiation semanticVersion :: linorder
begin

definition less_eq_semanticVersion :: "semanticVersion \<Rightarrow> semanticVersion \<Rightarrow> bool" where
  "less_eq_semanticVersion x y \<longleftrightarrow> version_key x \<le> version_key y"

definition less_semanticVersion :: "semanticVersion \<Rightarrow> semanticVersion \<Rightarrow> bool" where
  "less_semanticVersion x y \<longleftrightarrow> version_key x < version_key y"

lemma version_key_inj: "version_key x = version_key y \<Longrightarrow> x = y"
proof -
  have num: "inj num_key" by (rule injI) (simp add: num_key_def)
  have ident: "inj ident_key" by (rule injI) (auto simp: ident_key_def split: if_splits)
  assume "version_key x = version_key y"
  then have "core_list x = core_list y" "prerelease x = prerelease y"
    using num ident by (auto simp: version_key_def inj_map_eq_map)
  then show "x = y" by (cases x; cases y) (auto simp: core_list_def split: prod.splits)
qed

instance
  by standard
    (auto simp: less_eq_semanticVersion_def less_semanticVersion_def dest: version_key_inj)

end

section \<open>Lemmas\<close>

lemma compareNumericIdentifier_cmp: "compareNumericIdentifier a b = cmp (num_key a) (num_key b)"
  by (auto simp: compareNumericIdentifier_def num_key_def cmp_def less_prod_def)

lemma compare_core_loop_cmp:
  "length as = length bs \<Longrightarrow>
   compare_core_loop as bs =
     (if map num_key as = map num_key bs then None else Some (cmp (map num_key as) (map num_key bs)))"
  by (induction as bs rule: compare_core_loop.induct)
    (auto simp: compareNumericIdentifier_cmp cmp_Cons)

lemma compare_prerelease_loop_cmp:
  "(case compare_prerelease_loop as bs of Some r \<Rightarrow> r | None \<Rightarrow>
      if length as < length bs then -1 else if length as > length bs then 1 else 0)
   = cmp (map ident_key as) (map ident_key bs)"
proof (induction as arbitrary: bs)
  case Nil
  then show ?case by (cases bs) auto
next
  case (Cons a as)
  show ?case
  proof (cases bs)
    case Nil
    then show ?thesis by simp
  next
    case (Cons b bs')
    show ?thesis
    proof (cases "a = b")
      case True
      then have "compare_prerelease_loop (a # as) (b # bs') = compare_prerelease_loop as bs'"
        by (simp add: Let_def compareNumericIdentifier_def)
      then show ?thesis
        using Cons.IH [of bs'] True
        unfolding \<open>bs = b # bs'\<close> list.map cmp_Cons length_Cons Suc_less_eq
        by (simp del: compare_prerelease_loop.simps split del: if_split)
    next
      case False
      then have "compare_prerelease_loop (a # as) (b # bs') = Some (cmp (ident_key a) (ident_key b))"
        by (simp add: Let_def ident_key_def compareNumericIdentifier_def cmp_def less_prod_def)
      moreover have "cmp (ident_key a) (ident_key b) \<noteq> 0"
        using False by (simp add: ident_key_def)
      ultimately show ?thesis unfolding \<open>bs = b # bs'\<close> list.map cmp_Cons
        by (simp del: compare_prerelease_loop.simps)
    qed
  qed
qed

lemma length_core_list [simp]: "length (core_list v) = 3"
  by (simp add: core_list_def split: prod.splits)

lemma CompareSemantic_parsed:
  assumes "parseSemantic a = Inr x" and "parseSemantic b = Inr y"
  shows "CompareSemantic a b = Inr (cmp x y)"
proof -
  have key: "cmp x y = cmp (version_key x) (version_key y)"
    by (auto simp: cmp_def less_semanticVersion_def)
  have pre: "cmp (map ident_key (prerelease x)) (map ident_key (prerelease y)) =
      (case compare_prerelease_loop (prerelease x) (prerelease y) of Some r \<Rightarrow> r | None \<Rightarrow>
        if length (prerelease x) < length (prerelease y) then -1
        else if length (prerelease x) > length (prerelease y) then 1 else 0)"
    by (rule compare_prerelease_loop_cmp [symmetric])
  have z: "cmp (Suc 0) 0 = 1" "cmp 0 (Suc 0) = -1" by (simp_all add: cmp_def)
  show ?thesis
    unfolding CompareSemantic_def assms sum.case key version_key_def cmp_prod pre
    by (auto simp: compare_core_loop_cmp z split: option.splits)
qed

lemma CompareSemantic_iff:
  "CompareSemantic a b = Inr r \<longleftrightarrow>
     (\<exists>x y. parseSemantic a = Inr x \<and> parseSemantic b = Inr y \<and> r = cmp x y)"
proof (cases "parseSemantic a"; cases "parseSemantic b")
  fix x y assume "parseSemantic a = Inr x" "parseSemantic b = Inr y"
  then show ?thesis using CompareSemantic_parsed by auto
qed (auto simp: CompareSemantic_def)

lemma decimal_Cons: "decimal (c # s) = digit_value c * 10 ^ length s + decimal s"
proof (induction s rule: rev_induct)
  case Nil
  then show ?case by (simp add: decimal_def)
next
  case (snoc d s)
  have "decimal (c # s @ [d]) = 10 * decimal (c # s) + digit_value d"
    by (metis append_Cons decimal_snoc)
  with snoc show ?case by (simp add: algebra_simps)
qed

lemma is_digit_values: "is_digit c \<Longrightarrow> 48 \<le> (of_char c :: nat) \<and> (of_char c :: nat) \<le> 57"
  by (auto simp: is_digit_def less_eq_char_def)

lemma digit_value_less: "is_digit c \<Longrightarrow> digit_value c < 10"
  using is_digit_values by (force simp: digit_value_def)

lemma decimal_less: "list_all is_digit s \<Longrightarrow> decimal s < 10 ^ length s"
proof (induction s)
  case (Cons c s)
  then have "digit_value c \<le> 9" using digit_value_less [of c] by simp
  then have "digit_value c * 10 ^ length s \<le> 9 * 10 ^ length s" by (rule mult_right_mono) simp
  moreover have "decimal s < 10 ^ length s" using Cons by simp
  ultimately show ?case unfolding decimal_Cons length_Cons power_Suc by linarith
qed (simp add: decimal_def)

lemma digit_less_iff: "is_digit c \<Longrightarrow> is_digit d \<Longrightarrow> c < d \<longleftrightarrow> digit_value c < digit_value d"
  using is_digit_values [of c] is_digit_values [of d] by (auto simp: digit_value_def less_char_def)

lemma decimal_lex:
  "length a = length b \<Longrightarrow> list_all is_digit a \<Longrightarrow> list_all is_digit b \<Longrightarrow>
   a < b \<longleftrightarrow> decimal a < decimal b"
proof (induction a b rule: list_induct2)
  case (Cons c a d b)
  have bounds: "decimal a < 10 ^ length b" "decimal b < 10 ^ length b"
    using Cons decimal_less [of a] decimal_less [of b] by auto
  have big: "x * 10 ^ length b + decimal u < y * 10 ^ length b + decimal w"
    if "x < y" "decimal u < 10 ^ length b" for x y :: nat and u w
  proof -
    from that(1) have "Suc x * 10 ^ length b \<le> y * 10 ^ length b" by (intro mult_right_mono) auto
    with that(2) show ?thesis by simp
  qed
  have trich: "c < d \<longleftrightarrow> digit_value c < digit_value d" "d < c \<longleftrightarrow> digit_value d < digit_value c"
    using Cons digit_less_iff by auto
  consider "c < d" | "d < c" | "c = d" by (rule linorder_cases)
  then show ?case
  proof cases
    case 1
    with trich have "digit_value c < digit_value d" by simp
    from big [OF this bounds(1), of b] 1 Cons show ?thesis by (simp add: decimal_Cons)
  next
    case 2
    with trich have "digit_value d < digit_value c" by simp
    from big [OF this bounds(2), of a] 2 Cons show ?thesis by (auto simp: decimal_Cons)
  next
    case 3
    with Cons show ?thesis by (simp add: decimal_Cons)
  qed
qed simp

lemma numeric_component_digits:
  "numeric_component s \<Longrightarrow> list_all is_digit s \<and> s \<noteq> [] \<and> (hd s = CHR ''0'' \<longrightarrow> s = ''0'')"
  by (auto simp: numeric_component_def is_digit_def less_eq_char_def split: list.splits)

lemma decimal_ge:
  assumes "numeric_component s" and "1 < length s"
  shows "10 ^ (length s - 1) \<le> decimal s"
proof -
  obtain c t where s: "s = c # t" using assms by (cases s) auto
  have "CHR ''1'' \<le> c" "c \<le> CHR ''9''" using assms s by (auto simp: numeric_component_def)
  then have "1 \<le> digit_value c" by (simp add: digit_value_def less_eq_char_def)
  then have "1 * 10 ^ length t \<le> digit_value c * 10 ^ length t" by (rule mult_right_mono) simp
  then show ?thesis unfolding s decimal_Cons by (simp only: length_Cons diff_Suc_1)
qed

lemma decimal_length_mono:
  assumes "numeric_component a" "numeric_component b" "length a < length b"
  shows "decimal a < decimal b"
proof -
  have "decimal a < 10 ^ length a"
    using assms(1) by (intro decimal_less) (auto dest: numeric_component_digits)
  also have "10 ^ length a \<le> (10 ^ (length b - 1) :: nat)"
    using assms(3) by (intro power_increasing) auto
  also have "\<dots> \<le> decimal b"
  proof (rule decimal_ge [OF assms(2)])
    have "a \<noteq> []" using numeric_component_digits [OF assms(1)] by simp
    then show "1 < length b" using assms(3) by (cases a) auto
  qed
  finally show ?thesis .
qed

section \<open>Properties\<close>

text \<open>Comparing two numbers by length and then bytewise is comparing their values, for
  numbers of any size (no machine integer is involved, so nothing can overflow).\<close>

theorem compareNumericIdentifier_correct:
  assumes "numeric_component a" and "numeric_component b"
  shows "compareNumericIdentifier a b = cmp (decimal a) (decimal b)"
proof -
  have digits: "list_all is_digit a" "list_all is_digit b"
    using assms by (auto dest: numeric_component_digits)
  consider "length a < length b" | "length b < length a" | "length a = length b"
    by (rule linorder_cases)
  then show ?thesis
  proof cases
    case 3
    then show ?thesis
      using decimal_lex [OF 3 digits] decimal_lex [OF 3 [symmetric] digits(2,1)]
      by (auto simp: compareNumericIdentifier_def cmp_def)
  qed (use assms decimal_length_mono in \<open>force simp: compareNumericIdentifier_def cmp_def\<close>)+
qed

theorem compareNumericIdentifier_correct_witness:
  "numeric_component ''99999999999999999999'' \<and> numeric_component ''100000000000000000000'' \<and>
   compareNumericIdentifier ''99999999999999999999'' ''100000000000000000000'' =
     cmp (decimal ''99999999999999999999'') (decimal ''100000000000000000000'')"
proof -
  have a: "numeric_component ''99999999999999999999''" by code_simp
  have b: "numeric_component ''100000000000000000000''" by code_simp
  show ?thesis by (intro conjI a b compareNumericIdentifier_correct)
qed

text \<open>C27: \<open>CompareSemantic\<close> succeeds exactly on two valid versions, and then returns the
  three-way comparison of a linear order on parsed versions: it is a total order in which
  only versions that parse to the same components and pre-release are equal.\<close>

theorem CompareSemantic_linear_order:
  "CompareSemantic a b =
     (case (parseSemantic a, parseSemantic b) of
        (Inr x, Inr y) \<Rightarrow> Inr (if x < y then -1 else if x = y then 0 else 1)
      | _ \<Rightarrow> Inl ErrInvalidSemanticVersion)"
proof (cases "parseSemantic a"; cases "parseSemantic b")
  fix x y assume "parseSemantic a = Inr x" "parseSemantic b = Inr y"
  then show ?thesis by (auto simp: CompareSemantic_parsed cmp_def)
qed (auto simp: CompareSemantic_def intro: version_error.exhaust)

end
