(* ===== verification/Lease_Store.thy ===== *)
theory Lease_Store
  imports Cfgms_Prelude
begin

text \<open>
  The durable lease stores: the contract \<open>business.LeaseStore\<close> of
  \<open>pkg/storage/interfaces/business/lease_store.go\<close> as a locale, the PostgreSQL store
  (\<open>pkg/storage/providers/database/lease_store.go\<close>) and the flat-file store
  (\<open>pkg/storage/providers/flatfile/lease_store.go\<close>) as its interpretations, and the fencing
  of tokens.
\<close>

datatype lease_error =
    EmptyLeaseName | EmptyHolderID | StoreFailed | ErrLeaseNotFound
  | TTLMismatch | NonPositiveMargin | NilClock | NilStore | FencedOut | TokenSuperseded

text \<open>\<open>business.LeaseState\<close>, a snapshot of a row.\<close>

record LeaseState =
  ls_Name :: string
  ls_HolderID :: string
  ls_Token :: nat
  ls_ExpiresAt :: instant
  ls_Valid :: bool
  ls_Acquired :: bool

text \<open>A stored row: \<open>leaseEntryJSON\<close> of the flat file, a row of \<open>cfgms_leases\<close>.\<close>

record leaseEntry =
  le_HolderID :: string
  le_Token :: nat
  le_ExpiresAt :: instant

type_synonym lease_table = "string \<rightharpoonup> leaseEntry"

section \<open>The PostgreSQL store\<close>

text \<open>
  A statement either runs, or the driver reports a failure; a failed statement may have been
  applied before its reply was lost. \<open>now\<close> is the server's transaction timestamp. Time is
  exact: PostgreSQL keeps whole microseconds, which is exact for a \<open>ttl\<close> of whole microseconds.
\<close>

datatype query = QueryOK | QueryFailed (query_applied: bool)

text \<open>The statement \<open>INSERT ... ON CONFLICT (name) DO UPDATE ... WHERE ... RETURNING\<close>.\<close>

definition lease_upsert ::
    "instant \<Rightarrow> string \<Rightarrow> string \<Rightarrow> duration \<Rightarrow> lease_table \<Rightarrow> lease_table \<times> LeaseState option" where
  "lease_upsert now name holder ttl tab =
     (let ret = (\<lambda>tok. Some \<lparr>ls_Name = name, ls_HolderID = holder, ls_Token = tok,
                  ls_ExpiresAt = now + ttl, ls_Valid = (now + ttl > now), ls_Acquired = False\<rparr>)
      in case tab name of
           None \<Rightarrow> (tab(name \<mapsto> \<lparr>le_HolderID = holder, le_Token = 1, le_ExpiresAt = now + ttl\<rparr>), ret 1)
         | Some r \<Rightarrow>
             if le_ExpiresAt r < now \<or> le_HolderID r = holder then
               (let tok = (if le_HolderID r = holder \<and> le_ExpiresAt r \<ge> now then le_Token r
                           else le_Token r + 1)
                in (tab(name \<mapsto> \<lparr>le_HolderID = holder, le_Token = tok, le_ExpiresAt = now + ttl\<rparr>), ret tok))
             else (tab, None))"

definition db_getLease :: "query \<Rightarrow> instant \<Rightarrow> string \<Rightarrow> lease_table \<Rightarrow> lease_error + LeaseState" where
  "db_getLease q now name tab =
     (case q of QueryFailed _ \<Rightarrow> Inl StoreFailed | QueryOK \<Rightarrow>
      (case tab name of None \<Rightarrow> Inl ErrLeaseNotFound
       | Some r \<Rightarrow> Inr \<lparr>ls_Name = name, ls_HolderID = le_HolderID r, ls_Token = le_Token r,
           ls_ExpiresAt = le_ExpiresAt r, ls_Valid = (le_ExpiresAt r > now), ls_Acquired = False\<rparr>))"

text \<open>
  \<open>AcquireOrRenew\<close>. When the statement returns no row the contested row is read back by a
  second query, after other callers may have run: \<open>readback\<close> is what \<open>db_getLease\<close> returned.
\<close>

definition db_AcquireOrRenew ::
    "query \<times> (lease_error + LeaseState) \<Rightarrow> instant \<Rightarrow> string \<Rightarrow> string \<Rightarrow> duration \<Rightarrow> lease_table
     \<Rightarrow> (lease_error + LeaseState) \<times> lease_table" where
  "db_AcquireOrRenew env now name holder ttl tab =
     (case env of (q, readback) \<Rightarrow>
      if name = [] then (Inl EmptyLeaseName, tab)
      else if holder = [] then (Inl EmptyHolderID, tab)
      else (case q of
              QueryFailed applied \<Rightarrow>
                (Inl StoreFailed, if applied then fst (lease_upsert now name holder ttl tab) else tab)
            | QueryOK \<Rightarrow>
                (case lease_upsert now name holder ttl tab of
                   (tab', Some st) \<Rightarrow> (Inr (st\<lparr>ls_Acquired := True\<rparr>), tab')
                 | (tab', None) \<Rightarrow>
                     (case readback of Inl e \<Rightarrow> (Inl e, tab')
                      | Inr cur \<Rightarrow> (Inr (cur\<lparr>ls_Acquired := False\<rparr>), tab')))))"

definition db_Release ::
    "query \<times> (lease_error + LeaseState) \<Rightarrow> string \<Rightarrow> string \<Rightarrow> nat \<Rightarrow> lease_table
     \<Rightarrow> lease_error option \<times> lease_table" where
  "db_Release env name holder token tab =
     (let released = (case tab name of
            Some r \<Rightarrow> if le_HolderID r = holder \<and> le_Token r = token
                      then tab(name \<mapsto> r\<lparr>le_ExpiresAt := 0\<rparr>) else tab
          | None \<Rightarrow> tab)
      in case fst env of QueryOK \<Rightarrow> (None, released)
         | QueryFailed applied \<Rightarrow> (Some StoreFailed, if applied then released else tab))"

section \<open>The flat-file store\<close>

text \<open>
  Whether reading and writing \<open>leases.json\<close> succeed is the outcome of the call's disk
  operations. Tokens are \<open>uint64\<close>, so \<open>newToken++\<close> wraps.
\<close>

datatype disk = Disk (load_ok: bool) (save_ok: bool)

definition ff_AcquireOrRenew ::
    "disk \<Rightarrow> instant \<Rightarrow> string \<Rightarrow> string \<Rightarrow> duration \<Rightarrow> lease_table
     \<Rightarrow> (lease_error + LeaseState) \<times> lease_table" where
  "ff_AcquireOrRenew d now name holder ttl tab =
     (if name = [] then (Inl EmptyLeaseName, tab)
      else if holder = [] then (Inl EmptyHolderID, tab)
      else if \<not> load_ok d then (Inl StoreFailed, tab)
      else
        (let contended = (case tab name of None \<Rightarrow> None | Some r \<Rightarrow>
               if \<not> le_ExpiresAt r < now \<and> le_HolderID r \<noteq> holder then Some r else None)
         in case contended of
              Some r \<Rightarrow>
                (Inr \<lparr>ls_Name = name, ls_HolderID = le_HolderID r, ls_Token = le_Token r,
                   ls_ExpiresAt = le_ExpiresAt r, ls_Valid = True, ls_Acquired = False\<rparr>, tab)
            | None \<Rightarrow>
                (let newToken = (case tab name of None \<Rightarrow> 1 | Some r \<Rightarrow>
                       if le_ExpiresAt r < now \<or> le_HolderID r \<noteq> holder
                       then (le_Token r + 1) mod 2 ^ 64 else le_Token r)
                 in if \<not> save_ok d then (Inl StoreFailed, tab)
                    else (Inr \<lparr>ls_Name = name, ls_HolderID = holder, ls_Token = newToken,
                            ls_ExpiresAt = now + ttl, ls_Valid = (now + ttl > now), ls_Acquired = True\<rparr>,
                          tab(name \<mapsto> \<lparr>le_HolderID = holder, le_Token = newToken,
                            le_ExpiresAt = now + ttl\<rparr>)))))"

definition ff_Release ::
    "disk \<Rightarrow> string \<Rightarrow> string \<Rightarrow> nat \<Rightarrow> lease_table \<Rightarrow> lease_error option \<times> lease_table" where
  "ff_Release d name holder token tab =
     (if \<not> load_ok d then (Some StoreFailed, tab)
      else case tab name of
             None \<Rightarrow> (None, tab)
           | Some r \<Rightarrow>
               if le_HolderID r \<noteq> holder \<or> le_Token r \<noteq> token then (None, tab)
               else if \<not> save_ok d then (Some StoreFailed, tab)
               else (None, tab(name \<mapsto> r\<lparr>le_ExpiresAt := 0\<rparr>)))"

definition ff_GetLease :: "disk \<Rightarrow> instant \<Rightarrow> string \<Rightarrow> lease_table \<Rightarrow> lease_error + LeaseState" where
  "ff_GetLease d now name tab =
     (if \<not> load_ok d then Inl StoreFailed
      else case tab name of None \<Rightarrow> Inl ErrLeaseNotFound
           | Some r \<Rightarrow> Inr \<lparr>ls_Name = name, ls_HolderID = le_HolderID r, ls_Token = le_Token r,
               ls_ExpiresAt = le_ExpiresAt r, ls_Valid = (le_ExpiresAt r > now), ls_Acquired = False\<rparr>)"

section \<open>The contract\<close>

text \<open>
  What \<open>pkg/lease\<close> relies on, for a store \<open>'s\<close> whose calls have an outcome \<open>'c\<close> decided by
  their environment. \<open>row s k\<close> is the stored row of lease \<open>k\<close>. A call changes at most its own
  row, and then to one held by the caller until \<open>ttl\<close> after the store's own clock; the row of
  another holder that has not expired is never changed; a reply that says acquired tells the
  stored token; a release only touches the row of exactly that holder and token, and keeps
  them.
\<close>

locale lease_store =
  fixes acq :: "'c \<Rightarrow> instant \<Rightarrow> string \<Rightarrow> string \<Rightarrow> duration \<Rightarrow> 's
      \<Rightarrow> (lease_error + LeaseState) \<times> 's"
    and rel :: "'c \<Rightarrow> string \<Rightarrow> string \<Rightarrow> nat \<Rightarrow> 's \<Rightarrow> lease_error option \<times> 's"
    and row :: "'s \<Rightarrow> string \<Rightarrow> leaseEntry option"
  assumes acq_frame: "acq c now k h ttl s = (r, s') \<Longrightarrow> k' \<noteq> k \<Longrightarrow> row s' k' = row s k'"
    and acq_change: "acq c now k h ttl s = (r, s') \<Longrightarrow> row s' k \<noteq> row s k \<Longrightarrow>
      \<exists>tok. row s' k = Some \<lparr>le_HolderID = h, le_Token = tok, le_ExpiresAt = now + ttl\<rparr>"
    and acq_acquired: "acq c now k h ttl s = (Inr ls, s') \<Longrightarrow> ls_Acquired ls \<Longrightarrow>
      row s' k = Some \<lparr>le_HolderID = h, le_Token = ls_Token ls, le_ExpiresAt = now + ttl\<rparr>"
    and acq_excluded: "acq c now k h ttl s = (r, s') \<Longrightarrow> row s k = Some e \<Longrightarrow>
      le_HolderID e \<noteq> h \<Longrightarrow> now \<le> le_ExpiresAt e \<Longrightarrow> row s' k = row s k"
    and rel_frame: "rel c k h tok s = (x, s') \<Longrightarrow> k' \<noteq> k \<Longrightarrow> row s' k' = row s k'"
    and rel_change: "rel c k h tok s = (x, s') \<Longrightarrow> row s' k \<noteq> row s k \<Longrightarrow>
      \<exists>e e'. row s k = Some e \<and> le_HolderID e = h \<and> le_Token e = tok \<and> row s' k = Some e' \<and>
        le_HolderID e' = h \<and> le_Token e' = tok"

interpretation db: lease_store db_AcquireOrRenew db_Release "\<lambda>tab. tab"
proof (unfold_locales, goal_cases)
  case (1 c now k h ttl s r s' k')
  then show ?case by (auto simp: db_AcquireOrRenew_def lease_upsert_def Let_def
        split: prod.splits if_splits query.splits option.splits sum.splits)
next
  case (2 c now k h ttl s r s')
  then show ?case by (auto simp: db_AcquireOrRenew_def lease_upsert_def Let_def
        split: prod.splits if_splits query.splits option.splits sum.splits)
next
  case (3 c now k h ttl s ls s')
  then show ?case by (auto simp: db_AcquireOrRenew_def lease_upsert_def Let_def
        split: prod.splits if_splits query.splits option.splits sum.splits)
next
  case (4 c now k h ttl s r s' e)
  then show ?case by (auto simp: db_AcquireOrRenew_def lease_upsert_def Let_def
        split: prod.splits if_splits query.splits option.splits sum.splits)
next
  case (5 c k h tok s x s' k')
  then show ?case by (auto simp: db_Release_def Let_def split: if_splits query.splits option.splits)
next
  case (6 c k h tok s x s')
  then show ?case by (auto simp: db_Release_def Let_def split: if_splits query.splits option.splits)
qed

interpretation ff: lease_store ff_AcquireOrRenew ff_Release "\<lambda>tab. tab"
proof (unfold_locales, goal_cases)
  case (1 c now k h ttl s r s' k')
  then show ?case by (auto simp: ff_AcquireOrRenew_def Let_def split: if_splits option.splits)
next
  case (2 c now k h ttl s r s')
  then show ?case by (auto simp: ff_AcquireOrRenew_def Let_def split: if_splits option.splits)
next
  case (3 c now k h ttl s ls s')
  then show ?case by (auto simp: ff_AcquireOrRenew_def Let_def split: if_splits option.splits)
next
  case (4 c now k h ttl s r s' e)
  then show ?case by (auto simp: ff_AcquireOrRenew_def Let_def split: if_splits option.splits)
next
  case (5 c k h tok s x s' k')
  then show ?case by (auto simp: ff_Release_def split: if_splits option.splits)
next
  case (6 c k h tok s x s')
  then show ?case by (auto simp: ff_Release_def split: if_splits option.splits)
qed

section \<open>Fencing tokens of the PostgreSQL store\<close>

datatype lease_op =
    OpAcquire "query \<times> (lease_error + LeaseState)" instant string string duration
  | OpRelease "query \<times> (lease_error + LeaseState)" string string nat

fun lease_op_step :: "lease_table \<Rightarrow> lease_op \<Rightarrow> lease_table" where
  "lease_op_step tab (OpAcquire env now name holder ttl) =
     snd (db_AcquireOrRenew env now name holder ttl tab)"
| "lease_op_step tab (OpRelease env name holder token) = snd (db_Release env name holder token tab)"

definition token_of :: "string \<Rightarrow> lease_table \<Rightarrow> nat" where
  "token_of name tab = (case tab name of None \<Rightarrow> 0 | Some r \<Rightarrow> le_Token r)"

text \<open>Every stored token is positive, so \<open>token_of\<close> tells a row from no row.\<close>

definition tokens_positive :: "lease_table \<Rightarrow> bool" where
  "tokens_positive tab \<longleftrightarrow> (\<forall>k r. tab k = Some r \<longrightarrow> 0 < le_Token r)"

interpretation lease_ops: op_machine lease_op_step tokens_positive "\<lambda>_. True"
proof
  fix tab op
  assume "tokens_positive tab"
  then show "tokens_positive (lease_op_step tab op)"
    by (cases op)
      (auto simp: tokens_positive_def db_AcquireOrRenew_def db_Release_def lease_upsert_def Let_def
        split: prod.splits if_splits query.splits option.splits sum.splits)
qed

lemma lease_op_step_token_mono: "token_of k tab \<le> token_of k (lease_op_step tab op)"
  by (cases op)
    (auto simp: token_of_def db_AcquireOrRenew_def db_Release_def lease_upsert_def Let_def
      split: prod.splits if_splits query.splits option.splits sum.splits)

lemma lease_op_step_token_strict:
  assumes "tokens_positive tab" and "lease_op_step tab op k = Some r'"
    and "\<And>r. tab k = Some r \<Longrightarrow> le_HolderID r \<noteq> le_HolderID r'"
  shows "token_of k tab < le_Token r'"
  using assms
  by (cases op)
    (auto simp: token_of_def tokens_positive_def db_AcquireOrRenew_def db_Release_def
      lease_upsert_def Let_def
      split: prod.splits if_splits query.splits option.splits sum.splits)

lemma lease_run_fenced:
  assumes "tokens_positive tab" and "tab k = Some r" and "foldl lease_op_step tab ops k = Some r'"
    and "le_HolderID r' \<noteq> le_HolderID r"
  shows "le_Token r < le_Token r'"
  using assms
proof (induction ops arbitrary: tab r)
  case (Cons op ops)
  let ?tab = "lease_op_step tab op"
  have mono: "token_of k ?tab \<le> token_of k (foldl lease_op_step ?tab ops)"
    by (rule lease_ops.run_mono [where f = "token_of k"])
      (use Cons.prems in \<open>auto intro: lease_op_step_token_mono lease_ops.step_inv simp: list.pred_True\<close>)
  have step: "le_Token r \<le> token_of k ?tab"
    using lease_op_step_token_mono [of k tab op] Cons.prems by (simp add: token_of_def)
  show ?case
  proof (cases "?tab k")
    case None
    with step Cons.prems show ?thesis by (fastforce simp: token_of_def tokens_positive_def)
  next
    case (Some m)
    show ?thesis
    proof (cases "le_HolderID m = le_HolderID r")
      case True
      then have "le_Token m < le_Token r'"
        using Cons.IH [of ?tab m] Cons.prems Some by (auto intro: lease_ops.step_inv)
      with step Some show ?thesis by (simp add: token_of_def)
    next
      case False
      then have "le_Token r < le_Token m"
        using lease_op_step_token_strict [of tab op k m] Cons.prems Some
        by (auto simp: token_of_def)
      with mono Some Cons.prems show ?thesis by (auto simp: token_of_def)
    qed
  qed
qed simp

text \<open>C7: fencing. Over any sequence of acquisitions, renewals and releases by any callers, with
  any failures, a lease that has passed from one holder to another carries a strictly higher
  token than the first holder had: a token never comes back.\<close>

theorem fencing_token_increases:
  assumes "foldl lease_op_step Map.empty ops1 k = Some r"
    and "foldl lease_op_step Map.empty (ops1 @ ops2) k = Some r'"
    and "le_HolderID r' \<noteq> le_HolderID r"
  shows "le_Token r < le_Token r'"
proof (rule lease_run_fenced [where tab = "foldl lease_op_step Map.empty ops1" and ops = ops2])
  have "tokens_positive Map.empty" by (simp add: tokens_positive_def)
  then show "tokens_positive (foldl lease_op_step Map.empty ops1)" by (rule lease_ops.run_inv) (simp add: list.pred_True)
  show "foldl lease_op_step (foldl lease_op_step Map.empty ops1) ops2 k = Some r'"
    using assms(2) by simp
qed (use assms in simp_all)

theorem fencing_token_increases_witness:
  "(1 :: nat) < 2 \<and>
   foldl lease_op_step Map.empty
     ([OpAcquire (QueryOK, Inl StoreFailed) 10 ''k'' ''a'' 5] @
      [OpAcquire (QueryOK, Inl StoreFailed) 20 ''k'' ''b'' 5]) ''k'' =
     Some \<lparr>le_HolderID = ''b'', le_Token = 2, le_ExpiresAt = 25\<rparr>"
proof -
  have a: "foldl lease_op_step Map.empty [OpAcquire (QueryOK, Inl StoreFailed) 10 ''k'' ''a'' 5] ''k'' =
      Some \<lparr>le_HolderID = ''a'', le_Token = 1, le_ExpiresAt = 15\<rparr>"
    by (simp add: db_AcquireOrRenew_def lease_upsert_def)
  have b: "foldl lease_op_step Map.empty
      ([OpAcquire (QueryOK, Inl StoreFailed) 10 ''k'' ''a'' 5] @
       [OpAcquire (QueryOK, Inl StoreFailed) 20 ''k'' ''b'' 5]) ''k'' =
      Some \<lparr>le_HolderID = ''b'', le_Token = 2, le_ExpiresAt = 25\<rparr>"
    by (simp add: db_AcquireOrRenew_def lease_upsert_def)
  show ?thesis using fencing_token_increases [OF a b] b by simp
qed

end
