(* ===== verification/Lease.thy ===== *)
theory Lease
  imports Lease_Store
begin

text \<open>
  The fenced lease primitive \<open>pkg/lease/lease.go\<close>: the local-authority cache of a
  \<open>Manager\<close>, its calls on a lease store, and a cluster of managers that share one store as a
  step relation whose store calls, replies and releases interleave freely. The main result is
  mutual exclusion of local authority; it rests on the contract \<open>lease_store\<close> only.
\<close>

section \<open>The manager\<close>

definition SafetyMargin :: "duration \<Rightarrow> duration \<Rightarrow> duration \<Rightarrow> lease_error + duration" where
  "SafetyMargin leaseTTL renewalInterval maxAllowedRenewalLatency =
     (let margin = wrap64 (wrap64 (leaseTTL - renewalInterval) - maxAllowedRenewalLatency)
      in if margin \<le> 0 then Inl NonPositiveMargin else Inr margin)"

record cachedAuthority =
  ca_holderID :: string
  ca_token :: nat
  ca_acquiredOrRenewedAt :: instant

record Manager =
  lm_leaseTTL :: duration
  lm_renewalInterval :: duration
  lm_maxAllowedRenewalLatency :: duration
  lm_safetyMargin :: duration
  lm_cached :: "string \<rightharpoonup> cachedAuthority"

definition NewManagerWithClock ::
    "bool \<Rightarrow> bool \<Rightarrow> duration \<Rightarrow> duration \<Rightarrow> duration \<Rightarrow> lease_error + Manager" where
  "NewManagerWithClock has_clock has_store ttl interval latency =
     (if \<not> has_clock then Inl NilClock
      else if \<not> has_store then Inl NilStore
      else case SafetyMargin ttl interval latency of
             Inl e \<Rightarrow> Inl e
           | Inr margin \<Rightarrow>
               Inr \<lparr>lm_leaseTTL = ttl, lm_renewalInterval = interval,
                 lm_maxAllowedRenewalLatency = latency, lm_safetyMargin = margin,
                 lm_cached = Map.empty\<rparr>)"

definition NewManager ::
    "bool \<Rightarrow> duration \<Rightarrow> duration \<Rightarrow> duration \<Rightarrow> lease_error + Manager" where
  "NewManager has_store ttl interval latency = NewManagerWithClock True has_store ttl interval latency"

definition recordLocalAuthority ::
    "string \<Rightarrow> string \<Rightarrow> nat \<Rightarrow> instant \<Rightarrow> Manager \<Rightarrow> Manager" where
  "recordLocalAuthority name holderID token callStart m =
     m\<lparr>lm_cached := (lm_cached m)(name \<mapsto>
       \<lparr>ca_holderID = holderID, ca_token = token, ca_acquiredOrRenewedAt = callStart\<rparr>)\<rparr>"

definition invalidateLocalAuthority :: "string \<Rightarrow> string \<Rightarrow> Manager \<Rightarrow> Manager" where
  "invalidateLocalAuthority name holderID m =
     (case lm_cached m name of
        Some c \<Rightarrow> if ca_holderID c = holderID then m\<lparr>lm_cached := (lm_cached m)(name := None)\<rparr> else m
      | None \<Rightarrow> m)"

text \<open>
  \<open>TryAcquire\<close> and \<open>Renew\<close> each read the clock, call the store, and act on its reply; the
  part after the reply is a definition of its own, because other steps run in between.
\<close>

definition TryAcquire_reply ::
    "Manager \<Rightarrow> string \<Rightarrow> string \<Rightarrow> instant \<Rightarrow> lease_error + LeaseState
     \<Rightarrow> (lease_error + nat \<times> bool) \<times> Manager" where
  "TryAcquire_reply m name holderID callStart reply =
     (case reply of
        Inl e \<Rightarrow> (Inl e, m)
      | Inr state \<Rightarrow>
          if \<not> ls_Acquired state
          then (Inr (ls_Token state, False), invalidateLocalAuthority name holderID m)
          else (Inr (ls_Token state, True),
                recordLocalAuthority name holderID (ls_Token state) callStart m))"

definition TryAcquire ::
    "(string \<Rightarrow> string \<Rightarrow> duration \<Rightarrow> 's \<Rightarrow> (lease_error + LeaseState) \<times> 's) \<Rightarrow> Manager \<Rightarrow> instant
     \<Rightarrow> string \<Rightarrow> string \<Rightarrow> duration \<Rightarrow> 's \<Rightarrow> (lease_error + nat \<times> bool) \<times> Manager \<times> 's" where
  "TryAcquire store m now name holderID ttl s =
     (if ttl \<noteq> lm_leaseTTL m then (Inl TTLMismatch, m, s)
      else let callStart = now;
               (reply, s') = store name holderID ttl s;
               (res, m') = TryAcquire_reply m name holderID callStart reply
           in (res, m', s'))"

definition Renew_reply ::
    "Manager \<Rightarrow> string \<Rightarrow> string \<Rightarrow> nat \<Rightarrow> instant \<Rightarrow> lease_error + LeaseState
     \<Rightarrow> (lease_error + nat) \<times> Manager" where
  "Renew_reply m name holderID token callStart reply =
     (case reply of
        Inl e \<Rightarrow> (Inl e, m)
      | Inr state \<Rightarrow>
          if \<not> ls_Acquired state then (Inl FencedOut, invalidateLocalAuthority name holderID m)
          else if ls_Token state \<noteq> token
               then (Inl TokenSuperseded, invalidateLocalAuthority name holderID m)
          else (Inr token, recordLocalAuthority name holderID token callStart m))"

definition Renew ::
    "(string \<Rightarrow> string \<Rightarrow> duration \<Rightarrow> 's \<Rightarrow> (lease_error + LeaseState) \<times> 's) \<Rightarrow> Manager \<Rightarrow> instant
     \<Rightarrow> string \<Rightarrow> string \<Rightarrow> nat \<Rightarrow> 's \<Rightarrow> (lease_error + nat) \<times> Manager \<times> 's" where
  "Renew store m now name holderID token s =
     (let callStart = now;
          (reply, s') = store name holderID (lm_leaseTTL m) s;
          (res, m') = Renew_reply m name holderID token callStart reply
      in (res, m', s'))"

definition Release ::
    "(string \<Rightarrow> string \<Rightarrow> nat \<Rightarrow> 's \<Rightarrow> lease_error option \<times> 's) \<Rightarrow> Manager
     \<Rightarrow> string \<Rightarrow> string \<Rightarrow> nat \<Rightarrow> 's \<Rightarrow> lease_error option \<times> Manager \<times> 's" where
  "Release store m name holderID token s =
     (let m' = invalidateLocalAuthority name holderID m;
          (e, s') = store name holderID token s
      in (e, m', s'))"

text \<open>\<open>CurrentHolder\<close>: holder, token, expiry and \<open>ok\<close>, from the store's reply to \<open>GetLease\<close>.\<close>

definition CurrentHolder ::
    "lease_error + LeaseState \<Rightarrow> lease_error + string \<times> nat \<times> instant option \<times> bool" where
  "CurrentHolder reply =
     (case reply of
        Inl e \<Rightarrow> if e = ErrLeaseNotFound then Inr ([], 0, None, False) else Inl e
      | Inr state \<Rightarrow>
          Inr (ls_HolderID state, ls_Token state, Some (ls_ExpiresAt state), ls_Valid state))"

definition HasLocalAuthority :: "Manager \<Rightarrow> instant \<Rightarrow> string \<Rightarrow> string \<Rightarrow> nat \<times> bool" where
  "HasLocalAuthority m now name holderID =
     (case lm_cached m name of
        None \<Rightarrow> (0, False)
      | Some c \<Rightarrow>
          if ca_holderID c \<noteq> holderID then (0, False)
          else if time_Sub now (ca_acquiredOrRenewedAt c) \<ge> lm_safetyMargin m then (0, False)
          else (ca_token c, True))"

definition LocalAuthorityDeadline :: "Manager \<Rightarrow> string \<Rightarrow> string \<Rightarrow> instant option" where
  "LocalAuthorityDeadline m name holderID =
     (case lm_cached m name of
        None \<Rightarrow> None
      | Some c \<Rightarrow> if ca_holderID c \<noteq> holderID then None
                  else Some (ca_acquiredOrRenewedAt c + lm_safetyMargin m))"

section \<open>A cluster of managers over one store\<close>

text \<open>
  \<open>sy_time\<close> is real time. Node \<open>n\<close>'s clock reads \<open>sy_time + nclk n\<close> and the store's
  \<open>sy_time + sclk\<close>: offsets are arbitrary, rates agree. A call goes through three steps:
  begun (\<open>callStart\<close> is read), applied by the store, and returned. The store may use any clock
  reading between the beginning of the call and its application (a transaction timestamp). A
  call may be abandoned at any moment, applied or not.
\<close>

datatype call_kind = TryCall | RenewCall nat

record lease_call =
  cl_node :: string
  cl_kind :: call_kind
  cl_name :: string
  cl_start :: instant
  cl_reply :: "(lease_error + LeaseState) option"

record 's lease_sys =
  sy_time :: instant
  sy_store :: 's
  sy_mgr :: "string \<Rightarrow> Manager"
  sy_calls :: "lease_call list"
  sy_releases :: "(string \<times> string \<times> nat) list"

definition call_return :: "lease_call \<Rightarrow> lease_error + LeaseState \<Rightarrow> Manager \<Rightarrow> Manager" where
  "call_return c reply m =
     (case cl_kind c of
        TryCall \<Rightarrow> snd (TryAcquire_reply m (cl_name c) (cl_node c) (cl_start c) reply)
      | RenewCall tok \<Rightarrow> snd (Renew_reply m (cl_name c) (cl_node c) tok (cl_start c) reply))"

text \<open>
  \<open>disc\<close> is the discipline that the calls of one node for one lease follow each other: a call
  or a release begins when no other of that node and lease is outstanding, as in
  \<open>SingletonJob\<close>, which acquires, then renews from one goroutine, and never releases.
\<close>

definition quiet :: "'s lease_sys \<Rightarrow> string \<Rightarrow> string \<Rightarrow> bool" where
  "quiet \<sigma> n k \<longleftrightarrow> list_all (\<lambda>c. \<not> (cl_node c = n \<and> cl_name c = k)) (sy_calls \<sigma>) \<and>
     list_all (\<lambda>(n', k', _). \<not> (n' = n \<and> k' = k)) (sy_releases \<sigma>)"

inductive lease_step for acq rel and nclk :: "string \<Rightarrow> int" and sclk :: int and disc :: bool where
  tick: "0 \<le> d \<Longrightarrow> lease_step acq rel nclk sclk disc \<sigma> (\<sigma>\<lparr>sy_time := sy_time \<sigma> + d\<rparr>)"
| begin_call: "(disc \<Longrightarrow> quiet \<sigma> n k) \<Longrightarrow>
    c = \<lparr>cl_node = n, cl_kind = kind, cl_name = k, cl_start = sy_time \<sigma> + nclk n, cl_reply = None\<rparr> \<Longrightarrow>
    lease_step acq rel nclk sclk disc \<sigma> (\<sigma>\<lparr>sy_calls := c # sy_calls \<sigma>\<rparr>)"
| apply_call: "sy_calls \<sigma> = xs @ c # ys \<Longrightarrow> cl_reply c = None \<Longrightarrow>
    cl_start c - nclk (cl_node c) \<le> u \<Longrightarrow> u \<le> sy_time \<sigma> \<Longrightarrow>
    acq env (u + sclk) (cl_name c) (cl_node c) (lm_leaseTTL (sy_mgr \<sigma> (cl_node c))) (sy_store \<sigma>)
      = (reply, s') \<Longrightarrow>
    lease_step acq rel nclk sclk disc \<sigma>
      (\<sigma>\<lparr>sy_store := s', sy_calls := xs @ c\<lparr>cl_reply := Some reply\<rparr> # ys\<rparr>)"
| return_call: "sy_calls \<sigma> = xs @ c # ys \<Longrightarrow> cl_reply c = Some reply \<Longrightarrow>
    lease_step acq rel nclk sclk disc \<sigma>
      (\<sigma>\<lparr>sy_mgr := (sy_mgr \<sigma>)(cl_node c := call_return c reply (sy_mgr \<sigma> (cl_node c))),
         sy_calls := xs @ ys\<rparr>)"
| abandon_call: "sy_calls \<sigma> = xs @ c # ys \<Longrightarrow>
    lease_step acq rel nclk sclk disc \<sigma> (\<sigma>\<lparr>sy_calls := xs @ ys\<rparr>)"
| begin_release: "(disc \<Longrightarrow> quiet \<sigma> n k) \<Longrightarrow>
    lease_step acq rel nclk sclk disc \<sigma>
      (\<sigma>\<lparr>sy_mgr := (sy_mgr \<sigma>)(n := invalidateLocalAuthority k n (sy_mgr \<sigma> n)),
         sy_releases := (n, k, tok) # sy_releases \<sigma>\<rparr>)"
| apply_release: "sy_releases \<sigma> = xs @ (n, k, tok) # ys \<Longrightarrow>
    rel env k n tok (sy_store \<sigma>) = (e, s') \<Longrightarrow>
    lease_step acq rel nclk sclk disc \<sigma> (\<sigma>\<lparr>sy_store := s', sy_releases := xs @ ys\<rparr>)"

definition lease_init :: "Manager \<Rightarrow> 's \<Rightarrow> instant \<Rightarrow> 's lease_sys" where
  "lease_init m s now = \<lparr>sy_time = now, sy_store = s, sy_mgr = (\<lambda>_. m), sy_calls = [], sy_releases = []\<rparr>"

lemma lease_step_to:
  "lease_step acq rel nclk sclk disc \<sigma> \<sigma>1 \<Longrightarrow> \<sigma>1 = \<sigma>2 \<Longrightarrow> lease_step acq rel nclk sclk disc \<sigma> \<sigma>2"
  by simp

section \<open>Facts about the manager\<close>

lemma SafetyMargin_range: "SafetyMargin ttl ri lat = Inr margin \<Longrightarrow> 0 < margin \<and> duration_range margin"
  by (auto simp: SafetyMargin_def Let_def wrap64_range [simplified] split: if_splits)

lemma SafetyMargin_bound:
  assumes "SafetyMargin ttl ri lat = Inr margin" and "0 \<le> ttl" "0 \<le> ri" "0 \<le> lat"
    and "ttl \<le> max_duration" "ri + lat \<le> max_duration"
  shows "margin = ttl - ri - lat"
proof -
  have "wrap64 (ttl - ri) = ttl - ri" "wrap64 (ttl - ri - lat) = ttl - ri - lat"
    using assms by (auto intro!: wrap64_id simp: max_duration_def min_duration_def)
  then show ?thesis using assms(1) by (auto simp: SafetyMargin_def Let_def split: if_splits)
qed

lemma cached_record [simp]:
  "lm_cached (recordLocalAuthority k h tok t m) =
     (lm_cached m)(k \<mapsto> \<lparr>ca_holderID = h, ca_token = tok, ca_acquiredOrRenewedAt = t\<rparr>)"
  by (simp add: recordLocalAuthority_def)

lemma cached_invalidate:
  "lm_cached (invalidateLocalAuthority k h m) k' = Some c \<Longrightarrow>
     lm_cached m k' = Some c \<and> (k' = k \<longrightarrow> ca_holderID c \<noteq> h)"
  by (auto simp: invalidateLocalAuthority_def split: option.splits if_splits)

lemma config_kept [simp]:
  "lm_leaseTTL (invalidateLocalAuthority k h m) = lm_leaseTTL m"
  "lm_safetyMargin (invalidateLocalAuthority k h m) = lm_safetyMargin m"
  "lm_leaseTTL (call_return c reply m) = lm_leaseTTL m"
  "lm_safetyMargin (call_return c reply m) = lm_safetyMargin m"
  by (auto simp: invalidateLocalAuthority_def recordLocalAuthority_def call_return_def
      TryAcquire_reply_def Renew_reply_def split: option.splits call_kind.splits sum.splits)

lemma cached_call_return:
  assumes "lm_cached (call_return c reply m) k = Some ca"
  shows "lm_cached m k = Some ca \<or>
    (k = cl_name c \<and> ca_holderID ca = cl_node c \<and> ca_acquiredOrRenewedAt ca = cl_start c \<and>
     (\<exists>ls. reply = Inr ls \<and> ls_Acquired ls))"
  using assms
  by (auto simp: call_return_def TryAcquire_reply_def Renew_reply_def
      split: call_kind.splits sum.splits if_splits dest: cached_invalidate)

lemma HasLocalAuthority_iff:
  assumes "duration_range (lm_safetyMargin m)"
  shows "snd (HasLocalAuthority m now name h) \<longleftrightarrow>
    (\<exists>c. lm_cached m name = Some c \<and> ca_holderID c = h \<and>
       now - ca_acquiredOrRenewedAt c < lm_safetyMargin m \<and> min_duration < lm_safetyMargin m)"
  using time_Sub_less_iff [OF assms]
  by (auto simp: HasLocalAuthority_def not_less [symmetric] split: option.splits)

section \<open>The invariant\<close>

text \<open>
  A call of node \<open>n\<close> for lease \<open>k\<close> begun at \<open>start\<close> is guarded when the store still has
  the row it granted or extended, or so much time has passed that its window is over.
\<close>

definition lease_guarded where
  "lease_guarded row nclk sclk ttl \<sigma> n k start \<longleftrightarrow>
     (\<exists>e. row (sy_store \<sigma>) k = Some e \<and> le_HolderID e = n \<and>
        start - nclk n + ttl \<le> le_ExpiresAt e - sclk) \<or>
     start - nclk n + ttl < sy_time \<sigma>"

text \<open>The invariant: the configuration is fixed; cached entries and acquired replies are guarded;
  outstanding calls are unique per node and lease and began no earlier than the entry they may
  replace; a pending release excludes both.\<close>

definition inv_config where
  "inv_config ttl margin \<sigma> \<longleftrightarrow>
     (\<forall>n. lm_leaseTTL (sy_mgr \<sigma> n) = ttl \<and> lm_safetyMargin (sy_mgr \<sigma> n) = margin)"

definition inv_cached where
  "inv_cached row nclk sclk ttl \<sigma> \<longleftrightarrow>
     (\<forall>n k c. lm_cached (sy_mgr \<sigma> n) k = Some c \<longrightarrow>
        ca_holderID c = n \<and> ca_acquiredOrRenewedAt c - nclk n \<le> sy_time \<sigma> \<and>
        lease_guarded row nclk sclk ttl \<sigma> n k (ca_acquiredOrRenewedAt c))"

definition inv_calls where
  "inv_calls row nclk sclk ttl \<sigma> \<longleftrightarrow>
     distinct (map (\<lambda>c. (cl_node c, cl_name c)) (sy_calls \<sigma>)) \<and>
     (\<forall>c\<in>set (sy_calls \<sigma>). cl_start c - nclk (cl_node c) \<le> sy_time \<sigma> \<and>
        (\<forall>ca. lm_cached (sy_mgr \<sigma> (cl_node c)) (cl_name c) = Some ca \<longrightarrow>
           ca_acquiredOrRenewedAt ca \<le> cl_start c) \<and>
        (\<forall>ls. cl_reply c = Some (Inr ls) \<longrightarrow> ls_Acquired ls \<longrightarrow>
           lease_guarded row nclk sclk ttl \<sigma> (cl_node c) (cl_name c) (cl_start c)))"

definition inv_releases where
  "inv_releases \<sigma> \<longleftrightarrow>
     (\<forall>(n, k, tok)\<in>set (sy_releases \<sigma>). lm_cached (sy_mgr \<sigma> n) k = None \<and>
        (\<forall>c\<in>set (sy_calls \<sigma>). \<not> (cl_node c = n \<and> cl_name c = k)))"

definition lease_inv where
  "lease_inv row nclk sclk ttl margin \<sigma> \<longleftrightarrow> inv_config ttl margin \<sigma> \<and>
     inv_cached row nclk sclk ttl \<sigma> \<and> inv_calls row nclk sclk ttl \<sigma> \<and> inv_releases \<sigma>"

lemmas lease_inv_defs = lease_inv_def inv_config_def inv_cached_def inv_calls_def inv_releases_def

lemma lease_guarded_cong:
  "sy_store \<sigma>' = sy_store \<sigma> \<Longrightarrow> sy_time \<sigma> \<le> sy_time \<sigma>' \<Longrightarrow>
   lease_guarded row nclk sclk ttl \<sigma> n k start \<Longrightarrow> lease_guarded row nclk sclk ttl \<sigma>' n k start"
  by (auto simp: lease_guarded_def)

text \<open>A step that leaves the store alone and caches nothing new.\<close>

lemma inv_cached_sub:
  assumes "inv_cached row nclk sclk ttl \<sigma>" "sy_store \<sigma>' = sy_store \<sigma>" "sy_time \<sigma> \<le> sy_time \<sigma>'"
    and "\<And>n k c. lm_cached (sy_mgr \<sigma>' n) k = Some c \<Longrightarrow> lm_cached (sy_mgr \<sigma> n) k = Some c"
  shows "inv_cached row nclk sclk ttl \<sigma>'"
  unfolding inv_cached_def
proof (intro allI impI)
  fix n k c
  assume "lm_cached (sy_mgr \<sigma>' n) k = Some c"
  from assms(4) [OF this] assms(1) have "ca_holderID c = n"
    "ca_acquiredOrRenewedAt c - nclk n \<le> sy_time \<sigma>"
    "lease_guarded row nclk sclk ttl \<sigma> n k (ca_acquiredOrRenewedAt c)"
    by (auto simp: inv_cached_def)
  then show "ca_holderID c = n \<and> ca_acquiredOrRenewedAt c - nclk n \<le> sy_time \<sigma>' \<and>
      lease_guarded row nclk sclk ttl \<sigma>' n k (ca_acquiredOrRenewedAt c)"
    using lease_guarded_cong [OF assms(2,3)] assms(3) by auto
qed

lemma inv_calls_sub:
  assumes "inv_calls row nclk sclk ttl \<sigma>" "sy_store \<sigma>' = sy_store \<sigma>" "sy_time \<sigma> \<le> sy_time \<sigma>'"
    and "sy_calls \<sigma>' = sy_calls \<sigma>"
    and "\<And>n k c. lm_cached (sy_mgr \<sigma>' n) k = Some c \<Longrightarrow> lm_cached (sy_mgr \<sigma> n) k = Some c"
  shows "inv_calls row nclk sclk ttl \<sigma>'"
  unfolding inv_calls_def
proof (intro conjI ballI allI impI)
  fix c ca
  assume c: "c \<in> set (sy_calls \<sigma>')"
  show "cl_start c - nclk (cl_node c) \<le> sy_time \<sigma>'"
    using c assms(1,3,4) by (force simp: inv_calls_def)
  assume "lm_cached (sy_mgr \<sigma>' (cl_node c)) (cl_name c) = Some ca"
  from assms(5) [OF this] show "ca_acquiredOrRenewedAt ca \<le> cl_start c"
    using c assms(1,4) by (simp add: inv_calls_def)
next
  fix c ls
  assume "c \<in> set (sy_calls \<sigma>')" "cl_reply c = Some (Inr ls)" "ls_Acquired ls"
  then have "lease_guarded row nclk sclk ttl \<sigma> (cl_node c) (cl_name c) (cl_start c)"
    using assms(1,4) by (simp add: inv_calls_def)
  then show "lease_guarded row nclk sclk ttl \<sigma>' (cl_node c) (cl_name c) (cl_start c)"
    by (rule lease_guarded_cong [OF assms(2,3)])
qed (use assms(1,4) in \<open>simp add: inv_calls_def\<close>)

lemma inv_calls_unique:
  assumes "inv_calls row nclk sclk ttl \<sigma>" "sy_calls \<sigma> = xs @ c # ys" "c' \<in> set (xs @ ys)"
  shows "\<not> (cl_node c' = cl_node c \<and> cl_name c' = cl_name c)"
proof -
  have "distinct (map (\<lambda>c. (cl_node c, cl_name c)) (sy_calls \<sigma>))"
    using assms(1) unfolding inv_calls_def by blast
  then have "(cl_node c, cl_name c) \<notin> (\<lambda>c. (cl_node c, cl_name c)) ` set (xs @ ys)"
    unfolding assms(2) by auto
  then show ?thesis using assms(3) by (metis (no_types, lifting) imageI)
qed

lemma inv_releases_sub:
  assumes "inv_releases \<sigma>" "set (sy_releases \<sigma>') \<subseteq> set (sy_releases \<sigma>)"
    and "\<And>n k. lm_cached (sy_mgr \<sigma> n) k = None \<Longrightarrow>
      \<forall>c\<in>set (sy_calls \<sigma>). \<not> (cl_node c = n \<and> cl_name c = k) \<Longrightarrow>
      lm_cached (sy_mgr \<sigma>' n) k = None"
    and "\<And>c. c \<in> set (sy_calls \<sigma>') \<Longrightarrow>
      \<exists>c'\<in>set (sy_calls \<sigma>). cl_node c' = cl_node c \<and> cl_name c' = cl_name c"
  shows "inv_releases \<sigma>'"
  unfolding inv_releases_def
proof (clarify, intro conjI ballI notI)
  fix n k tok
  assume "(n, k, tok) \<in> set (sy_releases \<sigma>')"
  with assms(2) have "(n, k, tok) \<in> set (sy_releases \<sigma>)" by auto
  from bspec [OF assms(1) [unfolded inv_releases_def] this]
  have r: "lm_cached (sy_mgr \<sigma> n) k = None"
    "\<forall>c\<in>set (sy_calls \<sigma>). \<not> (cl_node c = n \<and> cl_name c = k)" by auto
  then show "lm_cached (sy_mgr \<sigma>' n) k = None" by (rule assms(3))
  fix c
  assume "c \<in> set (sy_calls \<sigma>')" "cl_node c = n \<and> cl_name c = k"
  with assms(4) [of c] r(2) show False by auto
qed

lemma lease_inv_tick:
  assumes "lease_inv row nclk sclk ttl margin \<sigma>" "0 \<le> d"
  shows "lease_inv row nclk sclk ttl margin (\<sigma>\<lparr>sy_time := sy_time \<sigma> + d\<rparr>)"
proof -
  have g: "lease_guarded row nclk sclk ttl (\<sigma>\<lparr>sy_time := sy_time \<sigma> + d\<rparr>) n k t"
    if "lease_guarded row nclk sclk ttl \<sigma> n k t" for n k t
    by (rule lease_guarded_cong [OF _ _ that]) (use assms(2) in auto)
  show ?thesis using assms g by (fastforce simp: lease_inv_defs)
qed

lemma lease_inv_begin_call:
  assumes "lease_inv row nclk sclk ttl margin \<sigma>" "quiet \<sigma> n k"
    and c: "c = \<lparr>cl_node = n, cl_kind = kind, cl_name = k, cl_start = sy_time \<sigma> + nclk n, cl_reply = None\<rparr>"
  shows "lease_inv row nclk sclk ttl margin (\<sigma>\<lparr>sy_calls := c # sy_calls \<sigma>\<rparr>)"
proof -
  have g: "lease_guarded row nclk sclk ttl (\<sigma>\<lparr>sy_calls := cs\<rparr>) n k t
      = lease_guarded row nclk sclk ttl \<sigma> n k t" for n k t cs
    by (simp add: lease_guarded_def)
  have start: "ca_acquiredOrRenewedAt ca \<le> sy_time \<sigma> + nclk n"
    if "lm_cached (sy_mgr \<sigma> n) k = Some ca" for ca
  proof -
    have "ca_acquiredOrRenewedAt ca - nclk n \<le> sy_time \<sigma>"
      using assms(1) that by (auto simp: lease_inv_def inv_cached_def)
    then show ?thesis by linarith
  qed
  show ?thesis using assms start
    by (auto simp: lease_inv_defs g quiet_def list_all_iff)
qed

lemma lease_inv_abandon:
  assumes "lease_inv row nclk sclk ttl margin \<sigma>" "sy_calls \<sigma> = xs @ c # ys"
  shows "lease_inv row nclk sclk ttl margin (\<sigma>\<lparr>sy_calls := xs @ ys\<rparr>)"
proof -
  have g: "lease_guarded row nclk sclk ttl (\<sigma>\<lparr>sy_calls := cs\<rparr>) n k t
      = lease_guarded row nclk sclk ttl \<sigma> n k t" for n k t cs
    by (simp add: lease_guarded_def)
  show ?thesis using assms by (auto simp: lease_inv_defs g)
qed

lemma lease_inv_begin_release:
  assumes inv: "lease_inv row nclk sclk ttl margin \<sigma>" and q: "quiet \<sigma> n k"
    and \<sigma>': "sy_store \<sigma>' = sy_store \<sigma>" "sy_time \<sigma>' = sy_time \<sigma>" "sy_calls \<sigma>' = sy_calls \<sigma>"
      "sy_mgr \<sigma>' = (sy_mgr \<sigma>)(n := invalidateLocalAuthority k n (sy_mgr \<sigma> n))"
      "sy_releases \<sigma>' = (n, k, tok) # sy_releases \<sigma>"
  shows "lease_inv row nclk sclk ttl margin \<sigma>'"
proof -
  have parts: "inv_config ttl margin \<sigma>" "inv_cached row nclk sclk ttl \<sigma>"
    "inv_calls row nclk sclk ttl \<sigma>" "inv_releases \<sigma>" using inv unfolding lease_inv_def by blast+
  have sub: "lm_cached (sy_mgr \<sigma>' n') k' = Some c \<Longrightarrow> lm_cached (sy_mgr \<sigma> n') k' = Some c" for n' k' c
    by (auto simp: \<sigma>' split: if_splits dest: cached_invalidate)
  have keep: "lm_cached (sy_mgr \<sigma> n') k' = None \<Longrightarrow> lm_cached (sy_mgr \<sigma>' n') k' = None" for n' k'
    using sub [of n' k'] by (metis not_Some_eq)
  have none: "lm_cached (sy_mgr \<sigma>' n) k = None"
  proof (rule ccontr)
    assume "lm_cached (sy_mgr \<sigma>' n) k \<noteq> None"
    then obtain c where c: "lm_cached (invalidateLocalAuthority k n (sy_mgr \<sigma> n)) k = Some c"
      by (auto simp: \<sigma>')
    with parts(2) show False using cached_invalidate [OF c] by (auto simp: inv_cached_def)
  qed
  have "inv_config ttl margin \<sigma>'" using parts(1) by (simp add: inv_config_def \<sigma>')
  moreover have "inv_cached row nclk sclk ttl \<sigma>'"
    by (rule inv_cached_sub [OF parts(2) _ _ sub]) (simp_all add: \<sigma>')
  moreover have "inv_calls row nclk sclk ttl \<sigma>'"
    by (rule inv_calls_sub [OF parts(3) _ _ _ sub]) (simp_all add: \<sigma>')
  moreover have "inv_releases \<sigma>'"
  proof -
    have "inv_releases (\<sigma>'\<lparr>sy_releases := sy_releases \<sigma>\<rparr>)"
      by (rule inv_releases_sub [OF parts(4)]) (use keep \<sigma>'(3) in auto)
    then show ?thesis using none q \<sigma>'(3,5) by (simp add: inv_releases_def quiet_def list_all_iff)
  qed
  ultimately show ?thesis by (simp add: lease_inv_def)
qed

lemma lease_inv_return:
  assumes inv: "lease_inv row nclk sclk ttl margin \<sigma>" and calls: "sy_calls \<sigma> = xs @ c # ys"
    and reply: "cl_reply c = Some reply"
    and \<sigma>': "sy_store \<sigma>' = sy_store \<sigma>" "sy_time \<sigma>' = sy_time \<sigma>" "sy_calls \<sigma>' = xs @ ys"
      "sy_mgr \<sigma>' = (sy_mgr \<sigma>)(cl_node c := call_return c reply (sy_mgr \<sigma> (cl_node c)))"
      "sy_releases \<sigma>' = sy_releases \<sigma>"
  shows "lease_inv row nclk sclk ttl margin \<sigma>'"
proof -
  have parts: "inv_config ttl margin \<sigma>" "inv_cached row nclk sclk ttl \<sigma>"
    "inv_calls row nclk sclk ttl \<sigma>" "inv_releases \<sigma>" using inv unfolding lease_inv_def by blast+
  have g: "lease_guarded row nclk sclk ttl \<sigma>' n' k' t = lease_guarded row nclk sclk ttl \<sigma> n' k' t"
    for n' k' t by (simp add: lease_guarded_def \<sigma>')
  have new: "lm_cached (sy_mgr \<sigma> n) k = Some ca \<or>
      (n = cl_node c \<and> k = cl_name c \<and> ca_holderID ca = n \<and> ca_acquiredOrRenewedAt ca = cl_start c \<and>
       (\<exists>ls. reply = Inr ls \<and> ls_Acquired ls))"
    if "lm_cached (sy_mgr \<sigma>' n) k = Some ca" for n k ca
    using that cached_call_return [of c reply "sy_mgr \<sigma> (cl_node c)" k ca]
    by (auto simp: \<sigma>' split: if_splits)
  have uniq: "\<not> (cl_node c' = cl_node c \<and> cl_name c' = cl_name c)" if "c' \<in> set (xs @ ys)" for c'
    by (rule inv_calls_unique [OF parts(3) calls that])
  have cg: "cl_start c - nclk (cl_node c) \<le> sy_time \<sigma>"
    "reply = Inr ls \<Longrightarrow> ls_Acquired ls \<Longrightarrow>
       lease_guarded row nclk sclk ttl \<sigma> (cl_node c) (cl_name c) (cl_start c)" for ls
    using parts(3) reply unfolding inv_calls_def calls by auto
  have "inv_config ttl margin \<sigma>'" using parts(1) by (simp add: inv_config_def \<sigma>')
  moreover have "inv_cached row nclk sclk ttl \<sigma>'"
    unfolding inv_cached_def g \<sigma>'(2)
  proof (intro allI impI)
    fix n k ca
    assume "lm_cached (sy_mgr \<sigma>' n) k = Some ca"
    from new [OF this] show "ca_holderID ca = n \<and> ca_acquiredOrRenewedAt ca - nclk n \<le> sy_time \<sigma> \<and>
        lease_guarded row nclk sclk ttl \<sigma> n k (ca_acquiredOrRenewedAt ca)"
      using parts(2) cg by (auto simp: inv_cached_def)
  qed
  moreover have "inv_calls row nclk sclk ttl \<sigma>'"
    unfolding inv_calls_def g \<sigma>'(2,3)
  proof (intro conjI ballI allI impI)
    show "distinct (map (\<lambda>c. (cl_node c, cl_name c)) (xs @ ys))"
      using parts(3) by (auto simp: inv_calls_def calls)
  next
    fix c' ca
    assume c': "c' \<in> set (xs @ ys)" "lm_cached (sy_mgr \<sigma>' (cl_node c')) (cl_name c') = Some ca"
    then have "lm_cached (sy_mgr \<sigma> (cl_node c')) (cl_name c') = Some ca"
      using new [OF c'(2)] uniq [of c'] by auto
    then show "ca_acquiredOrRenewedAt ca \<le> cl_start c'"
      using parts(3) c'(1) by (auto simp: inv_calls_def calls)
  qed (use parts(3) in \<open>auto simp: inv_calls_def calls\<close>)
  moreover have "inv_releases \<sigma>'"
  proof (rule inv_releases_sub [OF parts(4)])
    fix n k
    assume "lm_cached (sy_mgr \<sigma> n) k = None"
      "\<forall>c\<in>set (sy_calls \<sigma>). \<not> (cl_node c = n \<and> cl_name c = k)"
    then show "lm_cached (sy_mgr \<sigma>' n) k = None"
      using new [of n k] unfolding calls by (cases "lm_cached (sy_mgr \<sigma>' n) k") auto
  qed (auto simp: \<sigma>' calls)
  ultimately show ?thesis by (simp add: lease_inv_def)
qed

section \<open>Mutual exclusion over any store that keeps the contract\<close>

context lease_store
begin

lemma lease_guarded_acq:
  assumes "lease_guarded row nclk sclk ttl \<sigma> n k start"
    and acq: "acq env (u + sclk) k' n' ttl (sy_store \<sigma>) = (reply, s')"
    and "u \<le> sy_time \<sigma>" and "n' = n \<Longrightarrow> k' = k \<Longrightarrow> start - nclk n \<le> u"
    and \<sigma>': "sy_store \<sigma>' = s'" "sy_time \<sigma>' = sy_time \<sigma>"
  shows "lease_guarded row nclk sclk ttl \<sigma>' n k start"
proof (cases "row s' k = row (sy_store \<sigma>) k \<or> start - nclk n + ttl < sy_time \<sigma>")
  case True
  then show ?thesis using assms(1) \<sigma>' by (auto simp: lease_guarded_def)
next
  case False
  then have k: "k' = k" using acq_frame [OF acq] by metis
  then obtain tok where new: "row s' k = Some \<lparr>le_HolderID = n', le_Token = tok, le_ExpiresAt = u + sclk + ttl\<rparr>"
    using acq_change [OF acq] False by auto
  from False assms(1) obtain e where e: "row (sy_store \<sigma>) k = Some e" "le_HolderID e = n"
    "start - nclk n + ttl \<le> le_ExpiresAt e - sclk" by (auto simp: lease_guarded_def)
  show ?thesis
  proof (cases "n' = n")
    case True
    then show ?thesis using new \<sigma>' assms(4) k by (auto simp: lease_guarded_def)
  next
    case other: False
    have "\<not> u + sclk \<le> le_ExpiresAt e"
      using acq_excluded [OF acq] e k other False by auto
    then show ?thesis using e(3) assms(3) \<sigma>' by (auto simp: lease_guarded_def)
  qed
qed

lemma lease_inv_apply:
  assumes inv: "lease_inv row nclk sclk ttl margin \<sigma>" and calls: "sy_calls \<sigma> = xs @ c # ys"
    and u: "cl_start c - nclk (cl_node c) \<le> u" "u \<le> sy_time \<sigma>"
    and acq: "acq env (u + sclk) (cl_name c) (cl_node c) ttl (sy_store \<sigma>) = (reply, s')"
  shows "lease_inv row nclk sclk ttl margin
    (\<sigma>\<lparr>sy_store := s', sy_calls := xs @ c\<lparr>cl_reply := Some reply\<rparr> # ys\<rparr>)"
    (is "lease_inv _ _ _ _ _ ?\<sigma>")
proof -
  have parts: "inv_config ttl margin \<sigma>" "inv_cached row nclk sclk ttl \<sigma>"
    "inv_calls row nclk sclk ttl \<sigma>" "inv_releases \<sigma>" using inv by (auto simp: lease_inv_def)
  have c: "c \<in> set (sy_calls \<sigma>)" by (simp add: calls)
  have g: "lease_guarded row nclk sclk ttl ?\<sigma> n k start"
    if "lease_guarded row nclk sclk ttl \<sigma> n k start"
      "cl_node c = n \<Longrightarrow> cl_name c = k \<Longrightarrow> start - nclk n \<le> u" for n k start
    by (rule lease_guarded_acq [OF that(1) acq u(2) that(2)]) simp_all
  have own: "lease_guarded row nclk sclk ttl ?\<sigma> (cl_node c) (cl_name c) (cl_start c)"
    if "reply = Inr ls" "ls_Acquired ls" for ls
    using acq_acquired [OF acq [unfolded that(1)] that(2)] u by (auto simp: lease_guarded_def)
  have "inv_config ttl margin ?\<sigma>" using parts(1) by (simp add: inv_config_def)
  moreover have "inv_cached row nclk sclk ttl ?\<sigma>"
    unfolding inv_cached_def
  proof (intro allI impI conjI)
    fix n k ca
    assume "lm_cached (sy_mgr ?\<sigma> n) k = Some ca"
    then have ca: "lm_cached (sy_mgr \<sigma> n) k = Some ca" by simp
    with parts(2) show "ca_holderID ca = n" "ca_acquiredOrRenewedAt ca - nclk n \<le> sy_time ?\<sigma>"
      by (auto simp: inv_cached_def)
    show "lease_guarded row nclk sclk ttl ?\<sigma> n k (ca_acquiredOrRenewedAt ca)"
    proof (rule g)
      show "lease_guarded row nclk sclk ttl \<sigma> n k (ca_acquiredOrRenewedAt ca)"
        using parts(2) ca by (simp add: inv_cached_def)
      assume "cl_node c = n" "cl_name c = k"
      then have "ca_acquiredOrRenewedAt ca \<le> cl_start c"
        using parts(3) c ca by (auto simp: inv_calls_def)
      then show "ca_acquiredOrRenewedAt ca - nclk n \<le> u" using u(1) \<open>cl_node c = n\<close> by simp
    qed
  qed
  moreover have "inv_calls row nclk sclk ttl ?\<sigma>"
    unfolding inv_calls_def
  proof (intro conjI ballI allI impI)
    fix c' ls
    assume c': "c' \<in> set (sy_calls ?\<sigma>)" "cl_reply c' = Some (Inr ls)" "ls_Acquired ls"
    show "lease_guarded row nclk sclk ttl ?\<sigma> (cl_node c') (cl_name c') (cl_start c')"
    proof (cases "c' = c\<lparr>cl_reply := Some reply\<rparr>")
      case True
      with own [of ls] c' show ?thesis by simp
    next
      case False
      then have c'': "c' \<in> set (xs @ ys)" using c' by auto
      have ne: "\<not> (cl_node c = cl_node c' \<and> cl_name c = cl_name c')"
        using inv_calls_unique [OF parts(3) calls c''] by auto
      show ?thesis
        by (rule g) (use parts(3) c'' c' ne in \<open>auto simp: inv_calls_def calls\<close>)
    qed
  qed (use parts(3) in \<open>auto simp: inv_calls_def calls\<close>)
  moreover have "inv_releases ?\<sigma>"
    by (rule inv_releases_sub [OF parts(4)]) (auto simp: calls)
  ultimately show ?thesis by (simp add: lease_inv_def)
qed

lemma lease_inv_apply_release:
  assumes inv: "lease_inv row nclk sclk ttl margin \<sigma>"
    and rels: "sy_releases \<sigma> = xs @ (n, k, tok) # ys"
    and rel: "rel env k n tok (sy_store \<sigma>) = (e, s')"
  shows "lease_inv row nclk sclk ttl margin (\<sigma>\<lparr>sy_store := s', sy_releases := xs @ ys\<rparr>)"
    (is "lease_inv _ _ _ _ _ ?\<sigma>")
proof -
  have parts: "inv_config ttl margin \<sigma>" "inv_cached row nclk sclk ttl \<sigma>"
    "inv_calls row nclk sclk ttl \<sigma>" "inv_releases \<sigma>" using inv by (auto simp: lease_inv_def)
  have out: "lm_cached (sy_mgr \<sigma> n) k = None"
    "\<forall>c\<in>set (sy_calls \<sigma>). \<not> (cl_node c = n \<and> cl_name c = k)"
    using parts(4) by (auto simp: inv_releases_def rels)
  have g: "lease_guarded row nclk sclk ttl ?\<sigma> n' k' start"
    if "lease_guarded row nclk sclk ttl \<sigma> n' k' start" "\<not> (n' = n \<and> k' = k)" for n' k' start
  proof (cases "row s' k' = row (sy_store \<sigma>) k'")
    case True
    with that show ?thesis by (auto simp: lease_guarded_def)
  next
    case False
    then have "k' = k" using rel_frame [OF rel] by metis
    with False that rel_change [OF rel] show ?thesis by (auto simp: lease_guarded_def)
  qed
  have "inv_config ttl margin ?\<sigma>" using parts(1) by (simp add: inv_config_def)
  moreover have "inv_cached row nclk sclk ttl ?\<sigma>"
    using parts(2) g out(1) by (fastforce simp: inv_cached_def)
  moreover have "inv_calls row nclk sclk ttl ?\<sigma>"
    using parts(3) g out(2) by (auto simp: inv_calls_def)
  moreover have "inv_releases ?\<sigma>"
    by (rule inv_releases_sub [OF parts(4)]) (auto simp: rels)
  ultimately show ?thesis by (simp add: lease_inv_def)
qed

lemma lease_step_inv:
  assumes "lease_step acq rel nclk sclk True \<sigma> \<sigma>'" "lease_inv row nclk sclk ttl margin \<sigma>"
  shows "lease_inv row nclk sclk ttl margin \<sigma>'"
  using assms
proof cases
  case (apply_call xs c ys u env reply s')
  moreover have "lm_leaseTTL (sy_mgr \<sigma> (cl_node c)) = ttl"
    using assms(2) by (simp add: lease_inv_def inv_config_def)
  ultimately show ?thesis using assms(2) by (auto intro: lease_inv_apply)
qed (use assms(2) in \<open>auto intro: lease_inv_tick lease_inv_begin_call lease_inv_abandon
    lease_inv_begin_release lease_inv_return lease_inv_apply_release\<close>)

lemma lease_reachable_inv:
  assumes "(lease_step acq rel nclk sclk True)\<^sup>*\<^sup>* (lease_init m s now) \<sigma>"
    and "lm_cached m = Map.empty"
  shows "lease_inv row nclk sclk (lm_leaseTTL m) (lm_safetyMargin m) \<sigma>"
  using assms(1)
proof induction
  case base
  show ?case using assms(2) by (simp add: lease_inv_defs lease_init_def)
next
  case (step \<sigma> \<sigma>')
  then show ?case by (blast intro: lease_step_inv)
qed

lemma authority_excludes:
  assumes inv: "lease_inv row nclk sclk ttl margin \<sigma>"
    and margin: "margin \<le> ttl" "duration_range margin"
    and a: "snd (HasLocalAuthority (sy_mgr \<sigma> a) (sy_time \<sigma> + nclk a) k a)"
  shows "\<exists>e. row (sy_store \<sigma>) k = Some e \<and> le_HolderID e = a \<and>
    sy_time \<sigma> + sclk < le_ExpiresAt e"
proof -
  have m: "lm_safetyMargin (sy_mgr \<sigma> a) = margin"
    using inv by (simp add: lease_inv_def inv_config_def)
  obtain c where c: "lm_cached (sy_mgr \<sigma> a) k = Some c"
    "sy_time \<sigma> + nclk a - ca_acquiredOrRenewedAt c < margin"
    using a margin(2) by (auto simp: HasLocalAuthority_iff m)
  then have "lease_guarded row nclk sclk ttl \<sigma> a k (ca_acquiredOrRenewedAt c)"
    using inv by (simp add: lease_inv_def inv_cached_def)
  then show ?thesis using c(2) margin(1) by (auto simp: lease_guarded_def)
qed

end

lemma NewManager_margin:
  assumes "NewManager True ttl ri lat = Inr m" "0 \<le> ttl" "0 \<le> ri" "0 \<le> lat"
    "ttl \<le> max_duration" "ri + lat \<le> max_duration"
  shows "lm_cached m = Map.empty \<and> lm_leaseTTL m = ttl \<and> lm_safetyMargin m = ttl - ri - lat \<and>
    0 < lm_safetyMargin m \<and> duration_range (lm_safetyMargin m)"
  using assms SafetyMargin_bound [of ttl ri lat] SafetyMargin_range [of ttl ri lat]
  by (auto simp: NewManager_def NewManagerWithClock_def split: sum.splits)

section \<open>Properties\<close>

text \<open>C1: mutual exclusion. Managers built by \<open>NewManager\<close> with non-negative durations share one
  PostgreSQL store. Whatever the interleaving of acquisitions, renewals and releases of any
  number of nodes, whatever their clock offsets, statement failures and delays, as long as each
  node's own calls for one lease follow each other: when node \<open>a\<close> has local authority over a
  lease, the stored row is \<open>a\<close>'s and has not expired on the store's clock, and no other node
  has local authority over it.\<close>

theorem lease_mutual_exclusion:
  assumes "NewManager True ttl ri lat = Inr m" and "0 \<le> ttl" "0 \<le> ri" "0 \<le> lat"
    and "ttl \<le> max_duration" "ri + lat \<le> max_duration"
    and "(lease_step db_AcquireOrRenew db_Release nclk sclk True)\<^sup>*\<^sup>* (lease_init m tab now) \<sigma>"
    and "snd (HasLocalAuthority (sy_mgr \<sigma> a) (sy_time \<sigma> + nclk a) k a)"
  shows "(\<exists>e. sy_store \<sigma> k = Some e \<and> le_HolderID e = a \<and> sy_time \<sigma> + sclk < le_ExpiresAt e) \<and>
    (snd (HasLocalAuthority (sy_mgr \<sigma> b) (sy_time \<sigma> + nclk b) k b) \<longrightarrow> b = a)"
proof -
  note m = NewManager_margin [OF assms(1-6)]
  have "lease_inv (\<lambda>tab. tab) nclk sclk ttl (lm_safetyMargin m) \<sigma>"
    using db.lease_reachable_inv [OF assms(7)] m by simp
  note ex = db.authority_excludes [OF this] 
  have "lm_safetyMargin m \<le> ttl" using m assms(3,4) by simp
  from ex [OF this, of a k] ex [OF this, of b k] m assms(8) show ?thesis by auto
qed

abbreviation demo_manager :: Manager where
  "demo_manager \<equiv> \<lparr>lm_leaseTTL = 10, lm_renewalInterval = 2, lm_maxAllowedRenewalLatency = 1,
     lm_safetyMargin = 7, lm_cached = Map.empty\<rparr>"

abbreviation demo_entry :: "string \<Rightarrow> nat \<Rightarrow> instant \<Rightarrow> leaseEntry" where
  "demo_entry h tok e \<equiv> \<lparr>le_HolderID = h, le_Token = tok, le_ExpiresAt = e\<rparr>"

abbreviation demo_reply :: "string \<Rightarrow> nat \<Rightarrow> instant \<Rightarrow> LeaseState" where
  "demo_reply h tok e \<equiv> \<lparr>ls_Name = ''k'', ls_HolderID = h, ls_Token = tok, ls_ExpiresAt = e,
     ls_Valid = True, ls_Acquired = True\<rparr>"

abbreviation demo_authority :: "string \<Rightarrow> nat \<Rightarrow> instant \<Rightarrow> Manager" where
  "demo_authority h tok t \<equiv> demo_manager\<lparr>lm_cached := [''k'' \<mapsto>
     \<lparr>ca_holderID = h, ca_token = tok, ca_acquiredOrRenewedAt = t\<rparr>]\<rparr>"

lemma demo_manager: "NewManager True 10 2 1 = Inr demo_manager"
  by (simp add: NewManager_def NewManagerWithClock_def SafetyMargin_def wrap64_def)

lemma call_return_reply [simp]: "call_return (c\<lparr>cl_reply := r\<rparr>) = call_return c"
  by (cases "cl_kind c") (simp_all add: call_return_def fun_eq_iff)

text \<open>A call that is begun, applied and answered with nothing in between, in any state.\<close>

lemma lease_run_call:
  fixes \<sigma> :: "'s lease_sys" and nclk :: "string \<Rightarrow> int" and n k :: string and kind :: call_kind and c :: lease_call
  defines "c \<equiv> \<lparr>cl_node = n, cl_kind = kind, cl_name = k, cl_start = sy_time \<sigma> + nclk n, cl_reply = None\<rparr>"
  assumes acq: "acq env (sy_time \<sigma> + sclk) k n (lm_leaseTTL (sy_mgr \<sigma> n)) (sy_store \<sigma>) = (reply, s')"
    and "quiet \<sigma> n k"
  shows "(lease_step acq rel nclk sclk disc)\<^sup>*\<^sup>* \<sigma>
    (\<sigma>\<lparr>sy_store := s', sy_mgr := (sy_mgr \<sigma>)(n := call_return c reply (sy_mgr \<sigma> n))\<rparr>)"
proof -
  let ?step = "lease_step acq rel nclk sclk disc"
  let ?c = "c\<lparr>cl_reply := Some reply\<rparr>"
  let ?s1 = "\<sigma>\<lparr>sy_calls := c # sy_calls \<sigma>\<rparr>"
  let ?s2 = "?s1\<lparr>sy_store := s', sy_calls := [] @ ?c # sy_calls \<sigma>\<rparr>"
  have 1: "?step \<sigma> ?s1"
    by (rule lease_step.begin_call) (use assms(3) in \<open>simp_all add: c_def\<close>)
  have 2: "?step ?s1 ?s2"
    by (rule lease_step.apply_call [where u = "sy_time \<sigma>" and env = env])
      (use acq in \<open>simp_all add: c_def\<close>)
  have "?step ?s2 (?s2\<lparr>sy_mgr := (sy_mgr ?s2)(cl_node ?c := call_return ?c reply (sy_mgr ?s2 (cl_node ?c))),
      sy_calls := [] @ sy_calls \<sigma>\<rparr>)"
    by (rule lease_step.return_call) simp_all
  then have 3: "?step ?s2
      (\<sigma>\<lparr>sy_store := s', sy_mgr := (sy_mgr \<sigma>)(n := call_return c reply (sy_mgr \<sigma> n))\<rparr>)"
    unfolding call_return_reply by (simp add: c_def)
  show ?thesis
    by (rule converse_rtranclp_into_rtranclp, rule 1, rule converse_rtranclp_into_rtranclp, rule 2,
        rule r_into_rtranclp, rule 3)
qed

lemma demo_acquired:
  "(lease_step db_AcquireOrRenew db_Release (\<lambda>_. 0) 0 disc)\<^sup>*\<^sup>* (lease_init demo_manager Map.empty 0)
    ((lease_init demo_manager [''k'' \<mapsto> demo_entry ''a'' 1 10] 0)
       \<lparr>sy_mgr := (\<lambda>_. demo_manager)(''a'' := demo_authority ''a'' 1 0)\<rparr>)"
proof -
  let ?\<sigma> = "lease_init demo_manager (Map.empty :: lease_table) 0"
  have "db_AcquireOrRenew (QueryOK, Inl StoreFailed) (sy_time ?\<sigma> + 0) ''k'' ''a''
      (lm_leaseTTL (sy_mgr ?\<sigma> ''a'')) (sy_store ?\<sigma>) =
      (Inr (demo_reply ''a'' 1 10), [''k'' \<mapsto> demo_entry ''a'' 1 10])"
    by (simp add: lease_init_def db_AcquireOrRenew_def lease_upsert_def)
  from lease_run_call [where \<sigma> = ?\<sigma> and acq = db_AcquireOrRenew and sclk = 0 and rel = db_Release and nclk = "\<lambda>_. 0"
      and disc = disc and kind = TryCall, OF this] show ?thesis
    by (simp add: lease_init_def quiet_def call_return_def TryAcquire_reply_def recordLocalAuthority_def)
qed

theorem lease_mutual_exclusion_witness:
  "\<exists>\<sigma> :: lease_table lease_sys.
     snd (HasLocalAuthority (sy_mgr \<sigma> ''a'') 0 ''k'' ''a'') \<and>
     (\<exists>e. sy_store \<sigma> ''k'' = Some e \<and> le_HolderID e = ''a'' \<and> 0 < le_ExpiresAt e) \<and>
     \<not> snd (HasLocalAuthority (sy_mgr \<sigma> ''b'') 0 ''k'' ''b'')"
proof -
  let ?\<sigma> = "(lease_init demo_manager [''k'' \<mapsto> demo_entry ''a'' 1 10] 0)
       \<lparr>sy_mgr := (\<lambda>_. demo_manager)(''a'' := demo_authority ''a'' 1 0)\<rparr>"
  have auth: "snd (HasLocalAuthority (sy_mgr ?\<sigma> ''a'') (sy_time ?\<sigma> + (\<lambda>_. 0) ''a'') ''k'' ''a'')"
    by (simp add: HasLocalAuthority_def lease_init_def time_Sub_def max_duration_def min_duration_def)
  from lease_mutual_exclusion [OF demo_manager _ _ _ _ _ demo_acquired auth, of "''b''"] auth
  show ?thesis
    by (intro exI [of _ ?\<sigma>]) (simp add: max_duration_def lease_init_def)
qed


text \<open>A non-positive interval is accepted, and then the cache outlives the row.\<close>

lemma NewManager_negative_interval:
  "NewManager True 10 (-5) 0 = Inr \<lparr>lm_leaseTTL = 10, lm_renewalInterval = -5,
     lm_maxAllowedRenewalLatency = 0, lm_safetyMargin = 15, lm_cached = Map.empty\<rparr>"
  by (simp add: NewManager_def NewManagerWithClock_def SafetyMargin_def wrap64_def)

lemma manager_method_runs:
  fixes \<sigma> :: "'s lease_sys"
  assumes "quiet \<sigma> n k"
  shows "TryAcquire (acq env (sy_time \<sigma> + sclk)) (sy_mgr \<sigma> n) (sy_time \<sigma> + nclk n) k n
      (lm_leaseTTL (sy_mgr \<sigma> n)) (sy_store \<sigma>) = (res1, m1, s1) \<Longrightarrow>
    (lease_step acq rel nclk sclk disc)\<^sup>*\<^sup>* \<sigma> (\<sigma>\<lparr>sy_store := s1, sy_mgr := (sy_mgr \<sigma>)(n := m1)\<rparr>)"
    and "Renew (acq env (sy_time \<sigma> + sclk)) (sy_mgr \<sigma> n) (sy_time \<sigma> + nclk n) k n tok
      (sy_store \<sigma>) = (res2, m2, s2) \<Longrightarrow>
    (lease_step acq rel nclk sclk disc)\<^sup>*\<^sup>* \<sigma> (\<sigma>\<lparr>sy_store := s2, sy_mgr := (sy_mgr \<sigma>)(n := m2)\<rparr>)"
    and "Release (rel env) (sy_mgr \<sigma> n) k n tok (sy_store \<sigma>) = (res3, m3, s3) \<Longrightarrow>
    (lease_step acq rel nclk sclk disc)\<^sup>*\<^sup>* \<sigma> (\<sigma>\<lparr>sy_store := s3, sy_mgr := (sy_mgr \<sigma>)(n := m3)\<rparr>)"
proof -
  assume "TryAcquire (acq env (sy_time \<sigma> + sclk)) (sy_mgr \<sigma> n) (sy_time \<sigma> + nclk n) k n
      (lm_leaseTTL (sy_mgr \<sigma> n)) (sy_store \<sigma>) = (res1, m1, s1)"
  then show "(lease_step acq rel nclk sclk disc)\<^sup>*\<^sup>* \<sigma> (\<sigma>\<lparr>sy_store := s1, sy_mgr := (sy_mgr \<sigma>)(n := m1)\<rparr>)"
    using lease_run_call [of acq env \<sigma> sclk k n _ _ rel nclk disc TryCall] assms
    by (auto simp: TryAcquire_def Let_def call_return_def split: prod.splits)
next
  assume "Renew (acq env (sy_time \<sigma> + sclk)) (sy_mgr \<sigma> n) (sy_time \<sigma> + nclk n) k n tok
      (sy_store \<sigma>) = (res2, m2, s2)"
  then show "(lease_step acq rel nclk sclk disc)\<^sup>*\<^sup>* \<sigma> (\<sigma>\<lparr>sy_store := s2, sy_mgr := (sy_mgr \<sigma>)(n := m2)\<rparr>)"
    using lease_run_call [of acq env \<sigma> sclk k n _ _ rel nclk disc "RenewCall tok"] assms
    by (auto simp: Renew_def Let_def call_return_def split: prod.splits)
next
  let ?step = "lease_step acq rel nclk sclk disc"
  let ?m = "(sy_mgr \<sigma>)(n := invalidateLocalAuthority k n (sy_mgr \<sigma> n))"
  assume "Release (rel env) (sy_mgr \<sigma> n) k n tok (sy_store \<sigma>) = (res3, m3, s3)"
  then have m3: "m3 = invalidateLocalAuthority k n (sy_mgr \<sigma> n)"
    and rel: "rel env k n tok (sy_store \<sigma>) = (res3, s3)"
    by (auto simp: Release_def Let_def split: prod.splits)
  let ?s1 = "\<sigma>\<lparr>sy_mgr := ?m, sy_releases := (n, k, tok) # sy_releases \<sigma>\<rparr>"
  have 1: "?step \<sigma> ?s1"
    by (rule lease_step.begin_release) (rule assms)
  have "?step ?s1 (?s1\<lparr>sy_store := s3, sy_releases := [] @ sy_releases \<sigma>\<rparr>)"
    by (rule lease_step.apply_release [where env = env]) (use rel in simp_all)
  then have 2: "?step ?s1 (\<sigma>\<lparr>sy_store := s3, sy_mgr := (sy_mgr \<sigma>)(n := m3)\<rparr>)"
    by (rule lease_step_to) (simp add: m3)
  show "?step\<^sup>*\<^sup>* \<sigma> (\<sigma>\<lparr>sy_store := s3, sy_mgr := (sy_mgr \<sigma>)(n := m3)\<rparr>)"
    by (rule converse_rtranclp_into_rtranclp, rule 1, rule r_into_rtranclp, rule 2)
qed



end
