(* ===== verification/Pending_Cmd.thy ===== *)
theory Pending_Cmd
  imports Cfgms_Prelude
begin

text \<open>
  The queue of commands received before a handler subscribes,
  \<open>pkg/controlplane/providers/internal/pendingcmd/queue.go\<close>, and the interleaving of its
  receiver, its subscribers and its \<open>Drain\<close> goroutines as a step relation.
\<close>

section \<open>The queue\<close>

text \<open>\<open>'h\<close> is the handler, None for Go's \<open>nil\<close>; \<open>'c\<close> is the command.\<close>

record ('h, 'c) Queue =
  pq_handler :: "'h option"
  pq_backlog :: "'c list"
  pq_draining :: bool
  pq_limit :: int

definition DefaultLimit :: int where "DefaultLimit = 256"

definition New :: "int \<Rightarrow> ('h, 'c) Queue" where
  "New limit = \<lparr>pq_handler = None, pq_backlog = [], pq_draining = False,
     pq_limit = (if limit \<le> 0 then DefaultLimit else limit)\<rparr>"

definition Admit :: "'c \<Rightarrow> ('h, 'c) Queue \<Rightarrow> 'h option \<times> bool \<times> ('h, 'c) Queue" where
  "Admit sc q =
     (if pq_handler q \<noteq> None \<and> \<not> pq_draining q then (pq_handler q, False, q)
      else if int (length (pq_backlog q)) \<ge> pq_limit q then (None, True, q)
      else (None, False, q\<lparr>pq_backlog := pq_backlog q @ [sc]\<rparr>))"

definition Subscribe :: "'h option \<Rightarrow> ('h, 'c) Queue \<Rightarrow> bool \<times> ('h, 'c) Queue" where
  "Subscribe h q =
     (let q1 = q\<lparr>pq_handler := h\<rparr>
      in if h = None \<or> pq_backlog q1 = [] \<or> pq_draining q1 then (False, q1)
         else (True, q1\<lparr>pq_draining := True\<rparr>))"

text \<open>The locked part of one round of \<open>Drain\<close>: the command to dispatch, or None to return.\<close>

definition drain_round :: "('h, 'c) Queue \<Rightarrow> ('h \<times> 'c) option \<times> ('h, 'c) Queue" where
  "drain_round q =
     (case (pq_backlog q, pq_handler q) of
        (sc # rest, Some h) \<Rightarrow> (Some (h, sc), q\<lparr>pq_backlog := rest\<rparr>)
      | _ \<Rightarrow> (None, q\<lparr>pq_draining := False\<rparr>))"

text \<open>\<open>Drain\<close> with nothing interleaved: the dispatches it makes, in order.\<close>

function Drain :: "('h, 'c) Queue \<Rightarrow> ('h \<times> 'c) list \<times> ('h, 'c) Queue" where
  "Drain q = (case drain_round q of
      (None, q') \<Rightarrow> ([], q')
    | (Some d, q') \<Rightarrow> (let (ds, q'') = Drain q' in (d # ds, q'')))"
  by auto
termination
  by (relation "measure (length \<circ> pq_backlog)")
    (auto simp: drain_round_def split: list.splits option.splits)

definition Reset :: "('h, 'c) Queue \<Rightarrow> ('h, 'c) Queue" where
  "Reset q = q\<lparr>pq_handler := None, pq_backlog := [], pq_draining := False\<rparr>"

section \<open>The provider around it\<close>

text \<open>
  One goroutine receives: it admits a command and, when given a handler, runs it before it
  receives the next (\<open>pv_live\<close>). Every \<open>Subscribe\<close> that reports held commands starts a
  \<open>Drain\<close>, which is between rounds or dispatching. \<open>pv_log\<close> lists the commands in the order
  their dispatch began, \<open>pv_accepted\<close> those received and not dropped.
\<close>

datatype ('h, 'c) drainer = DrainReady | DrainDispatch 'h 'c

record ('h, 'c) provider =
  pv_q :: "('h, 'c) Queue"
  pv_live :: "('h \<times> 'c) option"
  pv_drainers :: "('h, 'c) drainer list"
  pv_log :: "'c list"
  pv_accepted :: "'c list"

inductive pv_step :: "bool \<Rightarrow> ('h, 'c) provider \<Rightarrow> ('h, 'c) provider \<Rightarrow> bool" for resets where
  live: "pv_live p = None \<Longrightarrow> Admit sc (pv_q p) = (Some h, dropped, q') \<Longrightarrow>
    pv_step resets p (p\<lparr>pv_q := q', pv_live := Some (h, sc), pv_log := pv_log p @ [sc],
      pv_accepted := pv_accepted p @ [sc]\<rparr>)"
| held: "pv_live p = None \<Longrightarrow> Admit sc (pv_q p) = (None, dropped, q') \<Longrightarrow>
    pv_step resets p (p\<lparr>pv_q := q',
      pv_accepted := (if dropped then pv_accepted p else pv_accepted p @ [sc])\<rparr>)"
| live_done: "pv_step resets p (p\<lparr>pv_live := None\<rparr>)"
| subscribe: "Subscribe h (pv_q p) = (must, q') \<Longrightarrow>
    pv_step resets p (p\<lparr>pv_q := q',
      pv_drainers := (if must then DrainReady # pv_drainers p else pv_drainers p)\<rparr>)"
| drain_next: "pv_drainers p = xs @ DrainReady # ys \<Longrightarrow> drain_round (pv_q p) = (Some (h, sc), q') \<Longrightarrow>
    pv_step resets p (p\<lparr>pv_q := q', pv_drainers := xs @ DrainDispatch h sc # ys,
      pv_log := pv_log p @ [sc]\<rparr>)"
| drain_done: "pv_drainers p = xs @ DrainReady # ys \<Longrightarrow> drain_round (pv_q p) = (None, q') \<Longrightarrow>
    pv_step resets p (p\<lparr>pv_q := q', pv_drainers := xs @ ys\<rparr>)"
| dispatched: "pv_drainers p = xs @ DrainDispatch h sc # ys \<Longrightarrow>
    pv_step resets p (p\<lparr>pv_drainers := xs @ DrainReady # ys\<rparr>)"
| reset: "resets \<Longrightarrow>
    pv_step resets p (p\<lparr>pv_q := Reset (pv_q p), pv_accepted := pv_log p\<rparr>)"

definition pv_init :: "int \<Rightarrow> ('h, 'c) provider" where
  "pv_init limit = \<lparr>pv_q = New limit, pv_live = None, pv_drainers = [], pv_log = [], pv_accepted = []\<rparr>"

text \<open>How many dispatches are running.\<close>

fun is_dispatch :: "('h, 'c) drainer \<Rightarrow> bool" where
  "is_dispatch DrainReady = False"
| "is_dispatch (DrainDispatch h sc) = True"

definition running :: "('h, 'c) provider \<Rightarrow> nat" where
  "running p = (if pv_live p = None then 0 else 1) + length (filter is_dispatch (pv_drainers p))"

definition pv_inv :: "int \<Rightarrow> ('h, 'c) provider \<Rightarrow> bool" where
  "pv_inv limit p \<longleftrightarrow>
     pv_accepted p = pv_log p @ pq_backlog (pv_q p) \<and>
     length (pv_drainers p) = (if pq_draining (pv_q p) then 1 else 0) \<and>
     (pq_handler (pv_q p) \<noteq> None \<and> \<not> pq_draining (pv_q p) \<longrightarrow> pq_backlog (pv_q p) = []) \<and>
     (pv_live p \<noteq> None \<longrightarrow> pq_backlog (pv_q p) = [] \<and> \<not> pq_draining (pv_q p)) \<and>
     pq_limit (pv_q p) = limit \<and> int (length (pq_backlog (pv_q p))) \<le> limit"

section \<open>Lemmas\<close>

lemma pv_step_inv:
  assumes "pv_step False p p'" "pv_inv limit p"
  shows "pv_inv limit p'"
  using assms
proof cases
  case (live sc h dropped q')
  then show ?thesis using assms(2) by (auto simp: pv_inv_def Admit_def split: if_splits)
next
  case (held sc dropped q')
  then show ?thesis using assms(2) by (auto simp: pv_inv_def Admit_def split: if_splits)
next
  case (subscribe h must q')
  then show ?thesis using assms(2)
    by (auto simp: pv_inv_def Subscribe_def Let_def split: if_splits)
next
  case (drain_next xs ys h sc q')
  then show ?thesis using assms(2)
    by (auto simp: pv_inv_def drain_round_def split: if_splits list.splits option.splits)
next
  case (drain_done xs ys q')
  then show ?thesis using assms(2)
    by (auto simp: pv_inv_def drain_round_def split: if_splits list.splits option.splits)
next
  case (dispatched xs h sc ys)
  then show ?thesis using assms(2) by (auto simp: pv_inv_def)
qed (use assms(2) in \<open>auto simp: pv_inv_def\<close>)

lemma pv_reachable_inv:
  "(pv_step False)\<^sup>*\<^sup>* (pv_init limit) p \<Longrightarrow> pv_inv (if limit \<le> 0 then DefaultLimit else limit) p"
proof (induction rule: rtranclp_induct)
  case base
  show ?case by (simp add: pv_inv_def pv_init_def New_def DefaultLimit_def)
next
  case (step p p')
  then show ?case by (blast intro: pv_step_inv)
qed

lemma running_le_1: "pv_inv limit p \<Longrightarrow> running p \<le> 1"
  using length_filter_le [of is_dispatch "pv_drainers p"]
  by (auto simp: pv_inv_def running_def split: if_splits)



text \<open>C38: \<open>Drain\<close> returns. Run with a handler subscribed it dispatches every held command to it,
  oldest first, and leaves the queue empty and no longer draining.\<close>

theorem Drain_delivers_all:
  "pq_handler q = Some h \<Longrightarrow>
   Drain q = (map (Pair h) (pq_backlog q), q\<lparr>pq_backlog := [], pq_draining := False\<rparr>)"
proof (induction "pq_backlog q" arbitrary: q)
  case Nil
  then show ?case by (subst Drain.simps) (simp add: drain_round_def del: Drain.simps)
next
  case (Cons sc rest)
  from Cons(2) [symmetric] Cons(1) [of "q\<lparr>pq_backlog := rest\<rparr>"] Cons(3)
  show ?case by (subst Drain.simps) (simp add: drain_round_def del: Drain.simps)
qed

theorem Drain_delivers_all_witness:
  "Drain \<lparr>pq_handler = Some (9 :: nat), pq_backlog = [1, 2 :: nat], pq_draining = True, pq_limit = 4\<rparr> =
     ([(9, 1), (9, 2)], \<lparr>pq_handler = Some 9, pq_backlog = [], pq_draining = False, pq_limit = 4\<rparr>)"
  by (subst Drain_delivers_all [where h = 9]) (simp_all del: Drain.simps)

text \<open>A \<open>Reset\<close> while \<open>Drain\<close> is dispatching forgets that drain; a command held after it and a
  new \<open>Subscribe\<close> start a second one, and two dispatches run at the same time.\<close>

theorem reset_during_drain_overlaps:
  "\<exists>p. (pv_step True)\<^sup>*\<^sup>* (pv_init 4 :: (nat, nat) provider) p \<and> running p = 2"
proof -
  let ?step = "pv_step True :: (nat, nat) provider \<Rightarrow> _"
  let ?q = "\<lambda>h b d. \<lparr>pq_handler = h, pq_backlog = b, pq_draining = d, pq_limit = 4\<rparr> :: (nat, nat) Queue"
  let ?p = "\<lambda>q ds l a. \<lparr>pv_q = q, pv_live = None, pv_drainers = ds, pv_log = l, pv_accepted = a\<rparr>
    :: (nat, nat) provider"
  have to: "?step p p1 \<Longrightarrow> p1 = p2 \<Longrightarrow> ?step p p2" for p p1 p2 by simp
  let ?d = "DrainDispatch 9 1"
  have 0: "pv_init 4 = ?p (?q None [] False) [] [] []" by (simp add: pv_init_def New_def)
  have 1: "?step (?p (?q None [] False) [] [] []) (?p (?q None [1] False) [] [] [1])"
    by (rule to, rule pv_step.held [where sc = 1 and dropped = False]) (simp add: Admit_def)+
  have 2: "?step (?p (?q None [1] False) [] [] [1]) (?p (?q (Some 9) [1] True) [DrainReady] [] [1])"
    by (rule to, rule pv_step.subscribe [where h = "Some 9" and must = True]) (simp add: Subscribe_def)+
  have 3: "?step (?p (?q (Some 9) [1] True) [DrainReady] [] [1]) (?p (?q (Some 9) [] True) [?d] [1] [1])"
    by (rule to, rule pv_step.drain_next [where xs = "[]" and h = 9 and sc = 1]) (simp add: drain_round_def)+
  have 4: "?step (?p (?q (Some 9) [] True) [?d] [1] [1]) (?p (?q None [] False) [?d] [1] [1])"
    by (rule to, rule pv_step.reset) (simp add: Reset_def)+
  have 5: "?step (?p (?q None [] False) [?d] [1] [1]) (?p (?q None [2] False) [?d] [1] [1, 2])"
    by (rule to, rule pv_step.held [where sc = 2 and dropped = False]) (simp add: Admit_def)+
  have 6: "?step (?p (?q None [2] False) [?d] [1] [1, 2])
      (?p (?q (Some 9) [2] True) [DrainReady, ?d] [1] [1, 2])"
    by (rule to, rule pv_step.subscribe [where h = "Some 9" and must = True]) (simp add: Subscribe_def)+
  have 7: "?step (?p (?q (Some 9) [2] True) [DrainReady, ?d] [1] [1, 2])
      (?p (?q (Some 9) [] True) [DrainDispatch 9 2, ?d] [1, 2] [1, 2])"
    by (rule to, rule pv_step.drain_next [where xs = "[]" and h = 9 and sc = 2]) (simp add: drain_round_def)+
  note run = rtranclp.rtrancl_into_rtrancl
  have "?step\<^sup>*\<^sup>* (pv_init 4) (?p (?q (Some 9) [] True) [DrainDispatch 9 2, ?d] [1, 2] [1, 2])"
    unfolding 0
    by (rule run, rule run, rule run, rule run, rule run, rule run, rule run, rule rtranclp.rtrancl_refl,
        rule 1, rule 2, rule 3, rule 4, rule 5, rule 6, rule 7)
  then show ?thesis by (intro exI conjI, assumption) (simp add: running_def)
qed

end
