(* ===== verification/Selector.thy ===== *)
theory Selector
  imports Cfgms_Prelude
begin

text \<open>
  The steward selector language of \<open>pkg/fleet/selector/selector.go\<close>: the tenant prefix, the
  tokenizer, and the translation of terms into a \<open>fleet.Filter\<close>
  (\<open>features/controller/fleet/fleet.go\<close>). The results are that a selector is fail-closed, that
  the tokenizer reads back what a term list prints as, and where the tenant prefix ends.
\<close>

datatype selector_error =
    EmptySelector | EmptyKey | KeyWithSpace | UnterminatedQuote | EmptyValue
  | EmptyDNAKey | UnknownKey

text \<open>\<open>fleet.Filter\<close>; a Go map is a partial function, \<open>nil\<close> and empty alike.\<close>

record Filter =
  f_TenantID :: string
  f_TenantSubtree :: string
  f_TenantSubtreeIDs :: "string list"
  f_OS :: string
  f_Platform :: string
  f_Architecture :: string
  f_Tags :: "string list"
  f_DNAAttributes :: "string \<rightharpoonup> string"
  f_Status :: string
  f_Hostname :: string
  f_Name :: string
  f_DeviceID :: string
  f_IDs :: "string list"

definition empty_filter :: Filter where
  "empty_filter = \<lparr>f_TenantID = [], f_TenantSubtree = [], f_TenantSubtreeIDs = [], f_OS = [],
     f_Platform = [], f_Architecture = [], f_Tags = [], f_DNAAttributes = Map.empty, f_Status = [],
     f_Hostname = [], f_Name = [], f_DeviceID = [], f_IDs = []\<rparr>"

section \<open>The tenant prefix\<close>

definition prefix_split :: "string \<Rightarrow> nat \<Rightarrow> bool" where
  "prefix_split expr i \<longleftrightarrow> expr ! i \<in> {CHR ''/'', CHR 0x5C} \<and>
     (let left = take i expr in left \<noteq> [] \<and> \<not> ContainsAny left [CHR '':'', CHR '' '', CHR 0x09])"

definition splitAt :: "string \<Rightarrow> nat option" where
  "splitAt expr = foldl (\<lambda>at i. if prefix_split expr i then Some i else at) None [0..<length expr]"

definition extractTenantPrefix :: "string \<Rightarrow> string \<times> string" where
  "extractTenantPrefix expr =
     (case splitAt expr of
        None \<Rightarrow> ([], expr)
      | Some n \<Rightarrow> (ReplaceByte (take n expr) (CHR 0x5C) (CHR ''/''), drop (n + 1) expr))"

section \<open>The tokenizer\<close>

datatype sel_term = Term (term_key: string) (term_value: string)

definition is_hex :: "char \<Rightarrow> bool" where
  "is_hex c \<longleftrightarrow> is_digit c \<or> (CHR ''a'' \<le> c \<and> c \<le> CHR ''f'')"

text \<open>The pattern \<open>^steward-[0-9a-f]+(-[0-9a-f]+)?$\<close>.\<close>

definition stewardIDPattern :: "string \<Rightarrow> bool" where
  "stewardIDPattern tok \<longleftrightarrow> HasPrefix tok ''steward-'' \<and>
     (let parts = Split (drop 8 tok) (CHR ''-'')
      in length parts \<le> 2 \<and> list_all (\<lambda>p. p \<noteq> [] \<and> list_all is_hex p) parts)"

fun cons_term :: "sel_term \<Rightarrow> selector_error + sel_term list \<Rightarrow> selector_error + sel_term list" where
  "cons_term t (Inl e) = Inl e"
| "cons_term t (Inr ts) = Inr (t # ts)"

text \<open>The value at the front of a string, quoted or not, and what follows it.\<close>

definition scan_value :: "string \<Rightarrow> selector_error + string \<times> string" where
  "scan_value s =
     (if HasPrefix s [CHR 0x22] then
        (let body = tl s in
         case IndexByte body (CHR 0x22) of
           None \<Rightarrow> Inl UnterminatedQuote
         | Some n \<Rightarrow> Inr (take n body, drop (n + 1) body))
      else Inr (takeWhile (\<lambda>c. c \<noteq> CHR '' '') s, dropWhile (\<lambda>c. c \<noteq> CHR '' '') s))"

text \<open>\<open>tokenize\<close>: the loop over the index \<open>i\<close> is a recursion on the suffix \<open>expr[i:]\<close>.\<close>

definition bare_token :: "string \<Rightarrow> bool" where
  "bare_token rest =
     (case IndexByte rest (CHR '':'') of
        None \<Rightarrow> True
      | Some colonRel \<Rightarrow>
          (case IndexByte rest (CHR '' '') of None \<Rightarrow> False | Some spaceRel \<Rightarrow> spaceRel < colonRel))"

function tokenize :: "string \<Rightarrow> selector_error + sel_term list" where
  "tokenize expr =
     (let rest = dropWhile (\<lambda>c. c = CHR '' '') expr in
      if rest = [] then Inr []
      else if bare_token rest then
        let tok = (case IndexByte rest (CHR '' '') of None \<Rightarrow> rest | Some n \<Rightarrow> take n rest) in
        cons_term (Term (if stewardIDPattern tok then ''id'' else ''name'') tok)
          (tokenize (drop (length tok) rest))
      else
        let colonRel = the (IndexByte rest (CHR '':'')); key = take colonRel rest in
        if key = [] then Inl EmptyKey
        else if ContainsAny key [CHR '' '', CHR 0x09] then Inl KeyWithSpace
        else
          case scan_value (drop (colonRel + 1) rest) of
            Inl e \<Rightarrow> Inl e
          | Inr (val, rest') \<Rightarrow>
              if val = [] then Inl EmptyValue
              else cons_term (Term key val) (tokenize rest'))"
  by pat_completeness auto

lemma scan_value_length:
  assumes "scan_value s = Inr (v, r)"
  shows "length r \<le> length s"
proof (cases "HasPrefix s [CHR 0x22]")
  case True
  then show ?thesis using assms
    by (auto simp: scan_value_def Let_def split: option.splits)
next
  case False
  then show ?thesis using assms length_dropWhile_le by (auto simp: scan_value_def)
qed

lemma length_dropWhile_less:
  "rest = dropWhile P expr \<Longrightarrow> length rest \<le> length expr"
  by (simp add: length_dropWhile_le)

lemma rest_not_space: "dropWhile (\<lambda>c. c = CHR '' '') expr \<noteq> [] \<Longrightarrow>
    hd (dropWhile (\<lambda>c. c = CHR '' '') expr) \<noteq> CHR '' ''"
  by (rule hd_dropWhile)

lemma space_after_start:
  assumes "rest = dropWhile (\<lambda>c. c = CHR '' '') expr" "rest \<noteq> []"
    "IndexByte rest (CHR '' '') = Some n"
  shows "take n rest \<noteq> []"
proof -
  have "hd rest \<noteq> CHR '' ''" using assms(1,2) rest_not_space by blast
  then show ?thesis using IndexByte_Some [OF assms(3)] assms(2) by (cases n; cases rest) auto
qed

lemma bare_token_length:
  assumes "rest = dropWhile (\<lambda>c. c = CHR '' '') expr" "rest \<noteq> []"
    and "tok = (case IndexByte rest (CHR '' '') of None \<Rightarrow> rest | Some n \<Rightarrow> take n rest)"
  shows "tok \<noteq> []" "length (drop (length tok) rest) < length expr"
proof -
  show "tok \<noteq> []" using assms(2,3) space_after_start [OF assms(1,2)] by (auto split: option.splits)
  moreover have "length rest \<le> length expr" using assms(1) by (rule length_dropWhile_less)
  ultimately show "length (drop (length tok) rest) < length expr"
    using assms(2) by (cases tok; cases rest) auto
qed

lemma keyed_token_length:
  assumes "rest = dropWhile (\<lambda>c. c = CHR '' '') expr" "rest \<noteq> []"
    and "scan_value (drop (n + 1) rest) = Inr (val, rest')"
  shows "length rest' < length expr"
proof -
  have "length rest' \<le> length (drop (n + 1) rest)" by (rule scan_value_length [OF assms(3)])
  moreover have "length rest \<le> length expr" using assms(1) by (rule length_dropWhile_less)
  ultimately show ?thesis using assms(2) by (cases rest) auto
qed

termination tokenize
proof (relation "measure length", goal_cases)
  case (2 expr rest tok)
  then show ?case using bare_token_length(2) [OF 2(1,2,4)] by simp
next
  case (3 expr rest colonRel key p val rest')
  then show ?case using keyed_token_length [OF 3(1,2), of colonRel val rest'] by simp
qed simp

declare tokenize.simps [simp del]

section \<open>From terms to a filter\<close>

definition applyTerm :: "Filter \<Rightarrow> sel_term \<Rightarrow> selector_error + Filter" where
  "applyTerm f t =
     (let key = term_key t; val = term_value t in
      if key = ''id'' then Inr (f\<lparr>f_IDs := f_IDs f @ Split val (CHR '','')\<rparr>)
      else if key = ''name'' then Inr (f\<lparr>f_Name := val\<rparr>)
      else if key = ''os'' then Inr (f\<lparr>f_OS := val\<rparr>)
      else if key = ''platform'' then Inr (f\<lparr>f_Platform := val\<rparr>)
      else if key = ''arch'' then Inr (f\<lparr>f_Architecture := val\<rparr>)
      else if key = ''tag'' then Inr (f\<lparr>f_Tags := f_Tags f @ [val]\<rparr>)
      else if HasPrefix key ''dna.'' then
        (let attr = drop 4 key in
         if attr = [] then Inl EmptyDNAKey
         else Inr (f\<lparr>f_DNAAttributes := (f_DNAAttributes f)(attr \<mapsto> val)\<rparr>))
      else Inl UnknownKey)"

fun apply_terms :: "Filter \<Rightarrow> sel_term list \<Rightarrow> selector_error + Filter" where
  "apply_terms f [] = Inr f"
| "apply_terms f (t # ts) = (case applyTerm f t of Inl e \<Rightarrow> Inl e | Inr f' \<Rightarrow> apply_terms f' ts)"

text \<open>\<open>Parse\<close> returns a filter, the tenant path, and an error.\<close>

definition Parse :: "string \<Rightarrow> Filter \<times> string \<times> selector_error option" where
  "Parse expr0 =
     (let expr = TrimSpace expr0 in
      if expr = [] then (empty_filter, [], Some EmptySelector)
      else
        let (tenantPath, rest0) = extractTenantPrefix expr; rest = TrimSpace rest0 in
        if rest = [] then (empty_filter, tenantPath, Some EmptySelector)
        else if rest = ''all'' then (empty_filter, tenantPath, None)
        else case tokenize rest of
               Inl e \<Rightarrow> (empty_filter, tenantPath, Some e)
             | Inr terms \<Rightarrow>
                 (case apply_terms empty_filter terms of
                    Inl e \<Rightarrow> (empty_filter, tenantPath, Some e)
                  | Inr f \<Rightarrow> (f, tenantPath, None)))"

text \<open>How a term list is written: every value quoted, one space between terms.\<close>

definition print_term :: "sel_term \<Rightarrow> string" where
  "print_term t = term_key t @ [CHR '':'', CHR 0x22] @ term_value t @ [CHR 0x22]"

definition print_terms :: "sel_term list \<Rightarrow> string" where
  "print_terms ts = join (CHR '' '') (map print_term ts)"

definition printable :: "sel_term \<Rightarrow> bool" where
  "printable t \<longleftrightarrow> term_key t \<noteq> [] \<and> \<not> ContainsAny (term_key t) [CHR '':'', CHR '' '', CHR 0x09] \<and>
     term_value t \<noteq> [] \<and> CHR 0x22 \<notin> set (term_value t)"

section \<open>Lemmas\<close>

lemma tokenize_shape:
  "(dropWhile (\<lambda>c. c = CHR '' '') e = [] \<and> tokenize e = Inr []) \<or> (\<exists>x. tokenize e = Inl x) \<or>
   (\<exists>t e'. tokenize e = cons_term t (tokenize e') \<and> term_value t \<noteq> [] \<and> length e' < length e)"
proof -
  define rest where "rest = dropWhile (\<lambda>c. c = CHR '' '') e"
  define tok where "tok = (case IndexByte rest (CHR '' '') of None \<Rightarrow> rest | Some n \<Rightarrow> take n rest)"
  show ?thesis
  proof (cases "rest = []")
    case True
    then show ?thesis by (subst tokenize.simps) (simp add: rest_def)
  next
    case False
    note bare = bare_token_length [OF rest_def False tok_def]
    note keyed = keyed_token_length [OF rest_def False]
    show ?thesis
    proof (cases "bare_token rest")
      case True
      then have "tokenize e = cons_term (Term (if stewardIDPattern tok then ''id'' else ''name'') tok)
          (tokenize (drop (length tok) rest))"
        using False by (subst tokenize.simps) (simp add: rest_def [symmetric] tok_def Let_def)
      then show ?thesis using bare
        by (intro disjI2 exI conjI) (assumption, simp_all)
    next
      case plain: False
      let ?n = "the (IndexByte rest (CHR '':''))"
      have eq: "tokenize e = (if take ?n rest = [] then Inl EmptyKey
          else if ContainsAny (take ?n rest) [CHR '' '', CHR 0x09] then Inl KeyWithSpace
          else case scan_value (drop (?n + 1) rest) of Inl e \<Rightarrow> Inl e
            | Inr (val, rest') \<Rightarrow>
                if val = [] then Inl EmptyValue
                else cons_term (Term (take ?n rest) val) (tokenize rest'))"
        using False plain by (subst tokenize.simps) (simp only: rest_def [symmetric] Let_def if_False)
      show ?thesis
      proof (cases "scan_value (drop (?n + 1) rest)")
        case (Inl x)
        then show ?thesis unfolding eq by simp
      next
        case (Inr p)
        obtain val rest' where p: "p = (val, rest')" by (cases p)
        have "length rest' < length e" by (rule keyed [where n = ?n and val = val]) (use Inr p in simp)
        then show ?thesis unfolding eq Inr p
          by (auto intro!: exI [of _ "Term (take ?n rest) val"] exI [of _ rest'])
      qed
    qed
  qed
qed

lemma tokenize_ok:
  "tokenize e = Inr ts \<Longrightarrow> (\<forall>t\<in>set ts. term_value t \<noteq> []) \<and>
     (ts = [] \<longrightarrow> dropWhile (\<lambda>c. c = CHR '' '') e = [])"
proof (induction "length e" arbitrary: e ts rule: less_induct)
  case less
  from tokenize_shape [of e] show ?case
  proof (elim disjE exE conjE)
    fix t e'
    assume t: "tokenize e = cons_term t (tokenize e')" "term_value t \<noteq> []" "length e' < length e"
    then obtain ts' where "tokenize e' = Inr ts'" "ts = t # ts'"
      using less.prems by (cases "tokenize e'") auto
    with less.hyps [OF t(3)] t(2) show ?thesis by auto
  qed (use less.prems in auto)
qed

lemma empty_filter_field:
  "f_IDs f \<noteq> [] \<or> f_Name f \<noteq> [] \<or> f_OS f \<noteq> [] \<or> f_Platform f \<noteq> [] \<or> f_Architecture f \<noteq> [] \<or>
   f_Tags f \<noteq> [] \<or> f_DNAAttributes f \<noteq> Map.empty \<Longrightarrow> f \<noteq> empty_filter"
  by (auto simp: empty_filter_def)

lemma applyTerm_not_empty:
  assumes "applyTerm f t = Inr f'" "term_value t \<noteq> []"
  shows "f' \<noteq> empty_filter"
  using assms
  by (intro empty_filter_field) (auto simp: applyTerm_def Let_def split: if_splits)

lemma apply_terms_not_empty:
  "apply_terms f ts = Inr f' \<Longrightarrow> ts \<noteq> [] \<Longrightarrow> \<forall>t\<in>set ts. term_value t \<noteq> [] \<Longrightarrow> f' \<noteq> empty_filter"
proof (induction ts arbitrary: f)
  case (Cons t ts)
  from Cons.prems obtain f1 where f1: "applyTerm f t = Inr f1" "apply_terms f1 ts = Inr f'"
    by (auto split: sum.splits)
  show ?case
  proof (cases "ts = []")
    case True
    with f1 Cons.prems applyTerm_not_empty [OF f1(1)] show ?thesis by auto
  next
    case False
    with Cons f1 show ?thesis by auto
  qed
qed simp

lemma apply_terms_scope:
  "apply_terms f ts = Inr f' \<Longrightarrow>
   f_TenantID f' = f_TenantID f \<and> f_TenantSubtree f' = f_TenantSubtree f \<and>
   f_TenantSubtreeIDs f' = f_TenantSubtreeIDs f \<and> f_Status f' = f_Status f \<and>
   f_Hostname f' = f_Hostname f \<and> f_DeviceID f' = f_DeviceID f"
proof (induction ts arbitrary: f)
  case (Cons t ts)
  from Cons.prems obtain f1 where f1: "applyTerm f t = Inr f1" "apply_terms f1 ts = Inr f'"
    by (auto split: sum.splits)
  from f1(1) have "f_TenantID f1 = f_TenantID f \<and> f_TenantSubtree f1 = f_TenantSubtree f \<and>
    f_TenantSubtreeIDs f1 = f_TenantSubtreeIDs f \<and> f_Status f1 = f_Status f \<and>
    f_Hostname f1 = f_Hostname f \<and> f_DeviceID f1 = f_DeviceID f"
    by (auto simp: applyTerm_def Let_def split: if_splits)
  with Cons.IH [OF f1(2)] show ?case by simp
qed simp

text \<open>C28: fail-closed selectors. When \<open>Parse\<close> succeeds, the filter matches everything (no
  criterion is set) exactly when the expression after its tenant prefix is the keyword
  \<open>all\<close>; and no selector can set a tenant scope, a status, the host name of the query path,
  or a device id.\<close>

theorem Parse_fail_closed:
  assumes "Parse expr = (f, tenantPath, None)"
  shows "(f = empty_filter \<longleftrightarrow> TrimSpace (snd (extractTenantPrefix (TrimSpace expr))) = ''all'') \<and>
    f_TenantID f = [] \<and> f_TenantSubtree f = [] \<and> f_TenantSubtreeIDs f = [] \<and> f_Status f = [] \<and>
    f_Hostname f = [] \<and> f_DeviceID f = []"
proof -
  let ?rest = "TrimSpace (snd (extractTenantPrefix (TrimSpace expr)))"
  have scope: "f_TenantID empty_filter = [] \<and> f_TenantSubtree empty_filter = [] \<and>
    f_TenantSubtreeIDs empty_filter = [] \<and> f_Status empty_filter = [] \<and>
    f_Hostname empty_filter = [] \<and> f_DeviceID empty_filter = []" by (simp add: empty_filter_def)
  show ?thesis
  proof (cases "?rest = ''all''")
    case True
    then show ?thesis using assms scope
      by (auto simp: Parse_def Let_def split: if_splits prod.splits)
  next
    case False
    then obtain ts where ts: "tokenize ?rest = Inr ts" "apply_terms empty_filter ts = Inr f" "?rest \<noteq> []"
      using assms by (auto simp: Parse_def Let_def split: if_splits prod.splits sum.splits)
    have "ts \<noteq> []"
    proof
      assume "ts = []"
      then have "\<forall>c\<in>set ?rest. c = CHR '' ''"
        using tokenize_ok [OF ts(1)] unfolding dropWhile_eq_Nil_conv by blast
      then show False using TrimSpace_last [OF ts(3)] last_in_set [OF ts(3)] by blast
    qed
    then have "f \<noteq> empty_filter"
      using tokenize_ok [OF ts(1)] apply_terms_not_empty [OF ts(2)] by blast
    then show ?thesis using False apply_terms_scope [OF ts(2)] scope by simp
  qed
qed

theorem Parse_fail_closed_witness:
  "snd (snd (Parse ''msp/c1/name:web os:linux'')) = None \<and>
   fst (Parse ''msp/c1/name:web os:linux'') \<noteq> empty_filter"
proof -
  let ?e = "''msp/c1/name:web os:linux''"
  have err: "snd (snd (Parse ?e)) = None" by code_simp
  have "TrimSpace (snd (extractTenantPrefix (TrimSpace ?e))) \<noteq> ''all''" by code_simp
  moreover have "Parse ?e = (fst (Parse ?e), fst (snd (Parse ?e)), None)" using err by (metis prod.collapse)
  ultimately show ?thesis using Parse_fail_closed [of ?e] err by blast
qed

lemma tokenize_quoted:
  assumes "printable t"
  shows "tokenize (print_term t @ tail) = cons_term t (tokenize tail)"
proof -
  obtain k v where t: "t = Term k v" by (cases t)
  let ?s = "k @ CHR '':'' # CHR 0x22 # v @ CHR 0x22 # tail"
  have s: "print_term t @ tail = ?s" by (simp add: t print_term_def)
  have k: "k \<noteq> []" "CHR '':'' \<notin> set k" "CHR '' '' \<notin> set k" "CHR 0x09 \<notin> set k"
    and v: "v \<noteq> []" "CHR 0x22 \<notin> set v"
    using assms by (auto simp: printable_def t ContainsAny_def list_ex_iff)
  have drop: "dropWhile (\<lambda>c. c = CHR '' '') ?s = ?s"
    using k by (cases k) auto
  have colon: "IndexByte ?s (CHR '':'') = Some (length k)" by (rule IndexByte_append [OF k(2)])
  have space: "\<not> bare_token ?s"
    using IndexByte_append_notin [OF k(3), of "CHR '':'' # CHR 0x22 # v @ CHR 0x22 # tail"] colon
    by (auto simp: bare_token_def split: option.splits)
  have key: "\<not> ContainsAny k [CHR '' '', CHR 0x09]" using k by (auto simp: ContainsAny_def list_ex_iff)
  have scan: "scan_value (CHR 0x22 # v @ CHR 0x22 # tail) = Inr (v, tail)"
    using IndexByte_append [OF v(2), of tail] by (simp add: scan_value_def HasPrefix_def)
  show ?thesis
    unfolding s using k(1) v(1)
    by (subst tokenize.simps) (simp add: drop colon space scan key Let_def t)
qed

text \<open>The tokenizer reads back what it is written as. A list of terms with non-empty keys
  free of colon, space and tab, and non-empty values free of the quote, printed with quoted
  values and one space between terms, tokenizes to that list.\<close>

theorem tokenize_print_terms:
  "list_all printable ts \<Longrightarrow> tokenize (print_terms ts) = Inr ts"
proof (induction ts)
  case Nil
  show ?case by (subst tokenize.simps) (simp add: print_terms_def)
next
  case (Cons t ts)
  have skip: "tokenize (CHR '' '' # e) = tokenize e" for e
    by (subst (1 2) tokenize.simps) simp
  show ?case
  proof (cases ts)
    case Nil
    then show ?thesis using tokenize_quoted [of t "[]"] Cons by (simp add: print_terms_def)
  next
    case (Cons u us)
    then have "print_terms (t # ts) = print_term t @ CHR '' '' # print_terms ts"
      by (simp add: print_terms_def)
    with tokenize_quoted [of t] skip Cons.IH Cons.prems show ?thesis by simp
  qed
qed

theorem tokenize_print_terms_witness:
  "tokenize (print_terms [Term ''name'' ''web *'', Term ''dna.role'' ''db:1'']) =
     Inr [Term ''name'' ''web *'', Term ''dna.role'' ''db:1'']"
  by (rule tokenize_print_terms) (simp add: printable_def ContainsAny_def)

lemma splitAt_last:
  "case splitAt expr of
     None \<Rightarrow> (\<forall>i<length expr. \<not> prefix_split expr i)
   | Some n \<Rightarrow> n < length expr \<and> prefix_split expr n \<and>
       (\<forall>i. n < i \<longrightarrow> i < length expr \<longrightarrow> \<not> prefix_split expr i)"
proof -
  have "case foldl (\<lambda>at i. if prefix_split expr i then Some i else at) None [0..<m] of
     None \<Rightarrow> (\<forall>i<m. \<not> prefix_split expr i)
   | Some n \<Rightarrow> n < m \<and> prefix_split expr n \<and> (\<forall>i. n < i \<longrightarrow> i < m \<longrightarrow> \<not> prefix_split expr i)" for m
    by (induction m) (auto simp: less_Suc_eq split: option.splits)
  then show ?thesis by (simp add: splitAt_def)
qed

text \<open>The tenant prefix. Without a prefix the expression is returned whole, and no
  separator has a proper path on its left. Otherwise the expression is the path, one
  separator, and the rest; the returned path is non-empty, holds no colon, blank or
  backslash; and every later separator has a colon or a blank somewhere on its left.\<close>

theorem extractTenantPrefix_rightmost:
  "case extractTenantPrefix expr of (tp, rest) \<Rightarrow>
     (tp = [] \<and> rest = expr \<and> (\<forall>i<length expr. \<not> prefix_split expr i)) \<or>
     (\<exists>raw sep. expr = raw @ sep # rest \<and> sep \<in> {CHR ''/'', CHR 0x5C} \<and>
        tp = ReplaceByte raw (CHR 0x5C) (CHR ''/'') \<and> tp \<noteq> [] \<and>
        \<not> ContainsAny tp [CHR '':'', CHR '' '', CHR 0x09, CHR 0x5C] \<and>
        (\<forall>i. length raw < i \<longrightarrow> i < length expr \<longrightarrow> expr ! i \<in> {CHR ''/'', CHR 0x5C} \<longrightarrow>
          ContainsAny (take i expr) [CHR '':'', CHR '' '', CHR 0x09]))"
proof (cases "splitAt expr")
  case None
  then show ?thesis using splitAt_last [of expr] by (auto simp: extractTenantPrefix_def)
next
  case (Some n)
  then have n: "n < length expr" "prefix_split expr n"
    "\<forall>i. n < i \<longrightarrow> i < length expr \<longrightarrow> \<not> prefix_split expr i"
    using splitAt_last [of expr] by auto
  have "expr = take n expr @ expr ! n # drop (n + 1) expr"
    using n(1) by (simp add: id_take_nth_drop)
  moreover have "\<not> ContainsAny (ReplaceByte (take n expr) (CHR 0x5C) (CHR ''/''))
      [CHR '':'', CHR '' '', CHR 0x09, CHR 0x5C]"
    using n(2) by (auto simp: prefix_split_def Let_def ContainsAny_def ReplaceByte_def list_ex_iff)
  moreover have "ContainsAny (take i expr) [CHR '':'', CHR '' '', CHR 0x09]"
    if "length (take n expr) < i" "i < length expr" "expr ! i \<in> {CHR ''/'', CHR 0x5C}" for i
  proof -
    have "take i expr \<noteq> []" using that by auto
    then show ?thesis using n that by (auto simp: prefix_split_def Let_def)
  qed
  ultimately show ?thesis using Some n
    by (simp add: extractTenantPrefix_def, intro disjI2 exI [of _ "take n expr"] exI [of _ "expr ! n"])
      (auto simp: prefix_split_def Let_def ReplaceByte_def)
qed

theorem extractTenantPrefix_rightmost_witness:
  "extractTenantPrefix ''a/b os:x'' = (''a'', ''b os:x'') \<and>
   (\<exists>raw sep. ''a/b os:x'' = raw @ sep # ''b os:x'' \<and> sep \<in> {CHR ''/'', CHR 0x5C} \<and>
     ''a'' = ReplaceByte raw (CHR 0x5C) (CHR ''/''))"
proof -
  have e: "extractTenantPrefix ''a/b os:x'' = (''a'', ''b os:x'')" by code_simp
  show ?thesis using extractTenantPrefix_rightmost [of "''a/b os:x''"] unfolding e by auto
qed

end
