(* ===== verification/Cache.thy ===== *)
theory Cache
  imports Cfgms_Prelude
begin

text \<open>
  The general-purpose cache of \<open>pkg/cache/cache.go\<close> with its types from \<open>runtime.go\<close>: lookup,
  insertion, deletion, expiry, and the three eviction policies. Shown are the size bound and
  the bookkeeping invariants, the order of eviction, that a stored value is found again, and
  that every value leaves the cache through exactly one eviction notice.
\<close>

datatype EvictionPolicy = EvictionFIFO | EvictionLRU | EvictionLFU

text \<open>Of the configuration, what these operations read; \<open>cc_OnEvict\<close> is whether a callback is set.\<close>

record CacheConfig =
  cc_MaxRuntimeItems :: int
  cc_DefaultTTL :: duration
  cc_EvictionPolicy :: EvictionPolicy
  cc_OnEvict :: bool

record 'v CacheEntry =
  ce_Value :: 'v
  ce_ExpiresAt :: instant
  ce_CreatedAt :: instant
  ce_LastAccessed :: instant
  ce_CreatedSeq :: nat
  ce_LastAccessSeq :: nat
  ce_AccessCount :: nat

record CacheStats =
  st_Size :: nat
  st_MaxSize :: int
  st_Hits :: nat
  st_Misses :: nat
  st_Evictions :: nat
  st_ItemsExpired :: nat
  st_LastCleanup :: "instant option"

type_synonym 'v items = "(string \<times> 'v CacheEntry) list"

text \<open>
  The map of entries is an association list; \<open>accessSeq\<close> (a \<open>uint64\<close>) and the counters are
  natural numbers, since 2^64 operations are out of reach. A call reads the clock once.
\<close>

record 'v Cache =
  c_items :: "'v items"
  c_config :: CacheConfig
  c_stats :: CacheStats
  c_accessSeq :: nat

definition NewCache :: "CacheConfig \<Rightarrow> 'v Cache" where
  "NewCache config = \<lparr>c_items = [], c_config = config,
     c_stats = \<lparr>st_Size = 0, st_MaxSize = cc_MaxRuntimeItems config, st_Hits = 0, st_Misses = 0,
       st_Evictions = 0, st_ItemsExpired = 0, st_LastCleanup = None\<rparr>,
     c_accessSeq = 0\<rparr>"

definition isExpired :: "instant \<Rightarrow> 'v CacheEntry \<Rightarrow> bool" where
  "isExpired now e \<longleftrightarrow> now > ce_ExpiresAt e"

definition updateSizeStats :: "'v Cache \<Rightarrow> 'v Cache" where
  "updateSizeStats c = c\<lparr>c_stats := (c_stats c)\<lparr>st_Size := length (c_items c)\<rparr>\<rparr>"

definition count_miss :: "'v Cache \<Rightarrow> 'v Cache" where
  "count_miss c = c\<lparr>c_stats := (c_stats c)\<lparr>st_Misses := st_Misses (c_stats c) + 1\<rparr>\<rparr>"

text \<open>A hit: the access tracking of \<open>Get\<close> and \<open>GetMany\<close>.\<close>

definition touch :: "instant \<Rightarrow> string \<Rightarrow> 'v CacheEntry \<Rightarrow> 'v Cache \<Rightarrow> 'v Cache" where
  "touch now key entry c =
     (let seq = c_accessSeq c + 1;
          entry' = entry\<lparr>ce_LastAccessed := now, ce_LastAccessSeq := seq,
                     ce_AccessCount := ce_AccessCount entry + 1\<rparr>
      in c\<lparr>c_items := put key entry' (c_items c), c_accessSeq := seq,
           c_stats := (c_stats c)\<lparr>st_Hits := st_Hits (c_stats c) + 1\<rparr>\<rparr>)"

definition Get :: "instant \<Rightarrow> string \<Rightarrow> 'v Cache \<Rightarrow> 'v option \<times> 'v Cache" where
  "Get now key c =
     (case map_of (c_items c) key of
        None \<Rightarrow> (None, count_miss c)
      | Some entry \<Rightarrow>
          if isExpired now entry then (None, count_miss c)
          else (Some (ce_Value entry), touch now key entry c))"

text \<open>\<open>GetMany\<close> over the keys in order; the result map is collected in \<open>acc\<close>.\<close>

fun GetMany :: "instant \<Rightarrow> string list \<Rightarrow> (string \<times> 'v) list \<Rightarrow> 'v Cache \<Rightarrow> (string \<times> 'v) list \<times> 'v Cache" where
  "GetMany now [] acc c = (acc, c)"
| "GetMany now (key # ks) acc c =
     (case Get now key c of
        (None, c') \<Rightarrow> GetMany now ks acc c'
      | (Some v, c') \<Rightarrow> GetMany now ks (put key v acc) c')"

section \<open>Eviction\<close>

text \<open>
  The sort of the eviction routines: for each position \<open>i\<close>, the inner loop compares the element
  at \<open>i\<close> with every later one and swaps them when it is the greater. \<open>sort_inner x ys\<close> is that
  inner loop with \<open>x\<close> at position \<open>i\<close> and \<open>ys\<close> after it.
\<close>

fun sort_inner :: "string \<times> nat \<Rightarrow> (string \<times> nat) list \<Rightarrow> (string \<times> nat) \<times> (string \<times> nat) list" where
  "sort_inner x [] = (x, [])"
| "sort_inner x (y # ys) =
     (if snd x > snd y then (let (m, r) = sort_inner y ys in (m, x # r))
      else (let (m, r) = sort_inner x ys in (m, y # r)))"

lemma sort_inner_length: "length (snd (sort_inner x ys)) = length ys"
  by (induction x ys rule: sort_inner.induct) (auto simp: split_beta)

function sort_entries :: "(string \<times> nat) list \<Rightarrow> (string \<times> nat) list" where
  "sort_entries [] = []"
| "sort_entries (x # xs) = fst (sort_inner x xs) # sort_entries (snd (sort_inner x xs))"
  by pat_completeness auto
termination by (relation "measure length") (auto simp: sort_inner_length)

fun evict_loop :: "string list \<Rightarrow> 'v items \<Rightarrow> (string \<times> 'v) list \<times> 'v items" where
  "evict_loop [] items = ([], items)"
| "evict_loop (k # ks) items =
     (let (evicted, items') = evict_loop ks (del k items)
      in ((k, ce_Value (the (map_of items k))) # evicted, items'))"

text \<open>The body the three routines share: collect in map order \<open>rng\<close>, sort, remove the first.\<close>

definition evict_by ::
    "('v CacheEntry \<Rightarrow> nat) \<Rightarrow> ('v items \<Rightarrow> 'v items) \<Rightarrow> nat \<Rightarrow> 'v Cache \<Rightarrow> (string \<times> 'v) list \<times> 'v Cache" where
  "evict_by key rng cnt c =
     (let entries = map (\<lambda>(k, item). (k, key item)) (rng (c_items c));
          (evicted, items') = evict_loop (take cnt (map fst (sort_entries entries))) (c_items c)
      in (evicted, c\<lparr>c_items := items',
            c_stats := (c_stats c)\<lparr>st_Evictions := st_Evictions (c_stats c) + cnt\<rparr>\<rparr>))"

definition evictFIFO :: "('v items \<Rightarrow> 'v items) \<Rightarrow> nat \<Rightarrow> 'v Cache \<Rightarrow> (string \<times> 'v) list \<times> 'v Cache" where
  "evictFIFO = evict_by ce_CreatedSeq"

definition evictLRU :: "('v items \<Rightarrow> 'v items) \<Rightarrow> nat \<Rightarrow> 'v Cache \<Rightarrow> (string \<times> 'v) list \<times> 'v Cache" where
  "evictLRU = evict_by ce_LastAccessSeq"

definition evictLFU :: "('v items \<Rightarrow> 'v items) \<Rightarrow> nat \<Rightarrow> 'v Cache \<Rightarrow> (string \<times> 'v) list \<times> 'v Cache" where
  "evictLFU = evict_by ce_AccessCount"

definition enforceMaxSize :: "('v items \<Rightarrow> 'v items) \<Rightarrow> 'v Cache \<Rightarrow> (string \<times> 'v) list \<times> 'v Cache" where
  "enforceMaxSize rng c =
     (let maxSize = cc_MaxRuntimeItems (c_config c) in
      if maxSize \<le> 0 then ([], c)
      else if int (length (c_items c)) \<le> maxSize then ([], c)
      else let cnt = length (c_items c) - nat maxSize in
           case cc_EvictionPolicy (c_config c) of
             EvictionLRU \<Rightarrow> evictLRU rng cnt c
           | EvictionLFU \<Rightarrow> evictLFU rng cnt c
           | EvictionFIFO \<Rightarrow> evictFIFO rng cnt c)"

section \<open>Operations that change the map\<close>

text \<open>The store of one entry, shared by \<open>Set\<close> and \<open>SetMany\<close>.\<close>

definition insert_entry ::
    "instant \<Rightarrow> instant \<Rightarrow> string \<Rightarrow> 'v \<Rightarrow> 'v Cache \<Rightarrow> (string \<times> 'v) list \<times> 'v Cache" where
  "insert_entry now expiresAt key val c =
     (let seq = c_accessSeq c + 1;
          evicted = (case map_of (c_items c) key of None \<Rightarrow> [] | Some old \<Rightarrow> [(key, ce_Value old)]);
          entry = \<lparr>ce_Value = val, ce_ExpiresAt = expiresAt, ce_CreatedAt = now, ce_LastAccessed = now,
                    ce_CreatedSeq = seq, ce_LastAccessSeq = seq, ce_AccessCount = 0\<rparr>
      in (evicted, c\<lparr>c_items := put key entry (c_items c), c_accessSeq := seq\<rparr>))"

definition Set ::
    "('v items \<Rightarrow> 'v items) \<Rightarrow> instant \<Rightarrow> string \<Rightarrow> 'v \<Rightarrow> duration \<Rightarrow> 'v Cache \<Rightarrow> (string \<times> 'v) list \<times> 'v Cache" where
  "Set rng now key val ttl0 c =
     (let ttl = (if ttl0 = 0 then cc_DefaultTTL (c_config c) else ttl0);
          (evicted1, c1) = insert_entry now (now + ttl) key val c;
          (evicted2, c2) = enforceMaxSize rng c1
      in (evicted1 @ evicted2, updateSizeStats c2))"

fun insert_entries ::
    "instant \<Rightarrow> instant \<Rightarrow> (string \<times> 'v) list \<Rightarrow> 'v Cache \<Rightarrow> (string \<times> 'v) list \<times> 'v Cache" where
  "insert_entries now expiresAt [] c = ([], c)"
| "insert_entries now expiresAt ((key, val) # items) c =
     (let (evicted1, c1) = insert_entry now expiresAt key val c;
          (evicted2, c2) = insert_entries now expiresAt items c1
      in (evicted1 @ evicted2, c2))"

text \<open>\<open>SetMany\<close>; \<open>items\<close> is the argument map in the order it is ranged over.\<close>

definition SetMany ::
    "('v items \<Rightarrow> 'v items) \<Rightarrow> instant \<Rightarrow> (string \<times> 'v) list \<Rightarrow> duration \<Rightarrow> 'v Cache
     \<Rightarrow> (string \<times> 'v) list \<times> 'v Cache" where
  "SetMany rng now items ttl0 c =
     (let ttl = (if ttl0 = 0 then cc_DefaultTTL (c_config c) else ttl0);
          (evicted1, c1) = insert_entries now (now + ttl) items c;
          (evicted2, c2) = enforceMaxSize rng c1
      in (evicted1 @ evicted2, updateSizeStats c2))"

definition Delete :: "string \<Rightarrow> 'v Cache \<Rightarrow> bool \<times> (string \<times> 'v) list \<times> 'v Cache" where
  "Delete key c =
     (case map_of (c_items c) key of
        None \<Rightarrow> (False, [], c)
      | Some entry \<Rightarrow>
          (True, [(key, ce_Value entry)], updateSizeStats (c\<lparr>c_items := del key (c_items c)\<rparr>)))"

fun delete_keys :: "string list \<Rightarrow> 'v Cache \<Rightarrow> nat \<times> (string \<times> 'v) list \<times> 'v Cache" where
  "delete_keys [] c = (0, [], c)"
| "delete_keys (key # ks) c =
     (case map_of (c_items c) key of
        None \<Rightarrow> delete_keys ks c
      | Some entry \<Rightarrow>
          (let (deleted, evicted, c') = delete_keys ks (c\<lparr>c_items := del key (c_items c)\<rparr>)
           in (deleted + 1, (key, ce_Value entry) # evicted, c')))"

definition DeleteMany :: "string list \<Rightarrow> 'v Cache \<Rightarrow> nat \<times> (string \<times> 'v) list \<times> 'v Cache" where
  "DeleteMany ks c =
     (let (deleted, evicted, c') = delete_keys ks c in (deleted, evicted, updateSizeStats c'))"

definition Clear :: "('v items \<Rightarrow> 'v items) \<Rightarrow> 'v Cache \<Rightarrow> (string \<times> 'v) list \<times> 'v Cache" where
  "Clear rng c =
     ((if cc_OnEvict (c_config c) then map (\<lambda>(k, e). (k, ce_Value e)) (rng (c_items c)) else []),
      c\<lparr>c_items := [], c_stats := (c_stats c)\<lparr>st_Size := 0\<rparr>\<rparr>)"

definition cleanupExpiredItems ::
    "('v items \<Rightarrow> 'v items) \<Rightarrow> instant \<Rightarrow> 'v Cache \<Rightarrow> (string \<times> 'v) list \<times> 'v Cache" where
  "cleanupExpiredItems rng now c =
     (let dead = filter (\<lambda>(k, e). isExpired now e) (rng (c_items c));
          evicted = map (\<lambda>(k, e). (k, ce_Value e)) dead;
          items' = filter (\<lambda>(k, e). \<not> isExpired now e) (c_items c)
      in (evicted, updateSizeStats (c\<lparr>c_items := items',
            c_stats := (c_stats c)\<lparr>st_LastCleanup := Some now,
              st_ItemsExpired := st_ItemsExpired (c_stats c) + length dead\<rparr>\<rparr>)))"

definition Keys :: "('v items \<Rightarrow> 'v items) \<Rightarrow> 'v Cache \<Rightarrow> string list" where
  "Keys rng c = map fst (rng (c_items c))"

definition Size :: "'v Cache \<Rightarrow> nat" where "Size c = length (c_items c)"

definition Stats :: "'v Cache \<Rightarrow> CacheStats" where
  "Stats c = (c_stats c)\<lparr>st_Size := length (c_items c)\<rparr>"

section \<open>Sorting and evicting\<close>

definition contents :: "'v items \<Rightarrow> (string \<times> 'v) list" where
  "contents items = map (\<lambda>(k, e). (k, ce_Value e)) items"

lemma sort_inner_mset: "sort_inner x ys = (m, r) \<Longrightarrow> add_mset m (mset r) = add_mset x (mset ys)"
proof (induction ys arbitrary: x m r)
  case (Cons y ys)
  show ?case
  proof (cases "snd x > snd y")
    case True
    with Cons.prems obtain r' where "sort_inner y ys = (m, r')" "r = x # r'"
      by (auto split: prod.splits)
    with Cons.IH [of y m r'] show ?thesis by (metis add_mset_commute mset.simps(2))
  next
    case False
    with Cons.prems obtain r' where "sort_inner x ys = (m, r')" "r = y # r'"
      by (auto split: prod.splits)
    with Cons.IH [of x m r'] show ?thesis by (metis add_mset_commute mset.simps(2))
  qed
qed simp

lemma sort_inner_min: "sort_inner x ys = (m, r) \<Longrightarrow> \<forall>z\<in>set (x # ys). snd m \<le> snd z"
proof (induction ys arbitrary: x m r)
  case (Cons y ys)
  show ?case
  proof (cases "snd x > snd y")
    case True
    with Cons.prems obtain r' where "sort_inner y ys = (m, r')" by (auto split: prod.splits)
    with Cons.IH [of y m r'] True show ?thesis by auto
  next
    case False
    with Cons.prems obtain r' where "sort_inner x ys = (m, r')" by (auto split: prod.splits)
    with Cons.IH [of x m r'] False show ?thesis by auto
  qed
qed simp

lemma sort_entries_mset: "mset (sort_entries xs) = mset xs"
proof (induction xs rule: sort_entries.induct)
  case (2 x xs)
  then show ?case using sort_inner_mset [of x xs "fst (sort_inner x xs)" "snd (sort_inner x xs)"] by simp
qed simp

lemma sort_entries_sorted: "sorted (map snd (sort_entries xs))"
proof (induction xs rule: sort_entries.induct)
  case (2 x xs)
  obtain m r where mr: "sort_inner x xs = (m, r)" by (cases "sort_inner x xs")
  have "set (sort_entries r) = set r" by (rule mset_eq_setD [OF sort_entries_mset])
  moreover have "set_mset (add_mset m (mset r)) = set_mset (add_mset x (mset xs))"
    using sort_inner_mset [OF mr] by simp
  ultimately have "\<forall>z\<in>set (sort_entries r). snd m \<le> snd z" using sort_inner_min [OF mr] by auto
  with 2 mr show ?case by simp
qed simp

lemma evict_loop_correct:
  "distinct (keys items) \<Longrightarrow> distinct ks \<Longrightarrow> set ks \<subseteq> fst ` set items \<Longrightarrow>
   evict_loop ks items = (ev, items') \<Longrightarrow>
   items' = filter (\<lambda>(k, _). k \<notin> set ks) items \<and> map fst ev = ks \<and>
   mset (contents items) = mset ev + mset (contents items')"
proof (induction ks arbitrary: items ev items')
  case (Cons k ks)
  obtain e where e: "map_of items k = Some e"
    using Cons.prems(3) by (cases "map_of items k") (auto simp: map_of_eq_None_iff)
  obtain ev1 where ev1: "evict_loop ks (del k items) = (ev1, items')" "ev = (k, ce_Value e) # ev1"
    using Cons.prems(4) e by (auto split: prod.splits)
  have "set ks \<subseteq> fst ` set (del k items)" using Cons.prems(2,3) by auto
  from Cons.IH [OF _ _ this ev1(1)] Cons.prems(1,2)
  have IH: "items' = filter (\<lambda>(k, _). k \<notin> set ks) (del k items)" "map fst ev1 = ks"
    "mset (contents (del k items)) = mset ev1 + mset (contents items')" by auto
  have "items' = filter (\<lambda>(a, _). a \<notin> set (k # ks)) items"
    unfolding IH(1) del_def by (auto simp: split_beta intro: filter_cong)
  moreover have "mset (contents items) = add_mset (k, ce_Value e) (mset (contents (del k items)))"
    using mset_del [OF Cons.prems(1) e] by (simp add: contents_def)
  ultimately show ?case using IH ev1(2) by simp
qed simp

text \<open>What an eviction of \<open>count\<close> entries by \<open>key\<close> leaves and reports.\<close>

lemma evict_by_correct:
  assumes "distinct (keys (c_items c))" "map_order rng" "cnt \<le> length (c_items c)"
    and "evict_by key rng cnt c = (ev, c')"
  shows "length ev = cnt"
    and "c_items c' = filter (\<lambda>(k, _). k \<notin> set (map fst ev)) (c_items c)"
    and "mset (contents (c_items c)) = mset ev + mset (contents (c_items c'))"
    and "\<And>k e k' e'. (k, e) \<in> set (c_items c) \<Longrightarrow> k \<in> set (map fst ev) \<Longrightarrow>
      (k', e') \<in> set (c_items c') \<Longrightarrow> key e \<le> key e'"
    and "c_config c' = c_config c" and "c_accessSeq c' = c_accessSeq c"
proof -
  define es where "es = map (\<lambda>(k, item). (k, key item)) (rng (c_items c))"
  define so where "so = sort_entries es"
  define ks where "ks = take cnt (map fst so)"
  note ord = map_orderD [OF assms(2), of "c_items c"]
  have so: "mset so = image_mset (\<lambda>(k, item). (k, key item)) (mset (c_items c))"
    using ord(1) by (simp add: so_def es_def sort_entries_mset)
  have fst_so: "mset (map fst so) = mset (keys (c_items c))"
    by (simp add: so multiset.map_comp comp_def split_beta)
  then have d: "distinct (map fst so)" using assms(1) mset_eq_imp_distinct_iff by blast
  have len: "length so = length (c_items c)" using so by (metis mset_map mset_eq_length length_map)
  have set_so: "set so = (\<lambda>(k, item). (k, key item)) ` set (c_items c)"
    using so by (metis mset_map mset_eq_setD set_map)
  have ks: "length ks = cnt" "distinct ks" "set ks \<subseteq> fst ` set (c_items c)"
    using d assms(3) len mset_eq_setD [OF fst_so] set_take_subset [of cnt "map fst so"]
    by (auto simp: ks_def)
  from assms(4) obtain items' where ev: "evict_loop ks (c_items c) = (ev, items')" "c_items c' = items'"
    "c_config c' = c_config c" "c_accessSeq c' = c_accessSeq c"
    by (auto simp: evict_by_def Let_def ks_def so_def es_def split: prod.splits)
  note el = evict_loop_correct [OF assms(1) ks(2,3) ev(1)]
  have "key e \<le> key e'" if e: "(k, e) \<in> set (c_items c)" "k \<in> set ks" and e': "(k', e') \<in> set items'" for k e k' e'
  proof -
    have e'2: "(k', e') \<in> set (c_items c)" "k' \<notin> set ks" using e' el by auto
    have mem: "(k, key e) \<in> set so" "(k', key e') \<in> set so" using e(1) e'2(1) set_so by force+
    have split: "so = take cnt so @ drop cnt so" by simp
    have k_take: "(k, key e) \<in> set (take cnt so)"
    proof -
      obtain x where x: "(k, x) \<in> set (take cnt so)" using e(2) by (auto simp: ks_def take_map)
      then have "(k, x) \<in> set so" by (rule in_set_takeD)
      with mem(1) d have "x = key e" using eq_key_imp_eq_value by fastforce
      with x show ?thesis by simp
    qed
    have "(k', key e') \<notin> set (take cnt so)" using e'2(2) by (force simp: ks_def take_map)
    with mem(2) split have k'_drop: "(k', key e') \<in> set (drop cnt so)" by (metis Un_iff set_append)
    have "sorted (map snd (take cnt so) @ map snd (drop cnt so))"
      using sort_entries_sorted [of es] by (metis so_def map_append append_take_drop_id)
    then show ?thesis using k_take k'_drop by (force simp: sorted_append)
  qed
  then show "\<And>k e k' e'. (k, e) \<in> set (c_items c) \<Longrightarrow> k \<in> set (map fst ev) \<Longrightarrow>
      (k', e') \<in> set (c_items c') \<Longrightarrow> key e \<le> key e'"
    using conjunct1 [OF conjunct2 [OF el]] unfolding ev(2) by simp
  show "length ev = cnt" using el ks(1) by (metis length_map)
  show "c_items c' = filter (\<lambda>(k, _). k \<notin> set (map fst ev)) (c_items c)"
    "mset (contents (c_items c)) = mset ev + mset (contents (c_items c'))"
    using el ev(2) by simp_all
  show "c_config c' = c_config c" "c_accessSeq c' = c_accessSeq c" by (rule ev)+
qed

section \<open>The invariant\<close>

text \<open>Keys and sequence numbers are unique, and no number is ahead of the counter.\<close>

definition cache_ok :: "'v Cache \<Rightarrow> bool" where
  "cache_ok c \<longleftrightarrow> distinct (keys (c_items c)) \<and>
     distinct (map (ce_LastAccessSeq \<circ> snd) (c_items c)) \<and>
     distinct (map (ce_CreatedSeq \<circ> snd) (c_items c)) \<and>
     (\<forall>e\<in>snd ` set (c_items c). ce_LastAccessSeq e \<le> c_accessSeq c \<and> ce_CreatedSeq e \<le> c_accessSeq c)"

definition cache_bounded :: "'v Cache \<Rightarrow> bool" where
  "cache_bounded c \<longleftrightarrow>
     (cc_MaxRuntimeItems (c_config c) > 0 \<longrightarrow> int (length (c_items c)) \<le> cc_MaxRuntimeItems (c_config c))"

definition cache_inv :: "'v Cache \<Rightarrow> bool" where
  "cache_inv c \<longleftrightarrow> cache_ok c \<and> cache_bounded c \<and> st_Size (c_stats c) = length (c_items c)"

lemma cache_ok_filter:
  assumes "cache_ok c" "c_items c' = filter P (c_items c)" "c_accessSeq c' = c_accessSeq c"
  shows "cache_ok c'"
  using assms by (auto simp: cache_ok_def intro: distinct_map_filter)

lemma cache_ok_put:
  assumes ok: "cache_ok c" and "c_items c' = put key e (c_items c)" "c_accessSeq c' = c_accessSeq c + 1"
    and "ce_LastAccessSeq e = c_accessSeq c + 1"
    and created: "ce_CreatedSeq e = c_accessSeq c + 1 \<or>
      (\<exists>old. map_of (c_items c) key = Some old \<and> ce_CreatedSeq e = ce_CreatedSeq old)"
  shows "cache_ok c'"
proof -
  let ?items = "c_items c"
  have d: "distinct (keys ?items)" and b: "\<forall>e\<in>snd ` set ?items. ce_LastAccessSeq e \<le> c_accessSeq c \<and> ce_CreatedSeq e \<le> c_accessSeq c"
    using ok by (auto simp: cache_ok_def)
  have "distinct (map (ce_LastAccessSeq \<circ> snd) (put key e ?items))"
    by (rule distinct_map_put) (use ok b assms(4) in \<open>auto simp: cache_ok_def\<close>)
  moreover have "distinct (map (ce_CreatedSeq \<circ> snd) (put key e ?items))"
  proof (cases "ce_CreatedSeq e = c_accessSeq c + 1")
    case True
    show ?thesis by (rule distinct_map_put) (use ok b True in \<open>auto simp: cache_ok_def\<close>)
  next
    case False
    with created obtain old where old: "map_of ?items key = Some old" "ce_CreatedSeq e = ce_CreatedSeq old"
      by auto
    have "mset (map (ce_CreatedSeq \<circ> snd) (put key e ?items)) = mset (map (ce_CreatedSeq \<circ> snd) ?items)"
      using mset_put [OF d, of key e] mset_del [OF d old(1)] old(2) by simp
    then show ?thesis using ok by (metis cache_ok_def mset_eq_imp_distinct_iff)
  qed
  moreover have "\<forall>x\<in>snd ` set (put key e ?items). ce_LastAccessSeq x \<le> c_accessSeq c + 1 \<and> ce_CreatedSeq x \<le> c_accessSeq c + 1"
  proof -
    have "ce_CreatedSeq e \<le> c_accessSeq c + 1"
      using created b by (force dest: map_of_SomeD)
    then show ?thesis using b assms(4) by (auto simp: set_put [OF d] intro: le_SucI)
  qed
  ultimately show ?thesis using d assms(2,3) by (simp add: cache_ok_def)
qed

lemma contents_touch:
  assumes "cache_ok c" "map_of (c_items c) key = Some e"
  shows "mset (contents (c_items (touch now key e c))) = mset (contents (c_items c))"
  using mset_put [of "c_items c" key] mset_del [of "c_items c" key e] assms
  by (simp add: contents_def touch_def Let_def cache_ok_def)

lemma Get_inv:
  assumes "cache_inv c"
  shows "cache_inv (snd (Get now key c))" "c_config (snd (Get now key c)) = c_config c"
    "mset (contents (c_items (snd (Get now key c)))) = mset (contents (c_items c))"
proof -
  have hit: "cache_inv (touch now key e c)" if e: "map_of (c_items c) key = Some e" for e
  proof -
    have "cache_ok (touch now key e c)"
      by (rule cache_ok_put [of c]) (use assms e in \<open>auto simp: touch_def Let_def cache_inv_def\<close>)
    moreover have "key \<in> set (keys (c_items c))"
      using e by (metis map_of_eq_None_iff option.distinct(1) set_map)
    then have "length (c_items (touch now key e c)) = length (c_items c)"
      by (simp add: touch_def Let_def length_put)
    ultimately show ?thesis using assms
      by (simp add: cache_inv_def cache_bounded_def) (simp add: touch_def Let_def)
  qed
  have "cache_inv (count_miss c)"
    using assms by (simp add: count_miss_def cache_inv_def cache_ok_def cache_bounded_def)
  with hit show "cache_inv (snd (Get now key c))" by (auto simp: Get_def split: option.splits)
  show "c_config (snd (Get now key c)) = c_config c"
    by (auto simp: Get_def count_miss_def touch_def Let_def split: option.splits)
  show "mset (contents (c_items (snd (Get now key c)))) = mset (contents (c_items c))"
    using assms contents_touch [of c key]
    by (auto simp: Get_def count_miss_def cache_inv_def split: option.splits)
qed

lemma GetMany_inv:
  "cache_inv c \<Longrightarrow> GetMany now ks acc c = (res, c') \<Longrightarrow>
   cache_inv c' \<and> c_config c' = c_config c \<and> mset (contents (c_items c')) = mset (contents (c_items c))"
proof (induction ks arbitrary: acc c)
  case (Cons key ks)
  obtain v c1 where g: "Get now key c = (v, c1)" by (cases "Get now key c")
  with Get_inv [OF Cons.prems(1), of now key] have "cache_inv c1" "c_config c1 = c_config c"
    "mset (contents (c_items c1)) = mset (contents (c_items c))" by auto
  with Cons g show ?case by (cases v) fastforce+
qed simp

lemma insert_entry_correct:
  assumes "cache_ok c" "insert_entry now ex key v c = (ev, c')"
  shows "cache_ok c'" "c_config c' = c_config c"
    "add_mset (key, v) (mset (contents (c_items c))) = mset ev + mset (contents (c_items c'))"
    "map_of (c_items c') key = Some \<lparr>ce_Value = v, ce_ExpiresAt = ex, ce_CreatedAt = now, ce_LastAccessed = now,
       ce_CreatedSeq = c_accessSeq c + 1, ce_LastAccessSeq = c_accessSeq c + 1, ce_AccessCount = 0\<rparr>"
    "c_accessSeq c' = c_accessSeq c + 1" "\<And>k. k \<noteq> key \<Longrightarrow> map_of (c_items c') k = map_of (c_items c) k"
proof -
  have d: "distinct (keys (c_items c))" using assms(1) by (simp add: cache_ok_def)
  show "cache_ok c'"
    by (rule cache_ok_put [OF assms(1)]) (use assms(2) in \<open>auto simp: insert_entry_def Let_def\<close>)
  show "add_mset (key, v) (mset (contents (c_items c))) = mset ev + mset (contents (c_items c'))"
    using assms(2) mset_put [OF d, of key] mset_del [OF d, of key] del_absent [of "c_items c" key]
    by (auto simp: insert_entry_def Let_def contents_def split: option.splits)
qed (use assms(2) in \<open>auto simp: insert_entry_def Let_def\<close>)

lemma insert_entries_correct:
  "cache_ok c \<Longrightarrow> insert_entries now ex items c = (ev, c') \<Longrightarrow>
   cache_ok c' \<and> c_config c' = c_config c \<and>
   mset items + mset (contents (c_items c)) = mset ev + mset (contents (c_items c'))"
proof (induction items arbitrary: c ev)
  case (Cons p items)
  obtain key v where p: "p = (key, v)" by (cases p)
  obtain ev1 c1 ev2 where s: "insert_entry now ex key v c = (ev1, c1)"
    "insert_entries now ex items c1 = (ev2, c')" "ev = ev1 @ ev2"
    using Cons.prems(2) by (auto simp: p split: prod.splits)
  note i = insert_entry_correct [OF Cons.prems(1) s(1)]
  from Cons.IH [OF i(1) s(2)] i(2,3) s(3) show ?case
    by (simp add: p union_assoc [symmetric]) (metis add_mset_add_single union_assoc union_commute)
qed simp

lemma enforceMaxSize_correct:
  assumes ok: "cache_ok c" and rng: "map_order rng" and e: "enforceMaxSize rng c = (ev, c')"
  shows "cache_ok c' \<and> cache_bounded c' \<and> c_config c' = c_config c \<and> c_accessSeq c' = c_accessSeq c \<and>
    mset (contents (c_items c)) = mset ev + mset (contents (c_items c')) \<and>
    (\<exists>P. c_items c' = filter P (c_items c))"
proof (cases "cc_MaxRuntimeItems (c_config c) \<le> 0 \<or>
    int (length (c_items c)) \<le> cc_MaxRuntimeItems (c_config c)")
  case True
  then have "c' = c" "ev = []" using e by (auto simp: enforceMaxSize_def Let_def split: if_splits)
  moreover have "\<exists>P. c_items c = filter P (c_items c)" by (rule exI [of _ "\<lambda>_. True"]) simp
  ultimately show ?thesis using True ok by (auto simp: cache_bounded_def)
next
  case False
  let ?n = "length (c_items c) - nat (cc_MaxRuntimeItems (c_config c))"
  obtain key where key: "evict_by key rng ?n c = (ev, c')"
    using e False
    by (auto simp: enforceMaxSize_def Let_def evictFIFO_def evictLRU_def evictLFU_def split: EvictionPolicy.splits)
  have d: "distinct (keys (c_items c))" using ok by (simp add: cache_ok_def)
  note ev = evict_by_correct [OF d rng _ key]
  have n: "?n \<le> length (c_items c)" by simp
  have "length (c_items c) = length ev + length (c_items c')"
    using arg_cong [OF ev(3) [OF n], of size] by (simp add: contents_def)
  moreover have "length ev = ?n" by (rule ev(1) [OF n])
  ultimately have "int (length (c_items c')) \<le> cc_MaxRuntimeItems (c_config c)" using False by auto
  then have "cache_bounded c'" using ev(5) [OF n] by (simp add: cache_bounded_def)
  moreover have "cache_ok c'" by (rule cache_ok_filter [OF ok ev(2) [OF n] ev(6) [OF n]])
  ultimately show ?thesis using ev(2,3,5,6) [OF n] by blast
qed

section \<open>Runs of the cache\<close>

datatype 'v cache_op =
    OpGet instant string
  | OpGetMany instant "string list"
  | OpSet instant string 'v duration
  | OpSetMany instant "(string \<times> 'v) list" duration
  | OpDelete string
  | OpDeleteMany "string list"
  | OpClear
  | OpCleanup instant

text \<open>What an operation puts in, the notices it gives, and the cache it leaves.\<close>

fun op_inserts :: "'v cache_op \<Rightarrow> (string \<times> 'v) list" where
  "op_inserts (OpSet now key v ttl) = [(key, v)]"
| "op_inserts (OpSetMany now items ttl) = items"
| "op_inserts _ = []"

fun cache_exec :: "('v items \<Rightarrow> 'v items) \<Rightarrow> 'v cache_op \<Rightarrow> 'v Cache \<Rightarrow> (string \<times> 'v) list \<times> 'v Cache" where
  "cache_exec rng (OpGet now key) c = ([], snd (Get now key c))"
| "cache_exec rng (OpGetMany now ks) c = ([], snd (GetMany now ks [] c))"
| "cache_exec rng (OpSet now key v ttl) c = Set rng now key v ttl c"
| "cache_exec rng (OpSetMany now items ttl) c = SetMany rng now items ttl c"
| "cache_exec rng (OpDelete key) c = snd (Delete key c)"
| "cache_exec rng (OpDeleteMany ks) c = snd (DeleteMany ks c)"
| "cache_exec rng OpClear c = Clear rng c"
| "cache_exec rng (OpCleanup now) c = cleanupExpiredItems rng now c"

text \<open>A run keeps everything inserted and every notice given so far.\<close>

record 'v cache_run =
  cr_cache :: "'v Cache"
  cr_inserted :: "(string \<times> 'v) list"
  cr_notified :: "(string \<times> 'v) list"

definition cache_step :: "'v cache_run \<Rightarrow> ('v items \<Rightarrow> 'v items) \<times> 'v cache_op \<Rightarrow> 'v cache_run" where
  "cache_step r x =
     (case x of (rng, op) \<Rightarrow>
      let (evicted, c) = cache_exec rng op (cr_cache r)
      in \<lparr>cr_cache = c, cr_inserted = cr_inserted r @ op_inserts op,
          cr_notified = cr_notified r @ evicted\<rparr>)"

definition cache_run_inv :: "CacheConfig \<Rightarrow> 'v cache_run \<Rightarrow> bool" where
  "cache_run_inv config r \<longleftrightarrow> cache_inv (cr_cache r) \<and> c_config (cr_cache r) = config \<and>
     mset (cr_inserted r) = mset (cr_notified r) + mset (contents (c_items (cr_cache r)))"

definition cache_start :: "CacheConfig \<Rightarrow> 'v cache_run" where
  "cache_start config = \<lparr>cr_cache = NewCache config, cr_inserted = [], cr_notified = []\<rparr>"

lemma updateSizeStats_simps [simp]:
  "c_items (updateSizeStats c) = c_items c" "c_config (updateSizeStats c) = c_config c"
  "cache_ok (updateSizeStats c) = cache_ok c" "cache_bounded (updateSizeStats c) = cache_bounded c"
  "st_Size (c_stats (updateSizeStats c)) = length (c_items c)"
  by (simp_all add: updateSizeStats_def cache_ok_def cache_bounded_def)

text \<open>The law of one operation: the invariant and the balance of insertions and notices.\<close>

definition op_law :: "(string \<times> 'v) list \<Rightarrow> 'v Cache \<Rightarrow> (string \<times> 'v) list \<times> 'v Cache \<Rightarrow> bool" where
  "op_law ins c res \<longleftrightarrow> cache_inv (snd res) \<and> c_config (snd res) = c_config c \<and>
     mset ins + mset (contents (c_items c)) = mset (fst res) + mset (contents (c_items (snd res)))"

lemma SetMany_law:
  assumes "cache_inv c" "map_order rng"
  shows "op_law items c (SetMany rng now items ttl c)"
proof -
  define ex where "ex = now + (if ttl = 0 then cc_DefaultTTL (c_config c) else ttl)"
  obtain ev1 c1 where 1: "insert_entries now ex items c = (ev1, c1)"
    by (cases "insert_entries now ex items c")
  obtain ev2 c2 where 2: "enforceMaxSize rng c1 = (ev2, c2)" by (cases "enforceMaxSize rng c1")
  have "SetMany rng now items ttl c = (ev1 @ ev2, updateSizeStats c2)"
    using 1 2 by (simp add: SetMany_def Let_def ex_def)
  moreover have ok: "cache_ok c" using assms(1) by (simp add: cache_inv_def)
  note i = insert_entries_correct [OF ok 1]
  note e = enforceMaxSize_correct [OF conjunct1 [OF i] assms(2) 2]
  ultimately show ?thesis using i e by (simp add: op_law_def cache_inv_def union_assoc)
qed

lemma Set_SetMany: "Set rng now key v ttl c = SetMany rng now [(key, v)] ttl c"
  by (simp add: Set_def SetMany_def Let_def split: prod.splits)

lemma delete_keys_correct:
  "cache_ok c \<Longrightarrow> delete_keys ks c = (n, ev, c') \<Longrightarrow>
   cache_ok c' \<and> c_config c' = c_config c \<and> length (c_items c') \<le> length (c_items c) \<and>
   mset (contents (c_items c)) = mset ev + mset (contents (c_items c'))"
proof (induction ks arbitrary: c n ev)
  case (Cons key ks)
  show ?case
  proof (cases "map_of (c_items c) key")
    case None
    with Cons show ?thesis by simp
  next
    case (Some e)
    let ?c = "c\<lparr>c_items := del key (c_items c)\<rparr>"
    obtain m ev1 where d: "delete_keys ks ?c = (m, ev1, c')" "ev = (key, ce_Value e) # ev1"
      using Cons.prems(2) Some by (auto split: prod.splits)
    have "cache_ok ?c" by (rule cache_ok_filter [OF Cons.prems(1)]) (auto simp: del_def)
    from Cons.IH [OF this d(1)] d(2) mset_del [of "c_items c" key e] Some Cons.prems(1)
      length_del_le [of key "c_items c"]
    show ?thesis by (auto simp: cache_ok_def contents_def)
  qed
qed simp

lemma DeleteMany_law:
  assumes "cache_inv c"
  shows "op_law [] c (snd (DeleteMany ks c))"
proof -
  obtain n ev c' where d: "delete_keys ks c = (n, ev, c')" by (cases "delete_keys ks c")
  have ok: "cache_ok c" using assms by (simp add: cache_inv_def)
  from delete_keys_correct [OF ok d] assms d show ?thesis
    by (auto simp: DeleteMany_def op_law_def cache_inv_def cache_bounded_def)
qed

lemma Delete_DeleteMany: "snd (Delete key c) =
    (if map_of (c_items c) key = None then ([], c) else snd (DeleteMany [key] c))"
  by (auto simp: Delete_def DeleteMany_def split: option.splits)

lemma mset_contents: "mset (contents xs) = image_mset (\<lambda>(k, e). (k, ce_Value e)) (mset xs)"
  by (simp add: contents_def)

lemma cleanup_law:
  assumes "cache_inv c" "map_order rng"
  shows "op_law [] c (cleanupExpiredItems rng now c)"
proof -
  let ?live = "filter (\<lambda>(k, e). \<not> isExpired now e) (c_items c)"
  let ?dead = "filter (\<lambda>(k, e). isExpired now e) (rng (c_items c))"
  let ?P = "\<lambda>(k, e). isExpired now e"
  have "mset ?dead = filter_mset ?P (mset (c_items c))"
    using map_orderD(1) [OF assms(2), of "c_items c"] by (simp add: mset_filter)
  moreover have "mset ?live = filter_mset (\<lambda>x. \<not> ?P x) (mset (c_items c))"
    by (simp add: mset_filter case_prod_unfold)
  ultimately have "mset ?dead + mset ?live = mset (c_items c)"
    by (simp only: multiset_partition [symmetric])
  then have "mset (contents (c_items c)) = mset (contents ?dead) + mset (contents ?live)"
    unfolding mset_contents image_mset_union [symmetric] by (simp only:)
  moreover have "cache_ok (snd (cleanupExpiredItems rng now c))"
    using assms(1) by (auto simp: cleanupExpiredItems_def Let_def cache_inv_def intro: cache_ok_filter)
  moreover have "cache_bounded (snd (cleanupExpiredItems rng now c))"
    using assms(1) by (auto simp: cleanupExpiredItems_def Let_def cache_inv_def cache_bounded_def
        intro: order_trans [OF of_nat_mono [OF length_filter_le]])
  ultimately show ?thesis
    by (simp add: op_law_def cleanupExpiredItems_def Let_def contents_def cache_inv_def)
qed

lemma cache_exec_law:
  assumes "cache_inv c" "map_order rng" "cc_OnEvict (c_config c)"
  shows "op_law (op_inserts op) c (cache_exec rng op c)"
proof (cases op)
  case (OpGet now key)
  then show ?thesis using Get_inv [OF assms(1), of now key] by (simp add: op_law_def)
next
  case (OpGetMany now ks)
  then show ?thesis using GetMany_inv [OF assms(1), of now ks "[]"]
    by (cases "GetMany now ks [] c") (simp add: op_law_def)
next
  case OpClear
  then show ?thesis using assms map_orderD(1) [OF assms(2), of "c_items c"]
    by (auto simp: op_law_def Clear_def cache_inv_def cache_ok_def cache_bounded_def contents_def)
next
  case (OpDelete key)
  then show ?thesis using assms DeleteMany_law [OF assms(1), of "[key]"]
    by (auto simp: Delete_DeleteMany op_law_def)
qed (use assms in \<open>simp_all add: SetMany_law Set_SetMany DeleteMany_law cleanup_law\<close>)

interpretation cache_ops: op_machine cache_step "cache_run_inv config"
  "\<lambda>(rng, op). map_order rng \<and> cc_OnEvict config"
proof
  fix r :: "'a cache_run" and x :: "('a items \<Rightarrow> 'a items) \<times> 'a cache_op"
  assume inv: "cache_run_inv config r" and ok: "case x of (rng, op) \<Rightarrow> map_order rng \<and> cc_OnEvict config"
  obtain rng op where x: "x = (rng, op)" by (cases x)
  obtain ev c where e: "cache_exec rng op (cr_cache r) = (ev, c)" by (cases "cache_exec rng op (cr_cache r)")
  have "op_law (op_inserts op) (cr_cache r) (ev, c)"
    using cache_exec_law [of "cr_cache r" rng op] inv ok e by (simp add: cache_run_inv_def x)
  with inv e show "cache_run_inv config (cache_step r x)"
    by (simp add: cache_run_inv_def cache_step_def op_law_def x) (metis union_assoc union_commute)
qed

text \<open>C20: the cache over any run. Whatever operations run, in whatever order the maps are ranged
  over: keys are unique, the size limit (when one is set) holds and the reported size is the
  real one, and every value ever stored is either still in the cache or was reported to the
  eviction callback, exactly once per insertion.\<close>

theorem cache_run_balanced:
  assumes "list_all (\<lambda>(rng, op). map_order rng) ops" and "cc_OnEvict config"
  defines "r \<equiv> foldl cache_step (cache_start config) ops"
  shows "distinct (keys (c_items (cr_cache r))) \<and>
    (cc_MaxRuntimeItems config > 0 \<longrightarrow> int (Size (cr_cache r)) \<le> cc_MaxRuntimeItems config) \<and>
    st_Size (c_stats (cr_cache r)) = Size (cr_cache r) \<and>
    mset (cr_inserted r) = mset (cr_notified r) + mset (contents (c_items (cr_cache r)))"
proof -
  have "cache_run_inv config (cache_start config)"
    by (simp add: cache_run_inv_def cache_start_def NewCache_def cache_inv_def cache_ok_def
        cache_bounded_def contents_def)
  moreover have "list_all (\<lambda>(rng, op). map_order rng \<and> cc_OnEvict config) ops"
    using assms(1,2) by (auto simp: list_all_iff)
  ultimately have "cache_run_inv config r" unfolding r_def by (rule cache_ops.run_inv)
  then show ?thesis
    by (auto simp: cache_run_inv_def cache_inv_def cache_ok_def cache_bounded_def Size_def)
qed

theorem cache_run_balanced_witness:
  "cr_notified (foldl cache_step (cache_start \<lparr>cc_MaxRuntimeItems = 2, cc_DefaultTTL = 9,
       cc_EvictionPolicy = EvictionLRU, cc_OnEvict = True\<rparr>)
     [(rev, OpSet 0 ''a'' (1 :: nat) 0), (rev, OpSet 1 ''b'' 2 0), (rev, OpGet 2 ''a''), (rev, OpSet 3 ''c'' 3 0)])
     = [(''b'', 2)] \<and>
   mset [(''a'', 1 :: nat), (''b'', 2), (''c'', 3)] = mset [(''b'', 2)] + mset [(''a'', 1), (''c'', 3)]"
proof -
  let ?cfg = "\<lparr>cc_MaxRuntimeItems = 2, cc_DefaultTTL = 9, cc_EvictionPolicy = EvictionLRU, cc_OnEvict = True\<rparr>"
  let ?ops = "[(rev, OpSet 0 ''a'' (1 :: nat) 0), (rev, OpSet 1 ''b'' 2 0), (rev, OpGet 2 ''a''), (rev, OpSet 3 ''c'' 3 0)]"
  let ?r = "foldl cache_step (cache_start ?cfg) ?ops"
  have "mset (cr_inserted ?r) = mset (cr_notified ?r) + mset (contents (c_items (cr_cache ?r)))"
    using cache_run_balanced [of ?ops ?cfg] by simp
  moreover have "cr_inserted ?r = [(''a'', 1), (''b'', 2), (''c'', 3)]" by code_simp
  moreover have "cr_notified ?r = [(''b'', 2)]" by code_simp
  moreover have "contents (c_items (cr_cache ?r)) = [(''a'', 1), (''c'', 3)]" by code_simp
  ultimately show ?thesis by simp
qed

section \<open>What eviction keeps\<close>

text \<open>Which key function the policy sorts by.\<close>

definition policy_key :: "EvictionPolicy \<Rightarrow> 'v CacheEntry \<Rightarrow> nat" where
  "policy_key p = (case p of EvictionFIFO \<Rightarrow> ce_CreatedSeq | EvictionLRU \<Rightarrow> ce_LastAccessSeq
     | EvictionLFU \<Rightarrow> ce_AccessCount)"

lemma enforceMaxSize_cases:
  assumes "enforceMaxSize rng c = (ev, c')"
  obtains "c' = c" "ev = []"
  | n where "n < length (c_items c)"
      "evict_by (policy_key (cc_EvictionPolicy (c_config c))) rng n c = (ev, c')"
proof (cases "cc_MaxRuntimeItems (c_config c) \<le> 0 \<or>
    int (length (c_items c)) \<le> cc_MaxRuntimeItems (c_config c)")
  case True
  then show ?thesis using assms that(1) by (auto simp: enforceMaxSize_def Let_def split: if_splits)
next
  case False
  then show ?thesis using assms that(2) [of "length (c_items c) - nat (cc_MaxRuntimeItems (c_config c))"]
    by (auto simp: enforceMaxSize_def Let_def evictFIFO_def evictLRU_def evictLFU_def policy_key_def
        split: EvictionPolicy.splits)
qed

lemma enforceMaxSize_order:
  assumes ok: "cache_ok c" and rng: "map_order rng" and e: "enforceMaxSize rng c = (ev, c')"
    and k: "(k, x) \<in> set (c_items c)" "k \<notin> set (keys (c_items c'))" and k': "(k', x') \<in> set (c_items c')"
  shows "policy_key (cc_EvictionPolicy (c_config c)) x \<le> policy_key (cc_EvictionPolicy (c_config c)) x'"
  using e
proof (cases rule: enforceMaxSize_cases)
  case 1
  then show ?thesis using k by (force simp: image_iff)
next
  case (2 n)
  have d: "distinct (keys (c_items c))" using ok by (simp add: cache_ok_def)
  have n: "n \<le> length (c_items c)" using 2(1) by simp
  note ev = evict_by_correct [OF d rng n 2(2)]
  have "k \<in> set (map fst ev)" using k unfolding ev(2) by (force simp: image_iff)
  then show ?thesis by (rule ev(4) [OF k(1) _ k'])
qed

lemma enforceMaxSize_newest:
  assumes ok: "cache_ok c" and rng: "map_order rng" and e: "enforceMaxSize rng c = (ev, c')"
    and x: "map_of (c_items c) key = Some x"
    and newest: "\<And>k y. (k, y) \<in> set (c_items c) \<Longrightarrow> k \<noteq> key \<Longrightarrow>
      policy_key (cc_EvictionPolicy (c_config c)) y < policy_key (cc_EvictionPolicy (c_config c)) x"
  shows "map_of (c_items c') key = Some x"
  using e
proof (cases rule: enforceMaxSize_cases)
  case 1
  then show ?thesis using x by simp
next
  case (2 n)
  have d: "distinct (keys (c_items c))" using ok by (simp add: cache_ok_def)
  have n: "n \<le> length (c_items c)" using 2(1) by simp
  note ev = evict_by_correct [OF d rng n 2(2)]
  have "length (c_items c') = length (c_items c) - n"
    using arg_cong [OF ev(3), of size] ev(1) by (simp add: contents_def)
  then obtain k y where ky: "(k, y) \<in> set (c_items c')"
    using 2(1) by (cases "c_items c'") auto
  have "key \<notin> set (map fst ev)"
  proof
    assume key: "key \<in> set (map fst ev)"
    have "policy_key (cc_EvictionPolicy (c_config c)) x \<le> policy_key (cc_EvictionPolicy (c_config c)) y"
      by (rule ev(4) [OF map_of_SomeD [OF x] key ky])
    moreover have "(k, y) \<in> set (c_items c)" "k \<noteq> key" using ky key unfolding ev(2) by auto
    ultimately show False using newest [of k y] by simp
  qed
  then show ?thesis unfolding ev(2) map_of_filter_keys using x by simp
qed

lemma Set_newest:
  assumes "cache_inv c" and "map_order rng" and "cc_EvictionPolicy (c_config c) \<noteq> EvictionLFU"
  shows "map_of (c_items (snd (Set rng now key v ttl c))) key =
    Some \<lparr>ce_Value = v, ce_ExpiresAt = now + (if ttl = 0 then cc_DefaultTTL (c_config c) else ttl),
      ce_CreatedAt = now, ce_LastAccessed = now, ce_CreatedSeq = c_accessSeq c + 1,
      ce_LastAccessSeq = c_accessSeq c + 1, ce_AccessCount = 0\<rparr>"
proof -
  define ex where "ex = now + (if ttl = 0 then cc_DefaultTTL (c_config c) else ttl)"
  obtain ev1 c1 where 1: "insert_entry now ex key v c = (ev1, c1)" by (cases "insert_entry now ex key v c")
  obtain ev2 c2 where 2: "enforceMaxSize rng c1 = (ev2, c2)" by (cases "enforceMaxSize rng c1")
  have ok: "cache_ok c" using assms(1) by (simp add: cache_inv_def)
  note i = insert_entry_correct [OF ok 1]
  have d1: "distinct (keys (c_items c1))" using i(1) by (simp add: cache_ok_def)
  have others: "ce_CreatedSeq y \<le> c_accessSeq c \<and> ce_LastAccessSeq y \<le> c_accessSeq c"
    if "(k, y) \<in> set (c_items c1)" "k \<noteq> key" for k y
  proof -
    have "map_of (c_items c) k = Some y" using that i(6) map_of_is_SomeI [OF d1 that(1)] by simp
    then have "y \<in> snd ` set (c_items c)" by (metis map_of_SomeD snd_conv image_eqI)
    then show ?thesis using ok unfolding cache_ok_def by blast
  qed
  have "map_of (c_items c2) key = map_of (c_items c1) key"
    unfolding i(4)
    by (rule enforceMaxSize_newest [OF i(1) assms(2) 2 i(4)])
      (use others assms(3) i(2) in \<open>fastforce simp: policy_key_def less_Suc_eq_le split: EvictionPolicy.splits\<close>)
  then show ?thesis using 1 2 i(4) by (simp add: Set_def Let_def ex_def)
qed

text \<open>A stored value is found again. After \<open>Set\<close> under FIFO or LRU eviction, whatever
  the cache held and however full it was, \<open>Get\<close> of that key until its expiry returns the
  stored value.\<close>

theorem Set_then_Get:
  assumes "cache_inv c" and "map_order rng" and "cc_EvictionPolicy (c_config c) \<noteq> EvictionLFU"
    and "now' \<le> now + (if ttl = 0 then cc_DefaultTTL (c_config c) else ttl)"
  shows "fst (Get now' key (snd (Set rng now key v ttl c))) = Some v"
  using Set_newest [OF assms(1-3), of now key v ttl] assms(4) by (simp add: Get_def isExpired_def)

definition full_lru :: "nat Cache" where
  "full_lru = snd (Set rev 0 ''a'' 1 0 (NewCache \<lparr>cc_MaxRuntimeItems = 1, cc_DefaultTTL = 9,
     cc_EvictionPolicy = EvictionLRU, cc_OnEvict = False\<rparr>))"

lemma full_lru_inv: "cache_inv full_lru" "cc_EvictionPolicy (c_config full_lru) = EvictionLRU"
proof -
  let ?c = "NewCache \<lparr>cc_MaxRuntimeItems = 1, cc_DefaultTTL = 9, cc_EvictionPolicy = EvictionLRU,
     cc_OnEvict = False\<rparr> :: nat Cache"
  have "cache_inv ?c" by (simp add: NewCache_def cache_inv_def cache_ok_def cache_bounded_def)
  from SetMany_law [OF this, of rev "[(''a'', 1)]" 0 0]
  show "cache_inv full_lru" "cc_EvictionPolicy (c_config full_lru) = EvictionLRU"
    by (simp_all add: full_lru_def op_law_def Set_SetMany) (simp add: NewCache_def)
qed

theorem Set_then_Get_witness:
  "fst (Get 8 ''b'' (snd (Set rev 3 ''b'' 2 5 full_lru))) = Some 2"
  by (rule Set_then_Get) (simp_all add: full_lru_inv)

text \<open>The least recently used entries go first. When \<open>Set\<close> under LRU eviction removes an
  entry, that entry was used (set or read) before every other entry that stays.\<close>

theorem Set_evicts_least_recent:
  assumes "cache_inv c" and "map_order rng" and "cc_EvictionPolicy (c_config c) = EvictionLRU"
    and "Set rng now key v ttl c = (ev, c')"
    and "(k, e) \<in> set (c_items c)" "k \<noteq> key" "k \<notin> set (keys (c_items c'))"
    and "(k', e') \<in> set (c_items c')"
  shows "ce_LastAccessSeq e < ce_LastAccessSeq e'"
proof -
  define ex where "ex = now + (if ttl = 0 then cc_DefaultTTL (c_config c) else ttl)"
  obtain ev1 c1 where 1: "insert_entry now ex key v c = (ev1, c1)" by (cases "insert_entry now ex key v c")
  obtain ev2 c2 where 2: "enforceMaxSize rng c1 = (ev2, c2)" by (cases "enforceMaxSize rng c1")
  have c': "c_items c' = c_items c2"
    using assms(4) 1 2 by (auto simp: Set_def Let_def ex_def)
  have ok: "cache_ok c" using assms(1) by (simp add: cache_inv_def)
  note i = insert_entry_correct [OF ok 1]
  have d: "distinct (keys (c_items c))" and d1: "distinct (keys (c_items c1))"
    using ok i(1) by (simp_all add: cache_ok_def)
  have k1: "(k, e) \<in> set (c_items c1)"
    using i(6) [OF assms(6)] map_of_is_SomeI [OF d assms(5)] by (metis map_of_SomeD)
  have "ce_LastAccessSeq e \<le> ce_LastAccessSeq e'"
    using enforceMaxSize_order [OF i(1) assms(2) 2 k1] assms(3,7,8) c' i(2) by (simp add: policy_key_def)
  moreover have "ce_LastAccessSeq e \<noteq> ce_LastAccessSeq e'"
  proof
    assume eq: "ce_LastAccessSeq e = ce_LastAccessSeq e'"
    obtain P where "c_items c2 = filter P (c_items c1)"
      using enforceMaxSize_correct [OF i(1) assms(2) 2] by blast
    then have "(k', e') \<in> set (c_items c1)" using assms(8) c' by simp
    moreover have "inj_on (ce_LastAccessSeq \<circ> snd) (set (c_items c1))"
      using i(1) by (simp add: cache_ok_def distinct_map)
    ultimately have "(k, e) = (k', e')"
      by (intro inj_onD [where f = "ce_LastAccessSeq \<circ> snd"]) (use k1 eq in auto)
    then show False using assms(7,8) by force
  qed
  ultimately show ?thesis by simp
qed

theorem Set_evicts_least_recent_witness:
  "\<exists>e e'. map_of (c_items full_lru) ''a'' = Some e \<and>
     c_items (snd (Set rev 3 ''b'' 2 5 full_lru)) = [(''b'', e')] \<and> ce_LastAccessSeq e < ce_LastAccessSeq e'"
proof -
  let ?e = "\<lparr>ce_Value = 1, ce_ExpiresAt = 9, ce_CreatedAt = 0, ce_LastAccessed = 0, ce_CreatedSeq = 1,
    ce_LastAccessSeq = 1, ce_AccessCount = 0\<rparr> :: nat CacheEntry"
  let ?e' = "\<lparr>ce_Value = 2, ce_ExpiresAt = 8, ce_CreatedAt = 3, ce_LastAccessed = 3, ce_CreatedSeq = 2,
    ce_LastAccessSeq = 2, ce_AccessCount = 0\<rparr> :: nat CacheEntry"
  have 1: "c_items full_lru = [(''a'', ?e)]" by code_simp
  have 2: "c_items (snd (Set rev 3 ''b'' 2 5 full_lru)) = [(''b'', ?e')]" by code_simp
  have "Set rev 3 ''b'' 2 5 full_lru = (fst (Set rev 3 ''b'' 2 5 full_lru), snd (Set rev 3 ''b'' 2 5 full_lru))"
    by simp
  from Set_evicts_least_recent [OF full_lru_inv(1) map_order_rev full_lru_inv(2) this, of "''a''" ?e "''b''" ?e']
  have "ce_LastAccessSeq ?e < ce_LastAccessSeq ?e'" unfolding 1 2 by simp
  with 1 2 show ?thesis by (intro exI [of _ ?e] exI [of _ ?e']) simp
qed

text \<open>Under LFU eviction a full cache whose entries have been read drops the entry it has
  just stored: its access count is zero, so \<open>Set\<close> succeeds and \<open>Get\<close> misses.\<close>

theorem LFU_drops_new_entry:
  "let c0 = NewCache \<lparr>cc_MaxRuntimeItems = 1, cc_DefaultTTL = 9, cc_EvictionPolicy = EvictionLFU,
              cc_OnEvict = False\<rparr> :: nat Cache;
       c1 = snd (Get 1 ''a'' (snd (Set rev 0 ''a'' 1 0 c0)))
   in fst (Get 2 ''b'' (snd (Set rev 2 ''b'' 2 0 c1))) = None"
  by code_simp

end
