(* ===== verification/Auth_Defense.thy ===== *)
theory Auth_Defense
  imports Cache
begin

text \<open>
  The authorization defense of \<open>features/rbac/authdefense\<close>: circuit breakers
  (\<open>circuit_breaker.go\<close>), the per-address limiter with its ring of failure times
  (\<open>ip_rate_limiter.go\<close>) over a cache given by a locale, and the three-tier system
  (\<open>defense.go\<close>, \<open>middleware.go\<close>). Each call of a breaker is one atomic step.
\<close>

section \<open>Circuit breakers\<close>

datatype CircuitState = CircuitClosed | CircuitOpen | CircuitHalfOpen

record CircuitBreaker =
  cb_state :: CircuitState
  cb_failures :: nat
  cb_successes :: nat
  cb_windowStart :: instant
  cb_openedAt :: instant
  cb_threshold :: int
  cb_recoveryTime :: duration
  cb_halfOpenMax :: int
  cb_windowDuration :: duration

definition NewCircuitBreaker :: "int \<Rightarrow> duration \<Rightarrow> int \<Rightarrow> duration \<Rightarrow> instant \<Rightarrow> CircuitBreaker" where
  "NewCircuitBreaker threshold recoveryTime halfOpenMax windowDuration now =
     \<lparr>cb_state = CircuitClosed, cb_failures = 0, cb_successes = 0, cb_windowStart = now,
      cb_openedAt = 0, cb_threshold = threshold, cb_recoveryTime = recoveryTime,
      cb_halfOpenMax = halfOpenMax, cb_windowDuration = windowDuration\<rparr>"

definition cb_State :: "instant \<Rightarrow> CircuitBreaker \<Rightarrow> CircuitState \<times> CircuitBreaker" where
  "cb_State now cb =
     (if cb_state cb = CircuitOpen \<and> time_Sub now (cb_openedAt cb) \<ge> cb_recoveryTime cb
      then (CircuitHalfOpen, cb\<lparr>cb_state := CircuitHalfOpen, cb_successes := 0\<rparr>)
      else (cb_state cb, cb))"

definition Allow :: "instant \<Rightarrow> CircuitBreaker \<Rightarrow> bool \<times> CircuitBreaker" where
  "Allow now cb =
     (let (s, cb') = cb_State now cb in
      case s of CircuitClosed \<Rightarrow> (True, cb') | CircuitOpen \<Rightarrow> (False, cb')
      | CircuitHalfOpen \<Rightarrow> (True, cb'))"

definition trip :: "instant \<Rightarrow> CircuitBreaker \<Rightarrow> CircuitBreaker" where
  "trip now cb = cb\<lparr>cb_state := CircuitOpen, cb_openedAt := now, cb_failures := 0, cb_successes := 0\<rparr>"

definition cb_reset :: "instant \<Rightarrow> CircuitBreaker \<Rightarrow> CircuitBreaker" where
  "cb_reset now cb =
     cb\<lparr>cb_state := CircuitClosed, cb_failures := 0, cb_successes := 0, cb_windowStart := now\<rparr>"

definition maybeResetWindow :: "instant \<Rightarrow> CircuitBreaker \<Rightarrow> CircuitBreaker" where
  "maybeResetWindow now cb =
     (if time_Sub now (cb_windowStart cb) \<ge> cb_windowDuration cb
      then cb\<lparr>cb_failures := 0, cb_windowStart := now\<rparr> else cb)"

definition cb_RecordFailure :: "instant \<Rightarrow> CircuitBreaker \<Rightarrow> CircuitBreaker" where
  "cb_RecordFailure now cb0 =
     (let (s, cb) = cb_State now cb0 in
      case s of
        CircuitClosed \<Rightarrow>
          (let cb1 = maybeResetWindow now cb; cb2 = cb1\<lparr>cb_failures := cb_failures cb1 + 1\<rparr>
           in if int (cb_failures cb2) \<ge> cb_threshold cb2 then trip now cb2 else cb2)
      | CircuitHalfOpen \<Rightarrow> trip now cb
      | CircuitOpen \<Rightarrow> cb)"

definition cb_RecordSuccess :: "instant \<Rightarrow> CircuitBreaker \<Rightarrow> CircuitBreaker" where
  "cb_RecordSuccess now cb0 =
     (let (s, cb) = cb_State now cb0 in
      case s of
        CircuitClosed \<Rightarrow> cb
      | CircuitHalfOpen \<Rightarrow>
          (let cb1 = cb\<lparr>cb_successes := cb_successes cb + 1\<rparr>
           in if int (cb_successes cb1) \<ge> cb_halfOpenMax cb1 then cb_reset now cb1 else cb1)
      | CircuitOpen \<Rightarrow> cb)"

datatype breaker_op = BrAllow instant | BrFailure instant | BrSuccess instant

fun op_time :: "breaker_op \<Rightarrow> instant" where
  "op_time (BrAllow t) = t" | "op_time (BrFailure t) = t" | "op_time (BrSuccess t) = t"

fun breaker_step :: "CircuitBreaker \<Rightarrow> breaker_op \<Rightarrow> CircuitBreaker" where
  "breaker_step cb (BrAllow t) = snd (Allow t cb)"
| "breaker_step cb (BrFailure t) = cb_RecordFailure t cb"
| "breaker_step cb (BrSuccess t) = cb_RecordSuccess t cb"

text \<open>Open since \<open>t0\<close>, with the given recovery time.\<close>

definition open_since :: "instant \<Rightarrow> duration \<Rightarrow> CircuitBreaker \<Rightarrow> bool" where
  "open_since t0 rec cb \<longleftrightarrow> cb_state cb = CircuitOpen \<and> cb_openedAt cb = t0 \<and> cb_recoveryTime cb = rec"

section \<open>The ring of failure times\<close>

record failureRing =
  fr_times :: "instant list"
  fr_head :: nat
  fr_count :: nat

text \<open>A ring of capacity 0 would make \<open>add\<close> panic; the results below assume a positive one.\<close>

definition newFailureRing :: "nat \<Rightarrow> failureRing" where
  "newFailureRing capacity = \<lparr>fr_times = replicate capacity 0, fr_head = 0, fr_count = 0\<rparr>"

definition fr_add :: "instant \<Rightarrow> failureRing \<Rightarrow> failureRing" where
  "fr_add t r = r\<lparr>fr_times := (fr_times r)[fr_head r := t],
     fr_head := (fr_head r + 1) mod length (fr_times r),
     fr_count := (if fr_count r < length (fr_times r) then fr_count r + 1 else fr_count r)\<rparr>"

definition countWithin :: "instant \<Rightarrow> duration \<Rightarrow> failureRing \<Rightarrow> nat" where
  "countWithin now window r =
     (let cutoff = now + (- window) in
      length (filter (\<lambda>i. \<not> fr_times r ! ((fr_head r + length (fr_times r) - 1 - i) mod length (fr_times r)) < cutoff)
        [0..<fr_count r]))"

section \<open>The per-address limiter\<close>

text \<open>
  The limiter reaches its cache only through \<open>Get\<close> and \<open>Set\<close>, which are its arguments here.
  The ring of an address is one object shared with the cache: it is changed and stored again
  under the limiter's mutex.
\<close>

record 'c IPRateLimiter =
  il_cache :: 'c
  il_limit :: int
  il_window :: duration
  il_ring :: nat

definition ip_RecordFailure ::
    "(instant \<Rightarrow> string \<Rightarrow> 'c \<Rightarrow> failureRing option \<times> 'c) \<Rightarrow>
     (instant \<Rightarrow> string \<Rightarrow> failureRing \<Rightarrow> duration \<Rightarrow> 'c \<Rightarrow> (string \<times> failureRing) list \<times> 'c) \<Rightarrow>
     instant \<Rightarrow> string \<Rightarrow> 'c IPRateLimiter \<Rightarrow> 'c IPRateLimiter" where
  "ip_RecordFailure get st now ip l =
     (let (found, c1) = get now ip (il_cache l);
          ring = (case found of Some r \<Rightarrow> r | None \<Rightarrow> newFailureRing (il_ring l));
          (_, c2) = st now ip (fr_add now ring) (il_window l * 2) c1
      in l\<lparr>il_cache := c2\<rparr>)"

definition IsRateLimited ::
    "(instant \<Rightarrow> string \<Rightarrow> 'c \<Rightarrow> failureRing option \<times> 'c) \<Rightarrow>
     instant \<Rightarrow> string \<Rightarrow> 'c IPRateLimiter \<Rightarrow> bool \<times> 'c IPRateLimiter" where
  "IsRateLimited get now ip l =
     (let (found, c1) = get now ip (il_cache l); l1 = l\<lparr>il_cache := c1\<rparr>
      in case found of
           None \<Rightarrow> (False, l1)
         | Some ring \<Rightarrow> (int (countWithin now (il_window l) ring) \<ge> il_limit l, l1))"

section \<open>Breaker lemmas\<close>

lemma cb_State_open_since:
  assumes "open_since t0 rec cb" "time_Sub t t0 < rec"
  shows "cb_State t cb = (CircuitOpen, cb)"
  using assms by (simp add: cb_State_def open_since_def)

lemma open_since_step:
  assumes "open_since t0 rec cb" "time_Sub (op_time op) t0 < rec"
  shows "breaker_step cb op = cb"
  using cb_State_open_since [OF assms] 
  by (cases op) (simp_all add: Allow_def cb_RecordFailure_def cb_RecordSuccess_def)

lemma open_since_run:
  assumes "open_since t0 rec cb" "list_all (\<lambda>op. time_Sub (op_time op) t0 < rec) ops"
  shows "foldl breaker_step cb ops = cb"
  using assms by (induction ops) (simp_all add: open_since_step)

text \<open>An open breaker denies until its recovery time. Once a breaker has tripped at \<open>t0\<close>,
  every request within the recovery time is refused, whatever is recorded in between; the
  first request at or after it is let through as a trial.\<close>

theorem open_breaker_denies:
  assumes "list_all (\<lambda>op. time_Sub (op_time op) t0 < cb_recoveryTime cb) ops"
  shows "fst (Allow t (foldl breaker_step (trip t0 cb) ops)) \<longleftrightarrow>
    \<not> time_Sub t t0 < cb_recoveryTime cb"
proof -
  have o: "open_since t0 (cb_recoveryTime cb) (trip t0 cb)" by (simp add: trip_def open_since_def)
  show ?thesis
    unfolding open_since_run [OF o assms]
    by (simp add: Allow_def cb_State_def trip_def)
qed

theorem open_breaker_denies_witness:
  "\<not> fst (Allow 19 (foldl breaker_step (trip 10 (NewCircuitBreaker 3 10 2 60 0)) [BrSuccess 12, BrFailure 15])) \<and>
   fst (Allow 20 (foldl breaker_step (trip 10 (NewCircuitBreaker 3 10 2 60 0)) [BrSuccess 12, BrFailure 15]))"
proof -
  have ops: "list_all (\<lambda>op. time_Sub (op_time op) 10 < cb_recoveryTime (NewCircuitBreaker 3 10 2 60 0))
      [BrSuccess 12, BrFailure 15]"
    by (simp add: NewCircuitBreaker_def time_Sub_def max_duration_def min_duration_def)
  show ?thesis
    unfolding open_breaker_denies [OF ops]
    by (simp add: NewCircuitBreaker_def time_Sub_def max_duration_def min_duration_def)
qed

text \<open>Failures recorded within one window, seen from a closed breaker.\<close>

lemma failures_in_window:
  assumes "cb_state cb = CircuitClosed" "int (cb_failures cb) < cb_threshold cb"
    and "list_all (\<lambda>t. time_Sub t (cb_windowStart cb) < cb_windowDuration cb) ts"
    and "\<forall>s\<in>set ts. \<forall>t\<in>set ts. time_Sub t s < cb_recoveryTime cb"
  shows "cb_state (foldl (\<lambda>cb t. cb_RecordFailure t cb) cb ts) =
    (if int (cb_failures cb + length ts) < cb_threshold cb then CircuitClosed else CircuitOpen)"
  using assms
proof (induction ts arbitrary: cb)
  case (Cons t ts)
  let ?cb = "cb\<lparr>cb_failures := cb_failures cb + 1\<rparr>"
  have step: "cb_RecordFailure t cb = (if int (cb_failures cb + 1) \<ge> cb_threshold cb then trip t ?cb else ?cb)"
    using Cons.prems by (simp add: cb_RecordFailure_def cb_State_def maybeResetWindow_def Let_def)
  show ?case
  proof (cases "int (cb_failures cb + 1) \<ge> cb_threshold cb")
    case True
    have o: "open_since t (cb_recoveryTime cb) (trip t ?cb)" by (simp add: trip_def open_since_def)
    have "foldl (\<lambda>cb t. cb_RecordFailure t cb) (trip t ?cb) ts = foldl breaker_step (trip t ?cb) (map BrFailure ts)"
      by (simp add: foldl_map)
    also have "\<dots> = trip t ?cb"
      by (rule open_since_run [OF o]) (use Cons.prems(4) in \<open>auto simp: list_all_iff\<close>)
    finally show ?thesis using True step by (simp add: trip_def)
  next
    case False
    have "cb_state (foldl (\<lambda>cb t. cb_RecordFailure t cb) ?cb ts) =
      (if int (cb_failures ?cb + length ts) < cb_threshold ?cb then CircuitClosed else CircuitOpen)"
      by (rule Cons.IH) (use Cons.prems False in auto)
    then show ?thesis using False step by simp
  qed
qed simp

text \<open>A breaker trips on its threshold. Of a new breaker, failures recorded within its first
  window leave it closed when they are fewer than the threshold and open otherwise (as long as
  the failures lie within one recovery time of each other).\<close>

theorem breaker_trips_at_threshold:
  assumes "0 < threshold" and "list_all (\<lambda>t. time_Sub t t0 < window) ts"
    and "\<forall>s\<in>set ts. \<forall>t\<in>set ts. time_Sub t s < recovery"
  shows "cb_state (foldl (\<lambda>cb t. cb_RecordFailure t cb)
      (NewCircuitBreaker threshold recovery halfOpenMax window t0) ts) =
    (if int (length ts) < threshold then CircuitClosed else CircuitOpen)"
  using failures_in_window [of "NewCircuitBreaker threshold recovery halfOpenMax window t0" ts] assms
  by (simp add: NewCircuitBreaker_def)

theorem breaker_trips_at_threshold_witness:
  "cb_state (foldl (\<lambda>cb t. cb_RecordFailure t cb) (NewCircuitBreaker 3 10 2 60 0) [1, 2]) = CircuitClosed \<and>
   cb_state (foldl (\<lambda>cb t. cb_RecordFailure t cb) (NewCircuitBreaker 3 10 2 60 0) [1, 2, 3, 4]) = CircuitOpen"
  by (subst (1 2) breaker_trips_at_threshold)
    (simp_all add: time_Sub_def max_duration_def min_duration_def)

text \<open>The half-open state admits every request. However many requests ask in a row, each is
  allowed; the configured maximum only counts the successes that close the breaker.\<close>

theorem half_open_unlimited:
  "cb_state cb = CircuitHalfOpen \<Longrightarrow> fst (Allow t cb) \<and> snd (Allow t cb) = cb"
  by (simp add: Allow_def cb_State_def)

theorem half_open_unlimited_witness:
  "fst (Allow 25 (snd (Allow 20 (trip 10 (NewCircuitBreaker 3 10 1 60 0)))))"
proof -
  have "cb_state (snd (Allow 20 (trip 10 (NewCircuitBreaker 3 10 1 60 0)))) = CircuitHalfOpen"
    by (simp add: Allow_def cb_State_def trip_def NewCircuitBreaker_def time_Sub_def max_duration_def
        min_duration_def)
  from half_open_unlimited [OF this, of 25] show ?thesis by simp
qed

section \<open>Ring lemmas\<close>

text \<open>The ring holds the last entries of the list of added times.\<close>

definition ring_rep :: "nat \<Rightarrow> failureRing \<Rightarrow> instant list \<Rightarrow> bool" where
  "ring_rep n r ts \<longleftrightarrow> length (fr_times r) = n \<and> fr_head r < n \<and> fr_count r = min (length ts) n \<and>
     (\<forall>i<fr_count r. fr_times r ! ((fr_head r + n - 1 - i) mod n) = rev ts ! i)"

lemma ring_rep_new: "0 < n \<Longrightarrow> ring_rep n (newFailureRing n) []"
  by (simp add: ring_rep_def newFailureRing_def)

lemma ring_rep_add:
  assumes "ring_rep n r ts"
  shows "ring_rep n (fr_add t r) (ts @ [t])"
proof -
  let ?h = "fr_head r"
  have n: "0 < n" "?h < n" "length (fr_times r) = n" "fr_count r = min (length ts) n"
    using assms by (auto simp: ring_rep_def)
  have idx0: "((?h + 1) mod n + n - 1 - 0) mod n = ?h"
    using n(2) by (cases "?h + 1 = n") auto
  have idx: "((?h + 1) mod n + n - 1 - Suc i) mod n = (?h + n - 1 - i) mod n"
    "(?h + n - 1 - i) mod n \<noteq> ?h" if "Suc i < n" for i
  proof -
    show "((?h + 1) mod n + n - 1 - Suc i) mod n = (?h + n - 1 - i) mod n"
    proof (cases "?h + 1 = n")
      case True
      then have "?h + n - 1 - i = (n - 1 - Suc i) + n" using that by auto
      then have "(?h + n - 1 - i) mod n = (n - 1 - Suc i) mod n" by (metis mod_add_self2)
      then show ?thesis using True by simp
    next
      case False
      then have "(?h + 1) mod n = ?h + 1" using n(2) by simp
      then show ?thesis using that by simp
    qed
    show "(?h + n - 1 - i) mod n \<noteq> ?h"
    proof (cases "?h \<ge> Suc i")
      case True
      then have "?h + n - 1 - i = (?h - Suc i) + n" by auto
      then have "(?h + n - 1 - i) mod n = ?h - Suc i" using n(2) True by (metis mod_add_self2 less_imp_diff_less mod_less)
      then show ?thesis using True by simp
    next
      case False
      then have "(?h + n - 1 - i) mod n = ?h + n - 1 - i" using that by simp
      then show ?thesis using that False by simp
    qed
  qed
  show ?thesis
    unfolding ring_rep_def
  proof (intro conjI allI impI)
    fix i
    assume i: "i < fr_count (fr_add t r)"
    show "fr_times (fr_add t r) ! ((fr_head (fr_add t r) + n - 1 - i) mod n) = rev (ts @ [t]) ! i"
    proof (cases i)
      case 0
      then show ?thesis using n idx0 by (simp add: fr_add_def)
    next
      case (Suc j)
      then have j: "Suc j < n" "j < fr_count r" using i n(4) by (auto simp: fr_add_def n(3) split: if_splits)
      then have "fr_times r ! ((?h + n - 1 - j) mod n) = rev ts ! j"
        using assms by (simp add: ring_rep_def)
      with idx [OF j(1)] Suc show ?thesis by (simp add: fr_add_def n(3))
    qed
  qed (use n in \<open>auto simp: fr_add_def\<close>)
qed

lemma countWithin_rep:
  assumes "ring_rep n r ts"
  shows "countWithin now window r = length (filter (\<lambda>t. now - window \<le> t) (take n (rev ts)))"
proof -
  let ?k = "fr_count r"
  have k: "?k = length (take n (rev ts))" and len: "length (fr_times r) = n"
    using assms by (auto simp: ring_rep_def)
  have "map (\<lambda>i. fr_times r ! ((fr_head r + n - 1 - i) mod n)) [0..<?k] = take n (rev ts)"
    by (rule nth_equalityI) (use assms in \<open>auto simp: k ring_rep_def\<close>)
  then have "filter (\<lambda>t. now - window \<le> t) (take n (rev ts)) =
      map (\<lambda>i. fr_times r ! ((fr_head r + n - 1 - i) mod n))
        (filter (\<lambda>i. now - window \<le> fr_times r ! ((fr_head r + n - 1 - i) mod n)) [0..<?k])"
    by (metis (no_types, lifting) comp_apply filter_cong filter_map)
  then show ?thesis by (simp add: countWithin_def Let_def len not_less)
qed

lemma ring_rep_count:
  assumes "ring_rep n r ts" and "sorted ts" and "limit \<le> n"
  shows "limit \<le> countWithin now window r \<longleftrightarrow> limit \<le> length (filter (\<lambda>t. now - window \<le> t) ts)"
proof -
  note cnt = countWithin_rep [OF assms(1)]
  let ?P = "\<lambda>t. now - window \<le> t"
  have "filter ?P (rev ts) = takeWhile ?P (rev ts)"
    using assms(2)
  proof (induction ts rule: rev_induct)
    case (snoc t ts)
    show ?case
    proof (cases "?P t")
      case True
      with snoc show ?thesis by (simp add: sorted_append)
    next
      case False
      have "filter ?P (rev ts) = []"
        using snoc.prems False by (force simp: sorted_append filter_empty_conv)
      with False show ?thesis by simp
    qed
  qed simp
  moreover have "filter ?P (take n (rev ts)) = take n (takeWhile ?P (rev ts))"
    if "filter ?P (rev ts) = takeWhile ?P (rev ts)" for ts
    using that
  proof (induction n arbitrary: ts)
    case (Suc n)
    show ?case
    proof (cases ts rule: rev_cases)
      case (snoc us u)
      show ?thesis
      proof (cases "?P u")
        case True
        then show ?thesis using Suc snoc by simp
      next
        case False
        then have "filter ?P (rev us) = []" using Suc.prems snoc by simp
        then have "filter ?P (take n (rev us)) = []"
          by (metis filter_empty_conv in_set_takeD)
        then show ?thesis using False snoc by simp
      qed
    qed simp
  qed simp
  ultimately have "length (filter ?P (take n (rev ts))) = min n (length (filter ?P (rev ts)))"
    by (metis length_take min.commute)
  moreover have "length (filter ?P (rev ts)) = length (filter ?P ts)" by (simp add: rev_filter [symmetric])
  ultimately show ?thesis using cnt assms(3) by auto
qed

lemma ring_rep_foldl:
  "0 < n \<Longrightarrow> ring_rep n (foldl (\<lambda>r t. fr_add t r) (newFailureRing n) ts) ts"
  by (induction ts rule: rev_induct) (simp_all add: ring_rep_new ring_rep_add)

text \<open>The ring counts failures exactly as far as the limit can tell. For a ring of capacity
  at least the limit, to which times were added in order, at least \<open>limit\<close> of the entries
  kept lie in the window exactly when at least \<open>limit\<close> of all the times ever added do.\<close>

theorem ring_count_exact:
  assumes "sorted ts" and "0 < limit" "limit \<le> n"
  shows "limit \<le> countWithin now window (foldl (\<lambda>r t. fr_add t r) (newFailureRing n) ts) \<longleftrightarrow>
    limit \<le> length (filter (\<lambda>t. now - window \<le> t) ts)"
  using ring_rep_count [OF ring_rep_foldl assms(1,3)] assms(2,3) by simp

theorem ring_count_exact_witness:
  "2 \<le> countWithin 100 10 (foldl (\<lambda>r t. fr_add t r) (newFailureRing 2) [1, 50, 91, 95, 99])"
  using ring_count_exact [of "[1, 50, 91, 95, 99]" 2 2 100 10] by simp

section \<open>The limiter over any cache\<close>

text \<open>
  What the limiter needs of its cache: \<open>look c now k\<close> is what the cache would return for \<open>k\<close>
  at \<open>now\<close>, \<open>held c\<close> the keys it keeps, \<open>room c\<close> its size limit (none when not positive).
\<close>

locale kv_cache =
  fixes inv :: "'c \<Rightarrow> bool"
    and get :: "instant \<Rightarrow> string \<Rightarrow> 'c \<Rightarrow> 'v option \<times> 'c"
    and st :: "instant \<Rightarrow> string \<Rightarrow> 'v \<Rightarrow> duration \<Rightarrow> 'c \<Rightarrow> (string \<times> 'v) list \<times> 'c"
    and clean :: "instant \<Rightarrow> 'c \<Rightarrow> (string \<times> 'v) list \<times> 'c"
    and look :: "'c \<Rightarrow> instant \<Rightarrow> string \<Rightarrow> 'v option"
    and held :: "'c \<Rightarrow> string set"
    and room :: "'c \<Rightarrow> int"
  assumes get_value: "inv c \<Longrightarrow> fst (get now k c) = look c now k"
    and get_inv: "inv c \<Longrightarrow> inv (snd (get now k c))"
    and get_look: "inv c \<Longrightarrow> look (snd (get now k c)) now' k' = look c now' k'"
    and get_held: "inv c \<Longrightarrow> held (snd (get now k c)) = held c \<and> room (snd (get now k c)) = room c"
    and st_inv: "inv c \<Longrightarrow> inv (snd (st now k v ttl c))"
    and st_look: "inv c \<Longrightarrow> ttl \<noteq> 0 \<Longrightarrow>
      look (snd (st now k v ttl c)) now' k = (if now' \<le> now + ttl then Some v else None)"
    and st_other: "inv c \<Longrightarrow> k' \<noteq> k \<Longrightarrow>
      look (snd (st now k v ttl c)) now' k' = look c now' k' \<or> look (snd (st now k v ttl c)) now' k' = None"
    and st_room: "inv c \<Longrightarrow> k' \<noteq> k \<Longrightarrow> room c \<le> 0 \<or> int (card (insert k (held c))) \<le> room c \<Longrightarrow>
      look (snd (st now k v ttl c)) now' k' = look c now' k'"
    and st_held: "inv c \<Longrightarrow> held (snd (st now k v ttl c)) \<subseteq> insert k (held c) \<and>
      room (snd (st now k v ttl c)) = room c"
    and clean_inv: "inv c \<Longrightarrow> inv (snd (clean now c))"
    and clean_look: "inv c \<Longrightarrow> now \<le> now' \<Longrightarrow> look (snd (clean now c)) now' k = look c now' k"
    and clean_held: "inv c \<Longrightarrow> held (snd (clean now c)) \<subseteq> held c \<and> room (snd (clean now c)) = room c"

definition cache_look :: "'v Cache \<Rightarrow> instant \<Rightarrow> string \<Rightarrow> 'v option" where
  "cache_look c now k =
     (case map_of (c_items c) k of None \<Rightarrow> None
      | Some e \<Rightarrow> if isExpired now e then None else Some (ce_Value e))"

definition cache_held :: "'v Cache \<Rightarrow> string set" where "cache_held c = fst ` set (c_items c)"

definition cache_room :: "'v Cache \<Rightarrow> int" where "cache_room c = cc_MaxRuntimeItems (c_config c)"

definition usable :: "('v items \<Rightarrow> 'v items) \<Rightarrow> 'v Cache \<Rightarrow> bool" where
  "usable rng c \<longleftrightarrow> cache_inv c \<and> map_order rng \<and> cc_EvictionPolicy (c_config c) \<noteq> EvictionLFU"

lemma Set_parts:
  assumes "usable rng c"
  obtains c1 where "cache_ok c1" "c_config c1 = c_config c"
    "\<And>k'. k' \<noteq> k \<Longrightarrow> map_of (c_items c1) k' = map_of (c_items c) k'"
    "fst ` set (c_items c1) = insert k (cache_held c)"
    "c_items (snd (Set rng now k v ttl c)) = c_items (snd (enforceMaxSize rng c1))"
    "c_config (snd (Set rng now k v ttl c)) = c_config c"
proof -
  define ex where "ex = now + (if ttl = 0 then cc_DefaultTTL (c_config c) else ttl)"
  obtain ev1 c1 where 1: "insert_entry now ex k v c = (ev1, c1)" by (cases "insert_entry now ex k v c")
  have ok: "cache_ok c" using assms by (simp add: usable_def cache_inv_def)
  have rng: "map_order rng" using assms by (simp add: usable_def)
  note i = insert_entry_correct [OF ok 1]
  have e: "enforceMaxSize rng c1 = (fst (enforceMaxSize rng c1), snd (enforceMaxSize rng c1))" by simp
  obtain x where "c_items c1 = put k x (c_items c)" using 1 by (auto simp: insert_entry_def Let_def)
  then have "fst ` set (c_items c1) = insert k (cache_held c)" by (simp add: cache_held_def)
  moreover have "c_items (snd (Set rng now k v ttl c)) = c_items (snd (enforceMaxSize rng c1))"
    "c_config (snd (Set rng now k v ttl c)) = c_config (snd (enforceMaxSize rng c1))"
    using 1 by (simp_all add: Set_def Let_def ex_def split: prod.splits)
  moreover have "c_config (snd (enforceMaxSize rng c1)) = c_config c"
    using enforceMaxSize_correct [OF i(1) rng e] i(2) by simp
  ultimately show ?thesis using that i by metis
qed

lemma cache_st_other:
  assumes u: "usable rng c" and k': "k' \<noteq> k"
  shows "cache_look (snd (Set rng now k v ttl c)) now' k' = cache_look c now' k' \<or>
    cache_look (snd (Set rng now k v ttl c)) now' k' = None"
    and "cache_room c \<le> 0 \<or> int (card (insert k (cache_held c))) \<le> cache_room c \<Longrightarrow>
      cache_look (snd (Set rng now k v ttl c)) now' k' = cache_look c now' k'"
    and "cache_held (snd (Set rng now k v ttl c)) \<subseteq> insert k (cache_held c) \<and>
      cache_room (snd (Set rng now k v ttl c)) = cache_room c"
proof -
  have rng: "map_order rng" using u by (simp add: usable_def)
  obtain c1 where c1: "cache_ok c1" "c_config c1 = c_config c"
    "\<And>k'. k' \<noteq> k \<Longrightarrow> map_of (c_items c1) k' = map_of (c_items c) k'"
    "fst ` set (c_items c1) = insert k (cache_held c)"
    "c_items (snd (Set rng now k v ttl c)) = c_items (snd (enforceMaxSize rng c1))"
    "c_config (snd (Set rng now k v ttl c)) = c_config c"
    using Set_parts [OF u, of k now v ttl] by metis
  have d: "distinct (keys (c_items c1))" using c1(1) by (simp add: cache_ok_def)
  obtain ev c2 where 2: "enforceMaxSize rng c1 = (ev, c2)" by (cases "enforceMaxSize rng c1")
  have sub: "map_of (c_items c2) k' = map_of (c_items c1) k' \<or> map_of (c_items c2) k' = None"
    using 2
  proof (cases rule: enforceMaxSize_cases)
    case (2 n)
    then show ?thesis using evict_by_correct(2) [OF d rng _ 2(2)] by (simp add: map_of_filter_keys)
  qed simp
  then show "cache_look (snd (Set rng now k v ttl c)) now' k' = cache_look c now' k' \<or>
      cache_look (snd (Set rng now k v ttl c)) now' k' = None"
    using c1(3) [OF k'] 2 by (auto simp: cache_look_def c1(5))
  show "cache_look (snd (Set rng now k v ttl c)) now' k' = cache_look c now' k'"
    if "cache_room c \<le> 0 \<or> int (card (insert k (cache_held c))) \<le> cache_room c"
  proof -
    have "card (fst ` set (c_items c1)) = length (c_items c1)"
      using d by (metis distinct_card length_map set_map)
    then have "c2 = c1" using 2 that c1(2,4)
      by (auto simp: enforceMaxSize_def Let_def cache_room_def split: if_splits)
    then show ?thesis using c1(3) [OF k'] 2 by (simp add: cache_look_def c1(5))
  qed
  obtain P where "c_items c2 = filter P (c_items c1)" using enforceMaxSize_correct [OF c1(1) rng 2] by blast
  then show "cache_held (snd (Set rng now k v ttl c)) \<subseteq> insert k (cache_held c) \<and>
      cache_room (snd (Set rng now k v ttl c)) = cache_room c"
    using c1(4) 2 by (auto simp: cache_held_def [of "snd (Set rng now k v ttl c)"] c1(5,6) cache_room_def)
qed

lemma usable_law:
  assumes "usable rng c" "op_law ins c res"
  shows "usable rng (snd res)" "cache_room (snd res) = cache_room c"
  using assms by (auto simp: usable_def op_law_def cache_room_def)

interpretation kv: kv_cache "usable rng" Get "Set rng" "cleanupExpiredItems rng" cache_look cache_held cache_room
proof (unfold_locales, goal_cases)
  case (1 c now k)
  show ?case by (auto simp: Get_def cache_look_def split: option.splits)
next
  case (2 c now k)
  then show ?case using Get_inv [of c now k] by (simp add: usable_def)
next
  case (3 c now k now' k')
  have "map_of (c_items (snd (Get now k c))) k' = map_of (c_items c) k' \<or>
     (\<exists>e e'. map_of (c_items (snd (Get now k c))) k' = Some e \<and> map_of (c_items c) k' = Some e' \<and>
        ce_Value e = ce_Value e' \<and> ce_ExpiresAt e = ce_ExpiresAt e')"
    by (auto simp: Get_def count_miss_def touch_def Let_def split: option.splits)
  then show ?case by (auto simp: cache_look_def isExpired_def)
next
  case (4 c now k)
  have "fst ` set (c_items (snd (Get now k c))) = fst ` set (c_items c)"
    by (auto simp: Get_def count_miss_def touch_def Let_def image_iff split: option.splits dest!: map_of_SomeD)
      force+
  then show ?case using 4 Get_inv(2) [of c now k] by (simp add: cache_held_def cache_room_def usable_def)
next
  case (5 c now k v ttl)
  then have "op_law [(k, v)] c (SetMany rng now [(k, v)] ttl c)"
    by (intro SetMany_law) (simp_all add: usable_def)
  with 5 show ?case unfolding Set_SetMany by (rule usable_law(1))
next
  case (6 c ttl now k v now')
  then show ?case using Set_newest [of c rng now k v ttl] by (auto simp: usable_def cache_look_def isExpired_def)
next
  case (7 c k' k now v ttl now')
  then show ?case by (rule cache_st_other(1))
next
  case (8 c k' k now v ttl now')
  then show ?case by (rule cache_st_other(2))
next
  case (9 c now k v ttl)
  obtain k' :: string where "k' \<noteq> k" using neq_Nil_conv by metis
  then show ?case using cache_st_other(3) [OF 9] by blast
next
  case (10 c now)
  then have "op_law [] c (cleanupExpiredItems rng now c)"
    by (intro cleanup_law) (simp_all add: usable_def)
  with 10 show ?case by (rule usable_law(1))
next
  case (11 c now now' k)
  then have "distinct (keys (c_items c))" by (simp add: usable_def cache_inv_def cache_ok_def)
  note live = map_of_filter_val [OF this, of "\<lambda>e. \<not> isExpired now e" k]
  show ?case using 11(2) live
    by (auto simp: cache_look_def cleanupExpiredItems_def Let_def isExpired_def split: option.splits)
next
  case (12 c now)
  then show ?case
    by (auto simp: cache_held_def cache_room_def cleanupExpiredItems_def Let_def)
qed

text \<open>Runs of the limiter; \<open>failures ip ops\<close> are the failure times recorded for \<open>ip\<close>.\<close>

datatype limiter_op = LimFail instant string | LimCheck instant string | LimClean instant

fun lim_time :: "limiter_op \<Rightarrow> instant" where
  "lim_time (LimFail t ip) = t" | "lim_time (LimCheck t ip) = t" | "lim_time (LimClean t) = t"

fun lim_step where
  "lim_step get st clean l (LimFail t ip) = ip_RecordFailure get st t ip l"
| "lim_step get st clean l (LimCheck t ip) = snd (IsRateLimited get t ip l)"
| "lim_step get st clean l (LimClean t) = l\<lparr>il_cache := snd (clean t (il_cache l))\<rparr>"

fun failures :: "string \<Rightarrow> limiter_op list \<Rightarrow> instant list" where
  "failures ip [] = []"
| "failures ip (LimFail t ip' # ops) = (if ip' = ip then t # failures ip ops else failures ip ops)"
| "failures ip (_ # ops) = failures ip ops"

fun failing :: "limiter_op list \<Rightarrow> string set" where
  "failing [] = {}"
| "failing (LimFail t ip # ops) = insert ip (failing ops)"
| "failing (_ # ops) = failing ops"

lemma failures_append [simp]: "failures ip (xs @ ys) = failures ip xs @ failures ip ys"
  by (induction ip xs rule: failures.induct) auto

lemma failing_append [simp]: "failing (xs @ ys) = failing xs \<union> failing ys"
  by (induction xs rule: failing.induct) auto

lemma finite_failing [simp]: "finite (failing ops)"
  by (induction ops rule: failing.induct) auto

lemma failures_times: "t \<in> set (failures ip ops) \<Longrightarrow> \<exists>op\<in>set ops. t = lim_time op"
  by (induction ip ops rule: failures.induct) (auto split: if_splits)

lemma sorted_failures: "sorted (map lim_time ops) \<Longrightarrow> sorted (failures ip ops)"
proof (induction ip ops rule: failures.induct)
  case (2 ip t ip' ops)
  then show ?case by (auto dest: failures_times)
qed auto

text \<open>What the entry of \<open>ip\<close> stands for at time \<open>now\<close>, after the failures \<open>fs\<close>: a ring of
  their last part; under \<open>exact\<close> nothing recent is missing from it.\<close>

definition entry_rep where
  "entry_rep exact n w fs now found \<longleftrightarrow>
     (case found of
        None \<Rightarrow> exact \<longrightarrow> (\<forall>t\<in>set fs. t + 2 * w < now)
      | Some r \<Rightarrow> (\<exists>old recent. fs = old @ recent \<and> ring_rep n r recent \<and>
          (exact \<longrightarrow> (\<forall>t\<in>set old. t + 2 * w < now))))"

lemma entry_rep_add:
  assumes "entry_rep exact n w fs t found" and "\<forall>x\<in>set fs. x \<le> t" and "0 < n" "0 \<le> w" and "t \<le> now'"
    and "ring = (case found of Some r \<Rightarrow> r | None \<Rightarrow> newFailureRing n)"
  shows "entry_rep exact n w (fs @ [t]) now' (if now' \<le> t + w * 2 then Some (fr_add t ring) else None)"
proof (cases "now' \<le> t + w * 2")
  case True
  obtain old recent where fs: "fs = old @ recent" "ring_rep n ring recent"
    "exact \<longrightarrow> (\<forall>x\<in>set old. x + 2 * w < t)"
  proof (cases found)
    case None
    show ?thesis
      by (rule that [of fs "[]"]) (use assms(1,3,6) None in \<open>auto simp: entry_rep_def ring_rep_new\<close>)
  next
    case (Some r)
    then show ?thesis using assms(1,6) that by (auto simp: entry_rep_def)
  qed
  have "fs @ [t] = old @ (recent @ [t])" "ring_rep n (fr_add t ring) (recent @ [t])"
    "exact \<longrightarrow> (\<forall>x\<in>set old. x + 2 * w < now')"
    using fs ring_rep_add assms(5) by auto
  with True show ?thesis by (auto simp: entry_rep_def)
next
  case False
  then show ?thesis using assms(2) by (fastforce simp: entry_rep_def)
qed

locale ring_cache = kv_cache inv get st clean look held room
  for inv :: "'c \<Rightarrow> bool"
    and get :: "instant \<Rightarrow> string \<Rightarrow> 'c \<Rightarrow> failureRing option \<times> 'c"
    and st :: "instant \<Rightarrow> string \<Rightarrow> failureRing \<Rightarrow> duration \<Rightarrow> 'c \<Rightarrow> (string \<times> failureRing) list \<times> 'c"
    and clean :: "instant \<Rightarrow> 'c \<Rightarrow> (string \<times> failureRing) list \<times> 'c"
    and look :: "'c \<Rightarrow> instant \<Rightarrow> string \<Rightarrow> failureRing option"
    and held :: "'c \<Rightarrow> string set"
    and room :: "'c \<Rightarrow> int"
begin

lemma limiter_run:
  assumes sorted: "sorted (map lim_time ops)" and "inv (il_cache l)" and "held (il_cache l) = {}"
    and "\<And>now ip. look (il_cache l) now ip = None"
    and "0 < il_ring l" "0 < il_window l"
    and exact: "exact \<longrightarrow> room (il_cache l) \<le> 0 \<or> int (card (failing ops)) \<le> room (il_cache l)"
  defines "l' \<equiv> foldl (lim_step get st clean) l ops"
  shows "inv (il_cache l') \<and> held (il_cache l') \<subseteq> failing ops \<and> room (il_cache l') = room (il_cache l) \<and>
    il_limit l' = il_limit l \<and> il_window l' = il_window l \<and> il_ring l' = il_ring l \<and>
    (\<forall>now ip. (\<forall>op\<in>set ops. lim_time op \<le> now) \<longrightarrow>
       entry_rep exact (il_ring l) (il_window l) (failures ip ops) now (look (il_cache l') now ip))"
  using sorted exact unfolding l'_def
proof (induction ops rule: rev_induct)
  case Nil
  then show ?case using assms(2-4) by (simp add: entry_rep_def)
next
  case (snoc op ops)
  let ?l = "foldl (lim_step get st clean) l ops"
  let ?c = "il_cache ?l"
  have "card (failing ops) \<le> card (failing (ops @ [op]))" by (intro card_mono) auto
  then have IH: "inv ?c" "held ?c \<subseteq> failing ops" "room ?c = room (il_cache l)"
    "il_limit ?l = il_limit l" "il_window ?l = il_window l" "il_ring ?l = il_ring l"
    "\<And>now ip. (\<forall>op\<in>set ops. lim_time op \<le> now) \<Longrightarrow>
       entry_rep exact (il_ring l) (il_window l) (failures ip ops) now (look ?c now ip)"
    using snoc.IH snoc.prems by (auto simp: sorted_append)
  have before: "\<forall>op'\<in>set ops. lim_time op' \<le> lim_time op" using snoc.prems(1) by (simp add: sorted_append)
  show ?case
  proof (cases op)
    case (LimCheck t ip)
    have "lim_step get st clean ?l op = ?l\<lparr>il_cache := snd (get t ip ?c)\<rparr>"
      by (simp add: LimCheck IsRateLimited_def Let_def split: prod.splits option.splits)
    then show ?thesis using IH get_inv get_look get_held by (auto simp: LimCheck)
  next
    case (LimClean t)
    have "held (snd (clean t ?c)) \<subseteq> failing ops" using clean_held [OF IH(1), of t] IH(2) by blast
    then show ?thesis
      using LimClean IH clean_inv [OF IH(1)] clean_look [OF IH(1)] clean_held [OF IH(1), of t] by auto
  next
    case (LimFail t ip)
    define c1 where "c1 = snd (get t ip ?c)"
    define ring where "ring = (case look ?c t ip of Some r \<Rightarrow> r | None \<Rightarrow> newFailureRing (il_ring l))"
    define c2 where "c2 = snd (st t ip (fr_add t ring) (il_window l * 2) c1)"
    have step: "lim_step get st clean ?l op = ?l\<lparr>il_cache := c2\<rparr>"
      using get_value [OF IH(1), of t ip]
      by (simp add: LimFail ip_RecordFailure_def Let_def c1_def c2_def ring_def IH(5,6) split_beta
          cong: option.case_cong)
    have c1: "inv c1" "held c1 = held ?c" "room c1 = room ?c" "\<And>now ip. look c1 now ip = look ?c now ip"
      using IH(1) get_inv get_held get_look by (auto simp: c1_def)
    have w: "il_window l * 2 \<noteq> 0" using assms(6) by simp
    have new: "entry_rep exact (il_ring l) (il_window l) (failures ip' (ops @ [op])) now (look c2 now ip')"
      if now: "\<forall>op'\<in>set (ops @ [op]). lim_time op' \<le> now" for now ip'
    proof (cases "ip' = ip")
      case True
      have "entry_rep exact (il_ring l) (il_window l) (failures ip ops @ [t]) now
          (if now \<le> t + il_window l * 2 then Some (fr_add t ring) else None)"
        by (rule entry_rep_add [OF IH(7)])
          (use before now failures_times assms(5,6) in \<open>fastforce simp: LimFail ring_def\<close>)+
      then show ?thesis using True st_look [OF c1(1) w] by (simp add: LimFail c2_def)
    next
      case False
      have rep: "entry_rep exact (il_ring l) (il_window l) (failures ip' ops) now (look c1 now ip')"
        using IH(7) [of now ip'] now c1(4) by simp
      show ?thesis
      proof (cases exact)
        case True
        have "card (insert ip (held c1)) \<le> card (failing (ops @ [op]))"
          by (intro card_mono) (use IH(2) c1(2) in \<open>auto simp: LimFail\<close>)
        then have "room c1 \<le> 0 \<or> int (card (insert ip (held c1))) \<le> room c1"
          using True snoc.prems(2) IH(3) c1(3) by auto
        with rep st_room [OF c1(1) False] show ?thesis using False by (simp add: LimFail c2_def)
      next
        case inexact: False
        from st_other [OF c1(1) False, of t "fr_add t ring" "il_window l * 2" now] show ?thesis
        proof
          assume "look (snd (st t ip (fr_add t ring) (il_window l * 2) c1)) now ip' = None"
          then show ?thesis using inexact by (simp add: c2_def entry_rep_def)
        qed (use rep False in \<open>simp add: LimFail c2_def\<close>)
      qed
    qed
    have "held c2 \<subseteq> failing (ops @ [op])" "room c2 = room ?c" "inv c2"
      using st_held [OF c1(1), of t ip "fr_add t ring" "il_window l * 2"] st_inv [OF c1(1)] IH(2) c1(2,3)
      unfolding c2_def LimFail by auto
    then show ?thesis using step new IH(3-6) by simp
  qed
qed

lemma limiter_decision:
  fixes l :: "'c IPRateLimiter" and ip :: string and now :: instant and ops :: "limiter_op list"
    and limited :: bool and recent :: nat
  assumes "sorted (map lim_time ops)" and "inv (il_cache l)" and "held (il_cache l) = {}"
    and "\<And>now ip. look (il_cache l) now ip = None"
    and "0 < il_limit l" "il_limit l \<le> int (il_ring l)" "0 < il_window l"
    and now: "\<forall>op\<in>set ops. lim_time op \<le> now"
  defines "limited \<equiv> fst (IsRateLimited get now ip (foldl (lim_step get st clean) l ops))"
    and "recent \<equiv> length (filter (\<lambda>t. now - il_window l \<le> t) (failures ip ops))"
  shows "(limited \<longrightarrow> il_limit l \<le> int recent) \<and>
    (room (il_cache l) \<le> 0 \<or> int (card (failing ops)) \<le> room (il_cache l) \<longrightarrow>
      (limited \<longleftrightarrow> il_limit l \<le> int recent))"
proof -
  define exact where "exact = (room (il_cache l) \<le> 0 \<or> int (card (failing ops)) \<le> room (il_cache l))"
  let ?l = "foldl (lim_step get st clean) l ops"
  have ring: "0 < il_ring l" using assms(5,6) by linarith
  note run = limiter_run [OF assms(1-4) ring assms(7), of exact]
  have inv: "inv (il_cache ?l)" "il_limit ?l = il_limit l" "il_window ?l = il_window l"
    using run by (auto simp: exact_def)
  have rep: "entry_rep exact (il_ring l) (il_window l) (failures ip ops) now (look (il_cache ?l) now ip)"
    using run now by (auto simp: exact_def)
  have lim: "limited \<longleftrightarrow> (case look (il_cache ?l) now ip of None \<Rightarrow> False
      | Some r \<Rightarrow> il_limit l \<le> int (countWithin now (il_window l) r))"
    using get_value [OF inv(1), of now ip] inv(2,3)
    by (auto simp: limited_def IsRateLimited_def Let_def split: prod.splits option.splits)
  have sorted: "sorted (failures ip ops)" by (rule sorted_failures [OF assms(1)])
  show ?thesis
  proof (cases "look (il_cache ?l) now ip")
    case None
    have "recent = 0" if exact
      using rep that assms(7) by (force simp: None entry_rep_def recent_def filter_empty_conv)
    then show ?thesis using lim None assms(5) by (auto simp: exact_def)
  next
    case (Some r)
    then obtain old new where fs: "failures ip ops = old @ new" "ring_rep (il_ring l) r new"
      "exact \<longrightarrow> (\<forall>t\<in>set old. t + 2 * il_window l < now)"
      using rep by (auto simp: entry_rep_def)
    let ?in = "\<lambda>ts. length (filter (\<lambda>t. now - il_window l \<le> t) ts)"
    have "sorted new" using sorted fs(1) by (simp add: sorted_append)
    then have "limited \<longleftrightarrow> nat (il_limit l) \<le> ?in new"
      using ring_rep_count [OF fs(2), of "nat (il_limit l)" now "il_window l"] lim Some assms(5,6)
      by (simp add: nat_le_iff)
    moreover have "recent = ?in old + ?in new" by (simp add: recent_def fs(1))
    moreover have "?in old = 0" if exact
      using fs(3) that assms(7) by (force simp: filter_empty_conv)
    ultimately show ?thesis by (auto simp: exact_def nat_le_iff)
  qed
qed

end

interpretation rl: ring_cache "usable rng" Get "Set rng" "cleanupExpiredItems rng" cache_look cache_held cache_room
  by (rule ring_cache.intro) (rule kv.kv_cache_axioms)

section \<open>The three tiers\<close>

record AuthDefenseConfig =
  ad_IPRateLimit :: int
  ad_IPRateWindow :: duration
  ad_IPMaxTracked :: int
  ad_IPRingSize :: int
  ad_TenantFailureThreshold :: int
  ad_TenantRecoveryTime :: duration
  ad_TenantHalfOpenMax :: int
  ad_TenantWindowDuration :: duration
  ad_TenantMaxTracked :: int
  ad_GlobalFailureThreshold :: int
  ad_GlobalRecoveryTime :: duration
  ad_GlobalHalfOpenMax :: int
  ad_GlobalWindowDuration :: duration
  ad_GCTriggerThreshold :: int

definition NewIPRateLimiter :: "AuthDefenseConfig \<Rightarrow> failureRing Cache IPRateLimiter" where
  "NewIPRateLimiter cfg =
     (let ringSize = max (ad_IPRingSize cfg) (ad_IPRateLimit cfg)
      in \<lparr>il_cache = NewCache \<lparr>cc_MaxRuntimeItems = ad_IPMaxTracked cfg,
            cc_DefaultTTL = ad_IPRateWindow cfg * 2, cc_EvictionPolicy = EvictionLRU, cc_OnEvict = False\<rparr>,
          il_limit = ad_IPRateLimit cfg, il_window = ad_IPRateWindow cfg, il_ring = nat ringSize\<rparr>)"

record DefenseMetrics =
  dm_TotalProcessed :: nat
  dm_TotalBlocked :: nat
  dm_RateLimitedIPs :: nat
  dm_CircuitBreakerOpens :: nat
  dm_GCTriggered :: nat

record AuthDefenseSystem =
  ds_config :: AuthDefenseConfig
  ds_ipRateLimiter :: "failureRing Cache IPRateLimiter"
  ds_tenantBreakers :: "CircuitBreaker Cache"
  ds_globalBreaker :: CircuitBreaker
  ds_Metrics :: DefenseMetrics
  ds_requestsSinceGC :: nat

definition NewAuthDefense :: "AuthDefenseConfig \<Rightarrow> instant \<Rightarrow> AuthDefenseSystem" where
  "NewAuthDefense cfg now =
     \<lparr>ds_config = cfg, ds_ipRateLimiter = NewIPRateLimiter cfg,
      ds_tenantBreakers = NewCache \<lparr>cc_MaxRuntimeItems = ad_TenantMaxTracked cfg,
        cc_DefaultTTL = ad_TenantRecoveryTime cfg * 10, cc_EvictionPolicy = EvictionLRU, cc_OnEvict = False\<rparr>,
      ds_globalBreaker = NewCircuitBreaker (ad_GlobalFailureThreshold cfg) (ad_GlobalRecoveryTime cfg)
        (ad_GlobalHalfOpenMax cfg) (ad_GlobalWindowDuration cfg) now,
      ds_Metrics = \<lparr>dm_TotalProcessed = 0, dm_TotalBlocked = 0, dm_RateLimitedIPs = 0,
        dm_CircuitBreakerOpens = 0, dm_GCTriggered = 0\<rparr>,
      ds_requestsSinceGC = 0\<rparr>"

text \<open>A tenant's breaker is one object shared with the cache: what a call does to it is seen by
  later lookups as long as its entry is kept.\<close>

definition store_breaker :: "string \<Rightarrow> CircuitBreaker \<Rightarrow> CircuitBreaker Cache \<Rightarrow> CircuitBreaker Cache" where
  "store_breaker tenantID cb c =
     c\<lparr>c_items := map (\<lambda>(k, e). if k = tenantID then (k, e\<lparr>ce_Value := cb\<rparr>) else (k, e)) (c_items c)\<rparr>"

definition getOrCreateTenantBreaker ::
    "(CircuitBreaker items \<Rightarrow> CircuitBreaker items) \<Rightarrow> instant \<Rightarrow> string \<Rightarrow> AuthDefenseSystem
     \<Rightarrow> CircuitBreaker \<times> AuthDefenseSystem" where
  "getOrCreateTenantBreaker rng now tenantID d =
     (case Get now tenantID (ds_tenantBreakers d) of
        (Some cb, c) \<Rightarrow> (cb, d\<lparr>ds_tenantBreakers := c\<rparr>)
      | (None, c) \<Rightarrow>
          (let cb = NewCircuitBreaker (ad_TenantFailureThreshold (ds_config d))
                 (ad_TenantRecoveryTime (ds_config d)) (ad_TenantHalfOpenMax (ds_config d))
                 (ad_TenantWindowDuration (ds_config d)) now;
               (_, c') = Set rng now tenantID cb (ad_TenantRecoveryTime (ds_config d) * 10) c
           in (cb, d\<lparr>ds_tenantBreakers := c'\<rparr>)))"

text \<open>A call on a tenant's breaker.\<close>

definition on_tenant ::
    "(CircuitBreaker items \<Rightarrow> CircuitBreaker items) \<Rightarrow> instant \<Rightarrow> string \<Rightarrow> (CircuitBreaker \<Rightarrow> 'a \<times> CircuitBreaker)
     \<Rightarrow> AuthDefenseSystem \<Rightarrow> 'a \<times> AuthDefenseSystem" where
  "on_tenant rng now tenantID f d =
     (let (cb, d1) = getOrCreateTenantBreaker rng now tenantID d; (r, cb') = f cb
      in (r, d1\<lparr>ds_tenantBreakers := store_breaker tenantID cb' (ds_tenantBreakers d1)\<rparr>))"

datatype block_reason = NotBlocked | IpRateLimited | TenantCircuitOpen | GlobalCircuitOpen

definition blocked :: "AuthDefenseSystem \<Rightarrow> AuthDefenseSystem" where
  "blocked d = d\<lparr>ds_Metrics := (ds_Metrics d)\<lparr>dm_TotalBlocked := dm_TotalBlocked (ds_Metrics d) + 1\<rparr>\<rparr>"

definition CheckRequest ::
    "(CircuitBreaker items \<Rightarrow> CircuitBreaker items) \<Rightarrow> instant \<Rightarrow> string \<Rightarrow> string \<Rightarrow> AuthDefenseSystem
     \<Rightarrow> (bool \<times> block_reason) \<times> AuthDefenseSystem" where
  "CheckRequest rng now ip tenantID d =
     (let d0 = d\<lparr>ds_Metrics := (ds_Metrics d)\<lparr>dm_TotalProcessed := dm_TotalProcessed (ds_Metrics d) + 1\<rparr>\<rparr>;
          (limited, lim) = IsRateLimited Get now ip (ds_ipRateLimiter d0);
          d1 = d0\<lparr>ds_ipRateLimiter := lim\<rparr>
      in if limited then
           let d2 = blocked d1 in
           ((False, IpRateLimited),
            d2\<lparr>ds_Metrics := (ds_Metrics d2)\<lparr>dm_RateLimitedIPs := dm_RateLimitedIPs (ds_Metrics d2) + 1\<rparr>\<rparr>)
         else
           let (tenantOK, d2) = (if tenantID \<noteq> [] then on_tenant rng now tenantID (Allow now) d1 else (True, d1))
           in if \<not> tenantOK then ((False, TenantCircuitOpen), blocked d2)
              else
                let (globalOK, g) = Allow now (ds_globalBreaker d2); d3 = d2\<lparr>ds_globalBreaker := g\<rparr>
                in if \<not> globalOK then ((False, GlobalCircuitOpen), blocked d3)
                   else ((True, NotBlocked), d3))"

definition count_open :: "bool \<Rightarrow> AuthDefenseSystem \<Rightarrow> AuthDefenseSystem" where
  "count_open opened d = (if opened
     then d\<lparr>ds_Metrics := (ds_Metrics d)\<lparr>dm_CircuitBreakerOpens := dm_CircuitBreakerOpens (ds_Metrics d) + 1\<rparr>\<rparr>
     else d)"

definition maybeGC :: "AuthDefenseSystem \<Rightarrow> AuthDefenseSystem" where
  "maybeGC d =
     (let cnt = ds_requestsSinceGC d + 1 in
      if int cnt \<ge> ad_GCTriggerThreshold (ds_config d)
      then d\<lparr>ds_requestsSinceGC := 0,
             ds_Metrics := (ds_Metrics d)\<lparr>dm_GCTriggered := dm_GCTriggered (ds_Metrics d) + 1\<rparr>\<rparr>
      else d\<lparr>ds_requestsSinceGC := cnt\<rparr>)"

text \<open>A failure on a breaker followed by the look at its state.\<close>

definition fail_breaker :: "instant \<Rightarrow> CircuitBreaker \<Rightarrow> bool \<times> CircuitBreaker" where
  "fail_breaker now cb = (let (s, cb') = cb_State now (cb_RecordFailure now cb) in (s = CircuitOpen, cb'))"

text \<open>\<open>RecordResult\<close> but for the audit aggregator it also tells.\<close>

definition RecordResult ::
    "(failureRing items \<Rightarrow> failureRing items) \<Rightarrow> (CircuitBreaker items \<Rightarrow> CircuitBreaker items) \<Rightarrow> instant \<Rightarrow>
     string \<Rightarrow> string \<Rightarrow> bool \<Rightarrow> AuthDefenseSystem \<Rightarrow> AuthDefenseSystem" where
  "RecordResult rrng rng now ip tenantID success d =
     (let d' = (if \<not> success then
            let d1 = d\<lparr>ds_ipRateLimiter := ip_RecordFailure Get (Set rrng) now ip (ds_ipRateLimiter d)\<rparr>;
                d2 = (if tenantID \<noteq> [] then
                        let (opened, d') = on_tenant rng now tenantID (fail_breaker now) d1 in count_open opened d'
                      else d1);
                (opened, g) = fail_breaker now (ds_globalBreaker d2)
            in count_open opened (d2\<lparr>ds_globalBreaker := g\<rparr>)
          else
            let d1 = (if tenantID \<noteq> [] then
                        snd (on_tenant rng now tenantID (\<lambda>cb. ((), cb_RecordSuccess now cb)) d)
                      else d)
            in d1\<lparr>ds_globalBreaker := cb_RecordSuccess now (ds_globalBreaker d1)\<rparr>)
      in maybeGC d')"

text \<open>What \<open>Middleware\<close> decides before it calls the next handler: the tenant is not known yet.\<close>

definition Middleware_admits ::
    "(CircuitBreaker items \<Rightarrow> CircuitBreaker items) \<Rightarrow> instant \<Rightarrow> string \<Rightarrow> AuthDefenseSystem \<Rightarrow> bool" where
  "Middleware_admits rng now ip d = fst (fst (CheckRequest rng now ip [] d))"

section \<open>Properties of the tiers\<close>

text \<open>C26: the per-address limit. Over any run of failures, checks and cleanups in time order, an
  address is limited only if at least \<open>IPRateLimit\<close> of its failures lie in the window; and when
  no more addresses fail than the cache may track, it is limited exactly then.\<close>

theorem ip_limit_exact:
  fixes cfg :: AuthDefenseConfig and ip :: string and now :: instant and ops :: "limiter_op list"
    and limited :: bool and recent :: int
  assumes "map_order rng" and "sorted (map lim_time ops)" and "\<forall>op\<in>set ops. lim_time op \<le> now"
    and "0 < ad_IPRateLimit cfg" and "0 < ad_IPRateWindow cfg"
  defines "limited \<equiv> fst (IsRateLimited Get now ip
      (foldl (lim_step Get (Set rng) (cleanupExpiredItems rng)) (NewIPRateLimiter cfg) ops))"
    and "recent \<equiv> int (length (filter (\<lambda>t. now - ad_IPRateWindow cfg \<le> t) (failures ip ops)))"
  shows "(limited \<longrightarrow> ad_IPRateLimit cfg \<le> recent) \<and>
    (ad_IPMaxTracked cfg \<le> 0 \<or> int (card (failing ops)) \<le> ad_IPMaxTracked cfg \<longrightarrow>
      (limited \<longleftrightarrow> ad_IPRateLimit cfg \<le> recent))"
proof -
  let ?l = "NewIPRateLimiter cfg"
  have u: "usable rng (il_cache ?l)"
    using assms(1) by (simp add: NewIPRateLimiter_def usable_def NewCache_def cache_inv_def cache_ok_def
        cache_bounded_def)
  have e: "cache_held (il_cache ?l) = {}" "cache_look (il_cache ?l) t k = None"
    "cache_room (il_cache ?l) = ad_IPMaxTracked cfg" for t k
    by (simp_all add: NewIPRateLimiter_def NewCache_def cache_held_def cache_look_def cache_room_def)
  have f: "il_limit ?l = ad_IPRateLimit cfg" "il_window ?l = ad_IPRateWindow cfg"
    "ad_IPRateLimit cfg \<le> int (il_ring ?l)"
    using assms(4) by (auto simp: NewIPRateLimiter_def max_def)
  have "0 < il_limit ?l" "il_limit ?l \<le> int (il_ring ?l)" "0 < il_window ?l" using f assms(4,5) by simp_all
  from rl.limiter_decision [where ip = ip, OF assms(2) u e(1,2) this assms(3)]
  show ?thesis unfolding limited_def recent_def e(3) f(1,2) .
qed

theorem ip_limit_exact_witness:
  "fst (IsRateLimited Get 7 ''10.0.0.1''
     (foldl (lim_step Get (Set rev) (cleanupExpiredItems rev))
       (NewIPRateLimiter \<lparr>ad_IPRateLimit = 2, ad_IPRateWindow = 5, ad_IPMaxTracked = 4, ad_IPRingSize = 2,
          ad_TenantFailureThreshold = 1, ad_TenantRecoveryTime = 1, ad_TenantHalfOpenMax = 1,
          ad_TenantWindowDuration = 1, ad_TenantMaxTracked = 1, ad_GlobalFailureThreshold = 1,
          ad_GlobalRecoveryTime = 1, ad_GlobalHalfOpenMax = 1, ad_GlobalWindowDuration = 1,
          ad_GCTriggerThreshold = 1\<rparr>)
       [LimFail 1 ''10.0.0.1'', LimFail 3 ''10.0.0.1'', LimFail 4 ''10.0.0.2'', LimFail 6 ''10.0.0.1'']))"
proof -
  let ?cfg = "\<lparr>ad_IPRateLimit = 2, ad_IPRateWindow = 5, ad_IPMaxTracked = 4, ad_IPRingSize = 2,
          ad_TenantFailureThreshold = 1, ad_TenantRecoveryTime = 1, ad_TenantHalfOpenMax = 1,
          ad_TenantWindowDuration = 1, ad_TenantMaxTracked = 1, ad_GlobalFailureThreshold = 1,
          ad_GlobalRecoveryTime = 1, ad_GlobalHalfOpenMax = 1, ad_GlobalWindowDuration = 1,
          ad_GCTriggerThreshold = 1\<rparr>"
  let ?ops = "[LimFail 1 ''10.0.0.1'', LimFail 3 ''10.0.0.1'', LimFail 4 ''10.0.0.2'', LimFail 6 ''10.0.0.1'']"
  have "failing ?ops = {''10.0.0.1'', ''10.0.0.2''}" by auto
  then have "int (card (failing ?ops)) \<le> ad_IPMaxTracked ?cfg" by simp
  with ip_limit_exact [of rev ?ops 7 ?cfg "''10.0.0.1''"]
  show ?thesis by (simp del: failing.simps lim_step.simps foldl.simps)
qed

lemma getOrCreateTenantBreaker_frame:
  assumes "ds_tenantBreakers d1 = ds_tenantBreakers d" "ds_config d1 = ds_config d"
  shows "fst (getOrCreateTenantBreaker rng now tenantID d1) = fst (getOrCreateTenantBreaker rng now tenantID d)"
    "ds_globalBreaker (snd (getOrCreateTenantBreaker rng now tenantID d1)) = ds_globalBreaker d1"
    "ds_Metrics (snd (getOrCreateTenantBreaker rng now tenantID d1)) = ds_Metrics d1"
  using assms by (auto simp: getOrCreateTenantBreaker_def Let_def split: prod.splits option.splits)

text \<open>The decision of \<open>CheckRequest\<close>. A request is allowed exactly when its address is not
  limited, the breaker of its tenant (if one is named) lets it pass, and so does the global
  breaker; the reason names the first tier that refuses; and the counters move accordingly.\<close>

theorem CheckRequest_decision:
  fixes d :: AuthDefenseSystem and limited tenantOK globalOK :: bool
  assumes "CheckRequest rng now ip tenantID d = ((allowed, reason), d')"
  defines "limited \<equiv> fst (IsRateLimited Get now ip (ds_ipRateLimiter d))"
    and "tenantOK \<equiv> tenantID = [] \<or> fst (Allow now (fst (getOrCreateTenantBreaker rng now tenantID d)))"
    and "globalOK \<equiv> fst (Allow now (ds_globalBreaker d))"
  shows "(allowed \<longleftrightarrow> \<not> limited \<and> tenantOK \<and> globalOK) \<and>
    reason = (if limited then IpRateLimited else if \<not> tenantOK then TenantCircuitOpen
      else if \<not> globalOK then GlobalCircuitOpen else NotBlocked) \<and>
    dm_TotalProcessed (ds_Metrics d') = dm_TotalProcessed (ds_Metrics d) + 1 \<and>
    dm_TotalBlocked (ds_Metrics d') = dm_TotalBlocked (ds_Metrics d) + (if allowed then 0 else 1)"
proof -
  define d1 where "d1 = d\<lparr>ds_Metrics := (ds_Metrics d)\<lparr>dm_TotalProcessed := dm_TotalProcessed (ds_Metrics d) + 1\<rparr>,
      ds_ipRateLimiter := snd (IsRateLimited Get now ip (ds_ipRateLimiter d))\<rparr>"
  define t where "t = (if tenantID \<noteq> [] then on_tenant rng now tenantID (Allow now) d1 else (True, d1))"
  have t: "fst t = tenantOK" "ds_globalBreaker (snd t) = ds_globalBreaker d" "ds_Metrics (snd t) = ds_Metrics d1"
    using getOrCreateTenantBreaker_frame [of d1 d rng now tenantID]
    by (auto simp: t_def tenantOK_def on_tenant_def split_beta Let_def d1_def)
  have "CheckRequest rng now ip tenantID d =
    (if limited then
       ((False, IpRateLimited), (blocked d1)\<lparr>ds_Metrics := (ds_Metrics (blocked d1))
          \<lparr>dm_RateLimitedIPs := dm_RateLimitedIPs (ds_Metrics (blocked d1)) + 1\<rparr>\<rparr>)
     else if \<not> fst t then ((False, TenantCircuitOpen), blocked (snd t))
     else let (globalOK, g) = Allow now (ds_globalBreaker (snd t)); d3 = (snd t)\<lparr>ds_globalBreaker := g\<rparr>
          in if \<not> globalOK then ((False, GlobalCircuitOpen), blocked d3) else ((True, NotBlocked), d3))"
    by (simp add: CheckRequest_def Let_def split_beta limited_def d1_def t_def)
  then show ?thesis using assms(1) t
    by (auto simp: blocked_def globalOK_def Let_def split_beta d1_def split: if_splits)
qed

theorem CheckRequest_decision_witness:
  "let d = (NewAuthDefense \<lparr>ad_IPRateLimit = 2, ad_IPRateWindow = 5, ad_IPMaxTracked = 4, ad_IPRingSize = 2,
          ad_TenantFailureThreshold = 1, ad_TenantRecoveryTime = 9, ad_TenantHalfOpenMax = 1,
          ad_TenantWindowDuration = 1, ad_TenantMaxTracked = 1, ad_GlobalFailureThreshold = 9,
          ad_GlobalRecoveryTime = 1, ad_GlobalHalfOpenMax = 1, ad_GlobalWindowDuration = 1,
          ad_GCTriggerThreshold = 9\<rparr> 0);
       d1 = RecordResult rev rev 1 ''10.0.0.1'' ''t1'' False d
   in fst (CheckRequest rev 2 ''10.0.0.1'' ''t1'' d1) = (False, TenantCircuitOpen) \<and>
      fst (Allow 2 (ds_globalBreaker d1))"
proof -
  let ?d = "NewAuthDefense \<lparr>ad_IPRateLimit = 2, ad_IPRateWindow = 5, ad_IPMaxTracked = 4, ad_IPRingSize = 2,
          ad_TenantFailureThreshold = 1, ad_TenantRecoveryTime = 9, ad_TenantHalfOpenMax = 1,
          ad_TenantWindowDuration = 1, ad_TenantMaxTracked = 1, ad_GlobalFailureThreshold = 9,
          ad_GlobalRecoveryTime = 1, ad_GlobalHalfOpenMax = 1, ad_GlobalWindowDuration = 1,
          ad_GCTriggerThreshold = 9\<rparr> 0"
  define d1 where "d1 = RecordResult rev rev 1 ''10.0.0.1'' ''t1'' False ?d"
  have r: "CheckRequest rev 2 ''10.0.0.1'' ''t1'' d1 =
    ((fst (fst (CheckRequest rev 2 ''10.0.0.1'' ''t1'' d1)), snd (fst (CheckRequest rev 2 ''10.0.0.1'' ''t1'' d1))),
     snd (CheckRequest rev 2 ''10.0.0.1'' ''t1'' d1))" by simp
  have "\<not> fst (IsRateLimited Get 2 ''10.0.0.1'' (ds_ipRateLimiter d1))" unfolding d1_def by code_simp
  moreover have "\<not> fst (Allow 2 (fst (getOrCreateTenantBreaker rev 2 ''t1'' d1)))" unfolding d1_def by code_simp
  moreover have "fst (Allow 2 (ds_globalBreaker d1))" unfolding d1_def by code_simp
  ultimately show ?thesis using CheckRequest_decision [OF r]
    by (simp add: d1_def [symmetric] prod_eq_iff)
qed

text \<open>The tenant tier never refuses a request of the HTTP middleware. Its only check is made
  with an empty tenant, so its answer does not depend on the tenants' breakers at all.\<close>

theorem middleware_ignores_tenant_breakers:
  "Middleware_admits rng now ip (d\<lparr>ds_tenantBreakers := c\<rparr>) = Middleware_admits rng now ip d"
  by (auto simp: Middleware_admits_def CheckRequest_def Let_def blocked_def split: prod.splits)

end
