(* ===== verification/Go_Calendar.thy ===== *)
theory Go_Calendar
  imports Cfgms_Prelude
begin

text \<open>
  The calendar part of Go's package \<open>time\<close>, as the maintenance schedules use it: the proleptic
  Gregorian calendar, weekdays, \<open>Date\<close> with its normalisation of months and days out of range,
  \<open>AddDate\<close>, the clock of an instant in a location, and \<open>Before\<close> and \<open>IsZero\<close>. Days are
  numbered from 1 January of year 1, which is Go's zero time and a Monday. A month is the
  number \<open>12 * year + (month - 1)\<close>, so that shifting months is addition.
\<close>

section \<open>Days, months and years\<close>

definition is_leap :: "int \<Rightarrow> bool" where
  "is_leap y \<longleftrightarrow> y mod 4 = 0 \<and> (y mod 100 \<noteq> 0 \<or> y mod 400 = 0)"

definition days_before_year :: "int \<Rightarrow> int" where
  "days_before_year y = 365 * (y - 1) + (y - 1) div 4 - (y - 1) div 100 + (y - 1) div 400"

definition days_before_month :: "bool \<Rightarrow> int \<Rightarrow> int" where
  "days_before_month leap m =
     [0, 31, 59, 90, 120, 151, 181, 212, 243, 273, 304, 334] ! nat m + (if leap \<and> 2 \<le> m then 1 else 0)"

definition month_first :: "int \<Rightarrow> int" where
  "month_first k = days_before_year (k div 12) + days_before_month (is_leap (k div 12)) (k mod 12)"

definition day_number :: "int \<Rightarrow> int \<Rightarrow> int \<Rightarrow> int" where
  "day_number y m d = month_first (12 * y + (m - 1)) + (d - 1)"

definition year_of :: "int \<Rightarrow> int" where
  "year_of n =
     (let y = (400 * n) div 146097
      in if days_before_year (y + 2) \<le> n then y + 2
         else if days_before_year (y + 1) \<le> n then y + 1 else y)"

definition month_of :: "int \<Rightarrow> int" where
  "month_of n =
     (let y = year_of n; yd = n - days_before_year y
      in 12 * y + int (length (takeWhile (\<lambda>m. days_before_month (is_leap y) m \<le> yd) [1..11])))"

definition weekday :: "int \<Rightarrow> int" where
  "weekday n = (n + 1) mod 7"

lemma mod_12_cases:
  fixes k :: int
  obtains "k mod 12 = 0" | "k mod 12 = 1" | "k mod 12 = 2" | "k mod 12 = 3" | "k mod 12 = 4"
    | "k mod 12 = 5" | "k mod 12 = 6" | "k mod 12 = 7" | "k mod 12 = 8" | "k mod 12 = 9"
    | "k mod 12 = 10" | "k mod 12 = 11"
proof -
  have "k mod 12 \<in> set [0..11]" by simp
  moreover have "[0..11] = [0, 1, 2, 3, 4, 5, 6, 7, 8, 9, 10, 11::int]" by code_simp
  ultimately show thesis using that by auto
qed

lemma div_bounds:
  fixes p d :: int
  assumes "0 < d"
  shows "d * (p div d) \<le> p" "p < d * (p div d) + d"
proof -
  have "p = d * (p div d) + p mod d" by simp
  moreover have "0 \<le> p mod d" "p mod d < d" using assms by simp_all
  ultimately show "d * (p div d) \<le> p" "p < d * (p div d) + d" by linarith+
qed

lemma div_pred:
  fixes y d :: int
  assumes "0 < d"
  shows "(y - 1) div d = y div d - (if y mod d = 0 then 1 else 0)"
proof -
  have y: "y = d * (y div d) + y mod d" by simp
  have r: "0 \<le> y mod d" "y mod d < d" using assms by simp_all
  show ?thesis
  proof (cases "y mod d = 0")
    case True
    then have "y - 1 = d * (y div d - 1) + (d - 1)" using y by (simp add: algebra_simps)
    then show ?thesis using int_div_pos_eq [of "y - 1" d "y div d - 1" "d - 1"] assms True by simp
  next
    case False
    then have "y - 1 = d * (y div d) + (y mod d - 1)" using y by linarith
    then show ?thesis using int_div_pos_eq [of "y - 1" d "y div d" "y mod d - 1"] r False by simp
  qed
qed

lemma days_before_year_Suc:
  "days_before_year (y + 1) = days_before_year y + (if is_leap y then 366 else 365)"
proof -
  have "4 dvd y" if "100 dvd y" using dvd_trans [of 4 100 y] that by simp
  moreover have "100 dvd y" if "400 dvd y" using dvd_trans [of 100 400 y] that by simp
  ultimately show ?thesis
    by (simp add: days_before_year_def is_leap_def div_pred mod_eq_0_iff_dvd)
qed

lemma div_mod_12_Suc:
  fixes k :: int
  shows "(k + 1) div 12 = (if k mod 12 = 11 then k div 12 + 1 else k div 12)"
    and "(k + 1) mod 12 = (if k mod 12 = 11 then 0 else k mod 12 + 1)"
proof -
  define q r where "q = k div 12" and "r = k mod 12"
  have k: "k = 12 * q + r" "0 \<le> r" "r < 12" by (simp_all add: q_def r_def)
  have "(k + 1) div 12 = (if r = 11 then q + 1 else q) \<and> (k + 1) mod 12 = (if r = 11 then 0 else r + 1)"
    using int_div_pos_eq [of "k + 1" 12 q "r + 1"] int_div_pos_eq [of "k + 1" 12 "q + 1" 0]
      int_mod_pos_eq [of "k + 1" 12 q "r + 1"] int_mod_pos_eq [of "k + 1" 12 "q + 1" 0] k
    by (cases "r = 11") simp_all
  then show "(k + 1) div 12 = (if k mod 12 = 11 then k div 12 + 1 else k div 12)"
    and "(k + 1) mod 12 = (if k mod 12 = 11 then 0 else k mod 12 + 1)"
    by (simp_all add: q_def r_def)
qed

lemma month_first_Suc:
  "month_first (k + 1) = month_first k +
     (if k mod 12 \<in> {3, 5, 8, 10} then 30
      else if k mod 12 = 1 then (if is_leap (k div 12) then 29 else 28) else 31)"
  by (rule mod_12_cases [of k])
    (simp_all add: month_first_def div_mod_12_Suc days_before_year_Suc days_before_month_def)

lemma month_length_bounds: "28 \<le> month_first (k + 1) - month_first k" "month_first (k + 1) - month_first k \<le> 31"
  by (simp_all add: month_first_Suc)

lemma month_first_mono: "k \<le> l \<Longrightarrow> month_first k \<le> month_first l"
proof (induction l rule: int_ge_induct)
  case (step i)
  then show ?case using month_length_bounds(1) [of i] by linarith
qed simp

lemma month_first_less: "k < l \<Longrightarrow> month_first k < month_first l"
  using month_first_mono [of "k + 1" l] month_length_bounds(1) [of k] by linarith

lemma month_unique:
  assumes "month_first k \<le> n" "n < month_first (k + 1)" "month_first l \<le> n" "n < month_first (l + 1)"
  shows "k = l"
proof (rule ccontr)
  assume "k \<noteq> l"
  then consider "k + 1 \<le> l" | "l + 1 \<le> k" by linarith
  then show False using assms month_first_mono by cases (meson leD order_trans)+
qed

lemma year_of_bounds: "days_before_year (year_of n) \<le> n" "n < days_before_year (year_of n + 1)"
proof -
  define y where "y = (400 * n) div 146097"
  have dby: "400 * days_before_year z \<le> 146097 * (z - 1) + 396"
    "146097 * (z - 1) - 699 \<le> 400 * days_before_year z" for z
  proof -
    define p where "p = z - 1"
    define a where "a = p div 4"
    define b where "b = p div 100"
    define c where "c = p div 400"
    have abc: "4 * a \<le> p" "p \<le> 4 * a + 3" "100 * b \<le> p" "p \<le> 100 * b + 99"
      "400 * c \<le> p" "p \<le> 400 * c + 399"
      using div_bounds [of 4 p] div_bounds [of 100 p] div_bounds [of 400 p]
      by (simp_all add: a_def b_def c_def)
    have z: "days_before_year z = 365 * p + a - b + c"
      by (simp add: days_before_year_def p_def a_def b_def c_def)
    show "400 * days_before_year z \<le> 146097 * (z - 1) + 396"
      using abc unfolding z p_def [symmetric] by simp
    show "146097 * (z - 1) - 699 \<le> 400 * days_before_year z"
      using abc unfolding z p_def [symmetric] by simp
  qed
  have y: "146097 * y \<le> 400 * n" "400 * n < 146097 * y + 146097" 
    using div_bounds [of 146097 "400 * n"] by (simp_all add: y_def)
  have "days_before_year y \<le> n" using dby(1) [of y] y(1) by simp
  moreover have "n < days_before_year (y + 3)" using dby(2) [of "y + 3"] y(2) by simp
  ultimately show "days_before_year (year_of n) \<le> n" "n < days_before_year (year_of n + 1)"
    by (simp_all add: year_of_def Let_def add.assoc flip: y_def)
qed

lemma month_of_bounds: "month_first (month_of n) \<le> n" "n < month_first (month_of n + 1)"
proof -
  define y where "y = year_of n"
  define yd where "yd = n - days_before_year y"
  define m where "m = int (length (takeWhile (\<lambda>m. days_before_month (is_leap y) m \<le> yd) [1..11]))"
  have k: "month_of n = 12 * y + m"
    by (simp add: month_of_def Let_def y_def yd_def m_def)
  have yd: "0 \<le> yd" "yd < (if is_leap y then 366 else 365)"
    using year_of_bounds [of n] days_before_year_Suc [of y] by (simp_all add: yd_def y_def)
  let ?P = "\<lambda>m. days_before_month (is_leap y) m \<le> yd"
  define t where "t = length (takeWhile ?P [1..11])"
  have mt: "m = int t" by (simp add: m_def t_def)
  have t: "t \<le> 11" using length_takeWhile_le [of ?P "[1..11]"] by (simp add: t_def)
  have "\<not> ?P ([1..11] ! t)" if "t < 11"
    unfolding t_def by (rule nth_length_takeWhile) (use that in \<open>simp add: t_def\<close>)
  then have above: "m < 11 \<Longrightarrow> yd < days_before_month (is_leap y) (m + 1)"
    using mt by (simp add: nth_upto add.commute)
  have "?P ([1..11] ! (t - 1))" if "0 < t"
  proof -
    let ?T = "takeWhile ?P [1..11]"
    have l: "t - 1 < length ?T" using that by (simp add: t_def)
    then have "?T ! (t - 1) \<in> set ?T" by (rule nth_mem)
    then have "?P (?T ! (t - 1))" by (blast dest: set_takeWhileD)
    then show ?thesis unfolding takeWhile_nth [OF l] .
  qed
  then have below: "?P m" if "0 < t" using that t mt by (simp add: nth_upto of_nat_diff)
  have "?P 0" using yd(1) by (simp add: days_before_month_def)
  then have m: "0 \<le> m" "m \<le> 11" "?P m" "m < 11 \<Longrightarrow> yd < days_before_month (is_leap y) (m + 1)"
    using below above t mt by (cases "t = 0"; simp)+
  have dm: "(12 * y + m) div 12 = y" "(12 * y + m) mod 12 = m"
    using int_div_pos_eq [of "12 * y + m" 12 y m] int_mod_pos_eq [of "12 * y + m" 12 y m] m(1,2) by linarith+
  note suc = div_mod_12_Suc [of "12 * y + m", unfolded dm]
  show "month_first (month_of n) \<le> n"
    using m(3) unfolding k month_first_def dm yd_def by simp
  show "n < month_first (month_of n + 1)"
  proof (cases "m = 11")
    case True
    then have "(12 * y + m + 1) div 12 = y + 1" "(12 * y + m + 1) mod 12 = 0" using suc by simp_all
    then show ?thesis using yd(2) by (simp add: k month_first_def days_before_month_def
        days_before_year_Suc yd_def split: if_splits)
  next
    case False
    then have "(12 * y + m + 1) div 12 = y" "(12 * y + m + 1) mod 12 = m + 1" using suc by simp_all
    then show ?thesis using m(2,4) False unfolding k month_first_def yd_def by simp
  qed
qed

lemma month_of_eq: "month_first k \<le> n \<Longrightarrow> n < month_first (k + 1) \<Longrightarrow> month_of n = k"
  using month_of_bounds month_unique by blast

lemma month_of_iff: "month_of n = k \<longleftrightarrow> month_first k \<le> n \<and> n < month_first (k + 1)"
  using month_of_eq month_of_bounds by blast

lemma weekday_range: "0 \<le> weekday n" "weekday n < 7"
  by (simp_all add: weekday_def)

lemma weekday_eq_iff: "weekday m = weekday n \<longleftrightarrow> (m - n) mod 7 = 0"
  by (simp add: weekday_def mod_eq_dvd_iff mod_eq_0_iff_dvd)

section \<open>Instants in a location\<close>

text \<open>
  A location (\<open>*time.Location\<close>) is its lookup function: for a number of seconds it gives the
  offset in force, and the first second and the end of the period with that offset. The time
  zone database is data outside the program, so a location is always an argument.
  \<open>time_Date\<close> follows the library: the offset found for the wall-clock reading is used, unless
  the instant it gives lies in another period, whose offset is then used.
\<close>

type_synonym Location = "int \<Rightarrow> int \<times> int \<times> int"

record Time =
  t_sec :: int
  t_nsec :: int
  t_loc :: Location

definition UTC :: Location where
  "UTC = (\<lambda>_. (0, - (2 ^ 63), 2 ^ 63 - 1))"

definition zero_time :: Time where
  "zero_time = \<lparr>t_sec = 0, t_nsec = 0, t_loc = UTC\<rparr>"

definition IsZero :: "Time \<Rightarrow> bool" where
  "IsZero t \<longleftrightarrow> t_sec t = 0 \<and> t_nsec t = 0"

definition time_Before :: "Time \<Rightarrow> Time \<Rightarrow> bool" where
  "time_Before t u \<longleftrightarrow> t_sec t < t_sec u \<or> t_sec t = t_sec u \<and> t_nsec t < t_nsec u"

definition In :: "Time \<Rightarrow> Location \<Rightarrow> Time" where
  "In t l = t\<lparr>t_loc := l\<rparr>"

definition local_secs :: "Time \<Rightarrow> int" where
  "local_secs t = t_sec t + fst (t_loc t (t_sec t))"

definition time_day :: "Time \<Rightarrow> int" where
  "time_day t = local_secs t div 86400"

definition time_Year :: "Time \<Rightarrow> int" where
  "time_Year t = month_of (time_day t) div 12"

definition time_Month :: "Time \<Rightarrow> int" where
  "time_Month t = month_of (time_day t) mod 12 + 1"

definition time_Day :: "Time \<Rightarrow> int" where
  "time_Day t = time_day t - month_first (month_of (time_day t)) + 1"

definition time_Weekday :: "Time \<Rightarrow> int" where
  "time_Weekday t = weekday (time_day t)"

definition time_Hour :: "Time \<Rightarrow> int" where
  "time_Hour t = local_secs t mod 86400 div 3600"

definition time_Minute :: "Time \<Rightarrow> int" where
  "time_Minute t = local_secs t mod 3600 div 60"

definition time_Second :: "Time \<Rightarrow> int" where
  "time_Second t = local_secs t mod 60"

definition time_Date :: "int \<Rightarrow> int \<Rightarrow> int \<Rightarrow> int \<Rightarrow> int \<Rightarrow> int \<Rightarrow> int \<Rightarrow> Location \<Rightarrow> Time" where
  "time_Date y m d h mi s ns l =
     (let u = day_number y m d * 86400 + h * 3600 + mi * 60 + s;
          (off, start, stop) = l u;
          utc = u - off;
          off' = (if off \<noteq> 0 \<and> (utc < start \<or> stop \<le> utc) then fst (l utc) else off)
      in \<lparr>t_sec = u - off', t_nsec = ns, t_loc = l\<rparr>)"

definition AddDate :: "Time \<Rightarrow> int \<Rightarrow> int \<Rightarrow> int \<Rightarrow> Time" where
  "AddDate t y m d =
     time_Date (time_Year t + y) (time_Month t + m) (time_Day t + d)
       (time_Hour t) (time_Minute t) (time_Second t) (t_nsec t) (t_loc t)"

text \<open>Zones with one offset; among them UTC.\<close>

definition fixed_zone :: "Location \<Rightarrow> int \<Rightarrow> bool" where
  "fixed_zone l off \<longleftrightarrow> (\<forall>u. fst (l u) = off)"

lemma fixed_zone_UTC [simp]: "fixed_zone UTC 0"
  by (simp add: fixed_zone_def UTC_def)

lemma fixed_zoneD: "fixed_zone l off \<Longrightarrow> fst (l u) = off"
  by (simp add: fixed_zone_def)

lemma day_number_shift:
  "day_number (time_Year t) (time_Month t) (time_Day t + d) = time_day t + d"
  by (simp add: day_number_def time_Year_def time_Month_def time_Day_def)

lemma day_number_today: "day_number (time_Year t) (time_Month t) (time_Day t) = time_day t"
  using day_number_shift [of t 0] by simp

lemma clock_sum:
  "time_day t * 86400 + time_Hour t * 3600 + time_Minute t * 60 + time_Second t = local_secs t"
proof -
  define x where "x = local_secs t"
  have "x mod 86400 mod 3600 = x mod 3600" "x mod 3600 mod 60 = x mod 60"
    by (simp_all add: mod_mod_cancel)
  moreover have "x mod 86400 = x mod 86400 div 3600 * 3600 + x mod 86400 mod 3600"
    "x mod 3600 = x mod 3600 div 60 * 60 + x mod 3600 mod 60" "x = x div 86400 * 86400 + x mod 86400"
    by (simp_all only: div_mult_mod_eq)
  ultimately show ?thesis
    unfolding time_day_def time_Hour_def time_Minute_def time_Second_def x_def [symmetric] by linarith
qed

lemma time_Date_fixed:
  assumes "fixed_zone l off"
  shows "t_sec (time_Date y m d h mi s ns l) = day_number y m d * 86400 + h * 3600 + mi * 60 + s - off"
    and "t_nsec (time_Date y m d h mi s ns l) = ns" and "t_loc (time_Date y m d h mi s ns l) = l"
  using assms by (simp_all add: time_Date_def Let_def fixed_zone_def split: prod.split)
    (metis fst_conv)+

lemma local_secs_fixed: "fixed_zone (t_loc t) off \<Longrightarrow> local_secs t = t_sec t + off"
  by (simp add: local_secs_def fixed_zoneD)

lemma time_Date_local:
  "fixed_zone l off \<Longrightarrow>
     local_secs (time_Date y m d h mi s ns l) = day_number y m d * 86400 + h * 3600 + mi * 60 + s"
  by (simp add: local_secs_fixed [of _ off] time_Date_fixed)

lemma time_day_Date:
  assumes "fixed_zone l off" "0 \<le> h * 3600 + mi * 60 + s" "h * 3600 + mi * 60 + s < 86400"
  shows "time_day (time_Date y m d h mi s ns l) = day_number y m d"
  using assms by (simp add: time_day_def time_Date_local add.assoc)

lemma AddDate_days_fixed:
  assumes "fixed_zone (t_loc t) off"
  shows "t_sec (AddDate t 0 0 d) = t_sec t + d * 86400" "t_loc (AddDate t 0 0 d) = t_loc t"
    "t_nsec (AddDate t 0 0 d) = t_nsec t" "time_day (AddDate t 0 0 d) = time_day t + d"
proof -
  have s: "t_sec (AddDate t 0 0 d) = t_sec t + d * 86400"
    using clock_sum [of t] local_secs_fixed [OF assms]
    by (simp add: AddDate_def time_Date_fixed [OF assms] day_number_shift)
  have l: "t_loc (AddDate t 0 0 d) = t_loc t" "t_nsec (AddDate t 0 0 d) = t_nsec t"
    by (simp_all add: AddDate_def time_Date_fixed [OF assms])
  have "local_secs (AddDate t 0 0 d) = local_secs t + d * 86400"
    using s l assms by (simp add: local_secs_fixed [of _ off])
  then show "time_day (AddDate t 0 0 d) = time_day t + d" by (simp add: time_day_def)
  show "t_sec (AddDate t 0 0 d) = t_sec t + d * 86400" "t_loc (AddDate t 0 0 d) = t_loc t"
    "t_nsec (AddDate t 0 0 d) = t_nsec t" by (rule s l)+
qed

lemma same_date_iff:
  "time_Year t = time_Year u \<and> time_Month t = time_Month u \<and> time_Day t = time_Day u \<longleftrightarrow>
     time_day t = time_day u"
  using day_number_today [of t] day_number_today [of u]
  by (metis time_Year_def time_Month_def time_Day_def)

end
