(* ===== verification/Schedule.thy ===== *)
theory Schedule
  imports Go_Calendar
begin

text \<open>
  The reboot windows of \<open>pkg/maintenance/schedule\<close> and the steward's gate over them
  (\<open>pkg/maintenance/providers/steward\<close>). The first part is \<open>types.go\<close>, \<open>evaluate.go\<close>,
  \<open>parse.go\<close>, \<open>validate.go\<close> and \<open>marshal.go\<close> function by function; then comes what a window
  means, as a set of days, and the lemmas that tie the two together. The YAML library, the
  time zone database (\<open>time.LoadLocation\<close>) and the host's zone are arguments.
\<close>

section \<open>Types (\<open>types.go\<close>)\<close>

type_synonym Freq = string

definition FreqMonthly :: Freq where "FreqMonthly = ''monthly''"

definition FreqWeekly :: Freq where "FreqWeekly = ''weekly''"

record TimeOfDay =
  Hour :: int
  Minute :: int
  EndOfDay :: bool

record Anchor =
  an_Weekday :: int
  an_Nth :: int

record Schedule =
  Freq :: Freq
  Weekday :: int
  Days :: "int list"
  Nth :: "int option"
  After :: "Anchor option"
  Before :: "Anchor option"
  Start :: TimeOfDay
  End :: TimeOfDay

record Config =
  Timezone :: string
  Schedules :: "Schedule list"

definition minutesSinceMidnight :: "TimeOfDay \<Rightarrow> int" where
  "minutesSinceMidnight t = (if EndOfDay t then 24 * 60 else Hour t * 60 + Minute t)"

section \<open>Evaluation (\<open>evaluate.go\<close>)\<close>

definition nthWeekdayOfMonth :: "int \<Rightarrow> int \<Rightarrow> int \<Rightarrow> int \<Rightarrow> Time" where
  "nthWeekdayOfMonth y m wd k =
     (let fst_day = time_Date y m 1 0 0 0 0 UTC;
          daysToFirst = go_rem (wd - time_Weekday fst_day + 7) 7
      in AddDate fst_day 0 0 (daysToFirst + (k - 1) * 7))"

definition lastWeekdayOfMonth :: "int \<Rightarrow> int \<Rightarrow> int \<Rightarrow> Time" where
  "lastWeekdayOfMonth y m wd =
     (let lastDay = AddDate (time_Date y (m + 1) 1 0 0 0 0 UTC) 0 0 (- 1);
          daysBack = go_rem (time_Weekday lastDay - wd + 7) 7
      in AddDate lastDay 0 0 (- daysBack))"

definition anchorDate :: "int \<Rightarrow> int \<Rightarrow> int \<Rightarrow> int \<Rightarrow> Time" where
  "anchorDate y m anchorWD anchorNth =
     (if anchorNth = - 1 then lastWeekdayOfMonth y m anchorWD
      else nthWeekdayOfMonth y m anchorWD anchorNth)"

definition weekdayAfterAnchor :: "int \<Rightarrow> int \<Rightarrow> int \<Rightarrow> int \<Rightarrow> int \<Rightarrow> Time" where
  "weekdayAfterAnchor y m wd anchorWD anchorNth =
     (let anchor = anchorDate y m anchorWD anchorNth
      in if wd = anchorWD then AddDate anchor 0 0 7
         else let daysAfter = go_rem (wd - time_Weekday anchor + 7) 7
              in AddDate anchor 0 0 (if daysAfter = 0 then 7 else daysAfter))"

definition weekdayBeforeAnchor :: "int \<Rightarrow> int \<Rightarrow> int \<Rightarrow> int \<Rightarrow> int \<Rightarrow> Time" where
  "weekdayBeforeAnchor y m wd anchorWD anchorNth =
     (let anchor = anchorDate y m anchorWD anchorNth
      in if wd = anchorWD then AddDate anchor 0 0 (- 7)
         else let daysBack = go_rem (time_Weekday anchor - wd + 7) 7
              in AddDate anchor 0 0 (- (if daysBack = 0 then 7 else daysBack)))"

definition sameDay :: "Time \<Rightarrow> Time \<Rightarrow> bool" where
  "sameDay a b \<longleftrightarrow>
     time_Year a = time_Year b \<and> time_Month a = time_Month b \<and> time_Day a = time_Day b"

definition shiftMonth :: "int \<Rightarrow> int \<Rightarrow> int \<Rightarrow> int \<times> int" where
  "shiftMonth y m delta =
     (let t = AddDate (time_Date y m 1 0 0 0 0 UTC) 0 delta 0 in (time_Year t, time_Month t))"

definition resolveMonthlyDate :: "int \<Rightarrow> int \<Rightarrow> Schedule \<Rightarrow> Time" where
  "resolveMonthlyDate y m s =
     (case Nth s of
        Some k \<Rightarrow>
          if k = - 1 then lastWeekdayOfMonth y m (Weekday s)
          else nthWeekdayOfMonth y m (Weekday s) k
      | None \<Rightarrow>
          (case After s of
             Some a \<Rightarrow> weekdayAfterAnchor y m (Weekday s) (an_Weekday a) (an_Nth a)
           | None \<Rightarrow>
               (case Before s of
                  Some a \<Rightarrow> weekdayBeforeAnchor y m (Weekday s) (an_Weekday a) (an_Nth a)
                | None \<Rightarrow> zero_time)))"

definition isMonthlyScheduledDay :: "Time \<Rightarrow> Schedule \<Rightarrow> bool" where
  "isMonthlyScheduledDay t s =
     (if time_Weekday t \<noteq> Weekday s then False
      else let y = time_Year t; m = time_Month t
           in if sameDay (resolveMonthlyDate y m s) t then True
              else if After s \<noteq> None
                then (let (py, pm) = shiftMonth y m (- 1) in sameDay (resolveMonthlyDate py pm s) t)
              else if Before s \<noteq> None
                then (let (ny, nm) = shiftMonth y m 1 in sameDay (resolveMonthlyDate ny nm s) t)
              else False)"

definition isScheduledDay :: "Time \<Rightarrow> Schedule \<Rightarrow> bool" where
  "isScheduledDay t s =
     (if Freq s = FreqWeekly then list_ex (\<lambda>d. time_Weekday t = d) (Days s)
      else if Freq s = FreqMonthly then isMonthlyScheduledDay t s
      else False)"

definition InWindow :: "Time \<Rightarrow> Schedule \<Rightarrow> bool" where
  "InWindow now s =
     (let nowMin = time_Hour now * 60 + time_Minute now;
          startMin = minutesSinceMidnight (Start s);
          endMin = minutesSinceMidnight (End s)
      in if startMin < endMin
         then (if nowMin < startMin \<or> endMin < nowMin then False else isScheduledDay now s)
         else if startMin \<le> nowMin then isScheduledDay now s
         else if nowMin \<le> endMin then isScheduledDay (AddDate now 0 0 (- 1)) s
         else False)"

text \<open>The loop of \<open>NextOccurrence\<close>, with the number of days still to look at.\<close>

fun search_days :: "nat \<Rightarrow> Time \<Rightarrow> Location \<Rightarrow> Schedule \<Rightarrow> Time" where
  "search_days 0 day l s = zero_time"
| "search_days (Suc n) day l s =
     (let candidate = time_Date (time_Year day) (time_Month day) (time_Day day)
            (Hour (Start s)) (Minute (Start s)) 0 0 l
      in if isScheduledDay candidate s then candidate
         else search_days n (AddDate day 0 0 1) l s)"

definition NextOccurrence :: "Time \<Rightarrow> Schedule \<Rightarrow> Time" where
  "NextOccurrence after s =
     (let todayStart = time_Date (time_Year after) (time_Month after) (time_Day after)
            (Hour (Start s)) (Minute (Start s)) 0 0 (t_loc after)
      in if \<not> time_Before todayStart after \<and> isScheduledDay todayStart s then todayStart
         else search_days 400 (AddDate after 0 0 1) (t_loc after) s)"

section \<open>Parsing (\<open>parse.go\<close>)\<close>

record rawAnchor =
  ra_Weekday :: string
  ra_Nth :: int

record rawSchedule =
  rs_Freq :: string
  rs_Weekday :: string
  rs_Days :: "string list"
  rs_Nth :: "int option"
  rs_After :: "rawAnchor option"
  rs_Before :: "rawAnchor option"
  rs_Start :: string
  rs_End :: string

record rawConfig =
  rc_Timezone :: string
  rc_Schedules :: "rawSchedule list"

text \<open>An error is its cause, with the index of the entry it is reported for.\<close>

datatype schedule_error =
    UnmarshalFailed | NoSchedules | InvalidTimezone string | ConfigNil
  | FreqRequired nat | InvalidFreq nat string | MutuallyExclusive nat
  | NthOnlyMonthly nat | AfterOnlyMonthly nat | BeforeOnlyMonthly nat | AnchorOnlyMonthly nat
  | DaysRequired nat | DaysOnlyWeekly nat | AnchorRequired nat
  | InvalidStart nat string | InvalidEnd nat string | InvalidDay nat string
  | InvalidWeekday nat string | InvalidAfterWeekday nat string | InvalidBeforeWeekday nat string

text \<open>A warning is the values its message prints: start, end and the date of the gap.\<close>

datatype dst_warning = DstGap int int int int int int int

definition parseTimeOfDay :: "string \<Rightarrow> bool \<Rightarrow> TimeOfDay option" where
  "parseTimeOfDay s allowEndOfDay =
     (if s = [] then None
      else if allowEndOfDay \<and> s = ''24:00'' then Some \<lparr>Hour = 0, Minute = 0, EndOfDay = True\<rparr>
      else (case Cut s (CHR '':'') of
              (_, None) \<Rightarrow> None
            | (hs, Some ms) \<Rightarrow>
                (case Atoi hs of
                   None \<Rightarrow> None
                 | Some h \<Rightarrow>
                     if h < 0 \<or> 23 < h then None
                     else (case Atoi ms of
                             None \<Rightarrow> None
                           | Some m \<Rightarrow>
                               if m < 0 \<or> 59 < m then None
                               else Some \<lparr>Hour = h, Minute = m, EndOfDay = False\<rparr>))))"

definition parseWeekday :: "string \<Rightarrow> int option" where
  "parseWeekday s =
     (let w = ToLower (TrimSpace s)
      in if w = ''sunday'' then Some 0
         else if w = ''monday'' then Some 1
         else if w = ''tuesday'' then Some 2
         else if w = ''wednesday'' then Some 3
         else if w = ''thursday'' then Some 4
         else if w = ''friday'' then Some 5
         else if w = ''saturday'' then Some 6
         else None)"

definition scan_dates :: "(int \<times> int \<times> int) list" where
  "scan_dates =
     [(year, month, day). year \<leftarrow> [2025..2035], month \<leftarrow> [1..12],
        day \<leftarrow> [1..time_Day (AddDate (time_Date year (month + 1) 1 0 0 0 0 UTC) 0 0 (- 1))]]"

definition in_gap :: "Schedule \<Rightarrow> Location \<Rightarrow> int \<times> int \<times> int \<Rightarrow> bool" where
  "in_gap s l = (\<lambda>(year, month, day).
     let ts = time_Date year month day (Hour (Start s)) (Minute (Start s)) 0 0 l;
         te = time_Date year month day (Hour (End s)) (Minute (End s)) 0 0 l;
         startSkipped = (time_Hour ts \<noteq> Hour (Start s) \<or> time_Minute ts \<noteq> Minute (Start s));
         endSkipped = (time_Hour te \<noteq> Hour (End s) \<or> time_Minute te \<noteq> Minute (End s))
     in startSkipped \<and> endSkipped)"

definition dstWarning :: "Schedule \<Rightarrow> Location \<Rightarrow> dst_warning option" where
  "dstWarning s l =
     (case find (in_gap s l) scan_dates of
        None \<Rightarrow> None
      | Some (year, month, day) \<Rightarrow>
          Some (DstGap (Hour (Start s)) (Minute (Start s)) (Hour (End s)) (Minute (End s)) year month day))"

definition parseFreq :: "nat \<Rightarrow> string \<Rightarrow> schedule_error + Freq" where
  "parseFreq idx f =
     (let w = ToLower f
      in if w = ''monthly'' then Inr FreqMonthly
         else if w = ''weekly'' then Inr FreqWeekly
         else if w = [] then Inl (FreqRequired idx)
         else Inl (InvalidFreq idx f))"

definition count_set :: "'a option \<Rightarrow> nat" where
  "count_set x = (if x = None then 0 else 1)"

text \<open>The rules on which of \<open>nth\<close>, \<open>after\<close>, \<open>before\<close> and \<open>days\<close> may be present.\<close>

definition check_scope :: "nat \<Rightarrow> rawSchedule \<Rightarrow> Freq \<Rightarrow> schedule_error option" where
  "check_scope idx rs freq =
     (let anchorCount = count_set (rs_Nth rs) + count_set (rs_After rs) + count_set (rs_Before rs)
      in if 1 < anchorCount then Some (MutuallyExclusive idx)
         else if freq = FreqWeekly \<and> rs_Nth rs \<noteq> None then Some (NthOnlyMonthly idx)
         else if freq = FreqWeekly \<and> rs_After rs \<noteq> None then Some (AfterOnlyMonthly idx)
         else if freq = FreqWeekly \<and> rs_Before rs \<noteq> None then Some (BeforeOnlyMonthly idx)
         else if freq = FreqWeekly \<and> rs_Days rs = [] then Some (DaysRequired idx)
         else if freq = FreqMonthly \<and> rs_Days rs \<noteq> [] then Some (DaysOnlyWeekly idx)
         else if freq = FreqMonthly \<and> anchorCount = 0 then Some (AnchorRequired idx)
         else None)"

definition or_err :: "'e \<Rightarrow> 'a option \<Rightarrow> 'e + 'a" where
  "or_err e x = (case x of None \<Rightarrow> Inl e | Some a \<Rightarrow> Inr a)"

text \<open>The day selector of the entry under construction: the second \<open>switch freq\<close>.\<close>

definition set_days :: "nat \<Rightarrow> rawSchedule \<Rightarrow> Schedule \<Rightarrow> schedule_error + Schedule" where
  "set_days idx rs s =
     (if Freq s = FreqWeekly
      then bindE (mapE (\<lambda>d. or_err (InvalidDay idx d) (parseWeekday d)) (rs_Days rs))
             (\<lambda>days. Inr (s\<lparr>Days := days\<rparr>))
      else bindE (or_err (InvalidWeekday idx (rs_Weekday rs)) (parseWeekday (rs_Weekday rs))) (\<lambda>wd.
        let s = s\<lparr>Weekday := wd\<rparr>
        in case rs_Nth rs of
             Some k \<Rightarrow> Inr (s\<lparr>Nth := Some k\<rparr>)
           | None \<Rightarrow>
               (case rs_After rs of
                  Some a \<Rightarrow>
                    bindE (or_err (InvalidAfterWeekday idx (ra_Weekday a)) (parseWeekday (ra_Weekday a)))
                      (\<lambda>w. Inr (s\<lparr>After := Some \<lparr>an_Weekday = w, an_Nth = ra_Nth a\<rparr>\<rparr>))
                | None \<Rightarrow>
                    (case rs_Before rs of
                       Some a \<Rightarrow>
                         bindE (or_err (InvalidBeforeWeekday idx (ra_Weekday a)) (parseWeekday (ra_Weekday a)))
                           (\<lambda>w. Inr (s\<lparr>Before := Some \<lparr>an_Weekday = w, an_Nth = ra_Nth a\<rparr>\<rparr>))
                     | None \<Rightarrow> Inr s))))"

definition new_schedule :: "Freq \<Rightarrow> TimeOfDay \<Rightarrow> TimeOfDay \<Rightarrow> Schedule" where
  "new_schedule freq start stop =
     \<lparr>Freq = freq, Weekday = 0, Days = [], Nth = None, After = None, Before = None,
      Start = start, End = stop\<rparr>"

definition validateSchedule ::
    "nat \<Rightarrow> rawSchedule \<Rightarrow> Location option \<Rightarrow> schedule_error + Schedule \<times> dst_warning list" where
  "validateSchedule idx rs loc =
     bindE (parseFreq idx (rs_Freq rs)) (\<lambda>freq.
       case check_scope idx rs freq of
         Some e \<Rightarrow> Inl e
       | None \<Rightarrow>
           bindE (or_err (InvalidStart idx (rs_Start rs)) (parseTimeOfDay (rs_Start rs) False)) (\<lambda>start.
           bindE (or_err (InvalidEnd idx (rs_End rs)) (parseTimeOfDay (rs_End rs) True)) (\<lambda>stop.
           bindE (set_days idx rs (new_schedule freq start stop)) (\<lambda>s.
             Inr (s, case loc of
                       Some l \<Rightarrow>
                         if EndOfDay stop then []
                         else (case dstWarning s l of None \<Rightarrow> [] | Some w \<Rightarrow> [w])
                     | None \<Rightarrow> [])))))"

fun validateSchedules ::
    "nat \<Rightarrow> rawSchedule list \<Rightarrow> Location option \<Rightarrow> schedule_error + Schedule list \<times> dst_warning list" where
  "validateSchedules idx [] loc = Inr ([], [])"
| "validateSchedules idx (rs # rss) loc =
     bindE (validateSchedule idx rs loc) (\<lambda>(s, ws).
     bindE (validateSchedules (Suc idx) rss loc) (\<lambda>(ss, wss). Inr (s # ss, ws @ wss)))"

definition load_zone ::
    "(string \<Rightarrow> Location option) \<Rightarrow> string \<Rightarrow> schedule_error + Location option" where
  "load_zone LoadLocation tz =
     (if tz \<noteq> [] \<and> tz \<noteq> ''device''
      then (case LoadLocation tz of None \<Rightarrow> Inl (InvalidTimezone tz) | Some l \<Rightarrow> Inr (Some l))
      else Inr None)"

text \<open>\<open>Parse\<close> after the YAML library has filled in the raw structure.\<close>

definition parse_raw ::
    "(string \<Rightarrow> Location option) \<Rightarrow> rawConfig \<Rightarrow> schedule_error + Config \<times> dst_warning list" where
  "parse_raw LoadLocation raw =
     (if rc_Schedules raw = [] then Inl NoSchedules
      else bindE (load_zone LoadLocation (rc_Timezone raw)) (\<lambda>loc.
           bindE (validateSchedules 0 (rc_Schedules raw) loc) (\<lambda>(schedules, warnings).
             Inr (\<lparr>Timezone = rc_Timezone raw, Schedules = schedules\<rparr>, warnings))))"

definition Parse ::
    "('y \<Rightarrow> rawConfig option) \<Rightarrow> (string \<Rightarrow> Location option) \<Rightarrow> 'y \<Rightarrow>
     schedule_error + Config \<times> dst_warning list" where
  "Parse yaml_Unmarshal LoadLocation data =
     (case yaml_Unmarshal data of
        None \<Rightarrow> Inl UnmarshalFailed
      | Some raw \<Rightarrow> parse_raw LoadLocation raw)"

section \<open>Validation and marshalling (\<open>validate.go\<close>, \<open>marshal.go\<close>)\<close>

definition validateParsedSchedule :: "nat \<Rightarrow> Schedule \<Rightarrow> schedule_error option" where
  "validateParsedSchedule idx s =
     (let anchorCount = count_set (Nth s) + count_set (After s) + count_set (Before s)
      in if Freq s \<noteq> FreqMonthly \<and> Freq s \<noteq> FreqWeekly then Some (InvalidFreq idx (Freq s))
         else if Freq s = FreqWeekly \<and> Days s = [] then Some (DaysRequired idx)
         else if Freq s = FreqWeekly \<and> 0 < anchorCount then Some (AnchorOnlyMonthly idx)
         else if Freq s = FreqMonthly \<and> Days s \<noteq> [] then Some (DaysOnlyWeekly idx)
         else if Freq s = FreqMonthly \<and> anchorCount \<noteq> 1 then Some (AnchorRequired idx)
         else None)"

fun first_invalid :: "nat \<Rightarrow> Schedule list \<Rightarrow> schedule_error option" where
  "first_invalid i [] = None"
| "first_invalid i (s # ss) =
     (case validateParsedSchedule i s of Some e \<Rightarrow> Some e | None \<Rightarrow> first_invalid (Suc i) ss)"

definition Validate :: "(string \<Rightarrow> Location option) \<Rightarrow> Config option \<Rightarrow> schedule_error option" where
  "Validate LoadLocation cfg =
     (case cfg of
        None \<Rightarrow> Some ConfigNil
      | Some c \<Rightarrow>
          if Schedules c = [] then Some NoSchedules
          else (case load_zone LoadLocation (Timezone c) of
                  Inl e \<Rightarrow> Some e
                | Inr _ \<Rightarrow> first_invalid 0 (Schedules c)))"

definition weekdayName :: "int \<Rightarrow> string" where
  "weekdayName w =
     (if w = 0 then ''sunday'' else if w = 1 then ''monday'' else if w = 2 then ''tuesday''
      else if w = 3 then ''wednesday'' else if w = 4 then ''thursday'' else if w = 5 then ''friday''
      else if w = 6 then ''saturday'' else ''unknown('' @ Itoa w @ '')'')"

definition formatTimeOfDay :: "TimeOfDay \<Rightarrow> string" where
  "formatTimeOfDay t =
     (if EndOfDay t then ''24:00'' else fmt02 (Hour t) @ CHR '':'' # fmt02 (Minute t))"

definition toRawAnchor :: "Anchor \<Rightarrow> rawAnchor" where
  "toRawAnchor a = \<lparr>ra_Weekday = weekdayName (an_Weekday a), ra_Nth = an_Nth a\<rparr>"

definition toRawSchedule :: "Schedule \<Rightarrow> rawSchedule" where
  "toRawSchedule s =
     (let rs = \<lparr>rs_Freq = Freq s, rs_Weekday = [], rs_Days = [], rs_Nth = None, rs_After = None,
            rs_Before = None, rs_Start = formatTimeOfDay (Start s), rs_End = formatTimeOfDay (End s)\<rparr>
      in if Freq s = FreqWeekly then rs\<lparr>rs_Days := map weekdayName (Days s)\<rparr>
         else if Freq s = FreqMonthly
         then (let rs = rs\<lparr>rs_Weekday := weekdayName (Weekday s)\<rparr>
               in case Nth s of
                    Some k \<Rightarrow> rs\<lparr>rs_Nth := Some k\<rparr>
                  | None \<Rightarrow>
                      (case After s of
                         Some a \<Rightarrow> rs\<lparr>rs_After := Some (toRawAnchor a)\<rparr>
                       | None \<Rightarrow>
                           (case Before s of
                              Some a \<Rightarrow> rs\<lparr>rs_Before := Some (toRawAnchor a)\<rparr>
                            | None \<Rightarrow> rs)))
         else rs)"

definition MarshalYAML :: "Config \<Rightarrow> rawConfig" where
  "MarshalYAML c = \<lparr>rc_Timezone = Timezone c, rc_Schedules = map toRawSchedule (Schedules c)\<rparr>"

definition UnmarshalYAML ::
    "('n \<Rightarrow> 'y option) \<Rightarrow> ('y \<Rightarrow> rawConfig option) \<Rightarrow> (string \<Rightarrow> Location option) \<Rightarrow>
     'n \<Rightarrow> schedule_error + Config" where
  "UnmarshalYAML yaml_Marshal yaml_Unmarshal LoadLocation value =
     (case yaml_Marshal value of
        None \<Rightarrow> Inl UnmarshalFailed
      | Some data \<Rightarrow> bindE (Parse yaml_Unmarshal LoadLocation data) (\<lambda>(c, _). Inr c))"

section \<open>The gate (\<open>gate.go\<close>)\<close>

record Gate =
  g_cfg :: "Config option"
  g_loc :: Location
  g_deviceID :: string

definition resolveLocation ::
    "(string \<Rightarrow> Location option) \<Rightarrow> Location \<Rightarrow> string \<Rightarrow> Location option" where
  "resolveLocation LoadLocation Local tz =
     (if tz = [] \<or> tz = ''device'' then Some Local else LoadLocation tz)"

definition NewGate ::
    "(string \<Rightarrow> Location option) \<Rightarrow> Location \<Rightarrow> Config option \<Rightarrow> string \<Rightarrow> string \<Rightarrow> Gate option" where
  "NewGate LoadLocation Local window timezone deviceID =
     (case resolveLocation LoadLocation Local timezone of
        None \<Rightarrow> None
      | Some l \<Rightarrow> Some \<lparr>g_cfg = window, g_loc = l, g_deviceID = deviceID\<rparr>)"

definition CanReboot :: "Gate \<Rightarrow> Time \<Rightarrow> bool" where
  "CanReboot g clock =
     (case g_cfg g of
        None \<Rightarrow> True
      | Some c \<Rightarrow>
          if Schedules c = [] then True
          else list_ex (InWindow (In clock (g_loc g))) (Schedules c))"

fun earliest_start :: "Time \<Rightarrow> Time \<Rightarrow> Schedule list \<Rightarrow> Time" where
  "earliest_start now earliest [] = earliest"
| "earliest_start now earliest (s # ss) =
     (let nxt = NextOccurrence now s
      in if IsZero nxt then earliest_start now earliest ss
         else if IsZero earliest \<or> time_Before nxt earliest then earliest_start now nxt ss
         else earliest_start now earliest ss)"

definition NextWindow :: "Gate \<Rightarrow> Time \<Rightarrow> Time" where
  "NextWindow g clock =
     (case g_cfg g of
        None \<Rightarrow> zero_time
      | Some c \<Rightarrow>
          if Schedules c = [] then zero_time
          else earliest_start (In clock (g_loc g)) zero_time (Schedules c))"

end
