(* ===== verification/Schedule_Laws.thy ===== *)
theory Schedule_Laws
  imports Schedule
begin

text \<open>
  What a reboot window means, and that the evaluation code computes it. \<open>occurs\<close> counts
  weekdays within a month, \<open>opens\<close> is the set of days on which a schedule's window opens, both
  stated without the code's arithmetic. The lemmas go from single dates to days, windows, the
  next opening and the gate; then come parsing, validation and marshalling.
\<close>

named_theorems sched_simps \<open>what the date computations return, as day numbers\<close>

section \<open>The meaning of a schedule\<close>

definition count_weekday :: "int \<Rightarrow> int \<Rightarrow> int \<Rightarrow> nat" where
  "count_weekday w a b = length (filter (\<lambda>d. weekday d = w) [a..b])"

text \<open>\<open>occurs k w j n\<close>: day \<open>n\<close> of month \<open>k\<close> is its \<open>j\<close>-th \<open>w\<close>, its last one for \<open>j = -1\<close>.\<close>

definition occurs :: "int \<Rightarrow> int \<Rightarrow> int \<Rightarrow> int \<Rightarrow> bool" where
  "occurs k w j n \<longleftrightarrow>
     month_of n = k \<and> weekday n = w \<and>
     (if j = - 1 then count_weekday w (n + 1) (month_first (k + 1) - 1) = 0
      else int (count_weekday w (month_first k) n) = j)"

definition opens :: "Schedule \<Rightarrow> int \<Rightarrow> bool" where
  "opens s n \<longleftrightarrow>
     (if Freq s = FreqWeekly then weekday n \<in> set (Days s)
      else if Freq s = FreqMonthly then
        weekday n = Weekday s \<and>
        (case Nth s of
           Some j \<Rightarrow> occurs (month_of n) (Weekday s) j n
         | None \<Rightarrow>
             (case After s of
                Some a \<Rightarrow> list_ex (\<lambda>d. occurs (month_of d) (an_Weekday a) (an_Nth a) d) [n - 7..n - 1]
              | None \<Rightarrow>
                  (case Before s of
                     Some a \<Rightarrow> list_ex (\<lambda>d. occurs (month_of d) (an_Weekday a) (an_Nth a) d) [n + 1..n + 7]
                   | None \<Rightarrow> False)))
      else False)"

definition is_weekday :: "int \<Rightarrow> bool" where
  "is_weekday w \<longleftrightarrow> 0 \<le> w \<and> w < 7"

definition every_month :: "int \<Rightarrow> bool" where
  "every_month j \<longleftrightarrow> j = - 1 \<or> 1 \<le> j \<and> j \<le> 4"

definition is_clock :: "TimeOfDay \<Rightarrow> bool" where
  "is_clock t \<longleftrightarrow> 0 \<le> Hour t \<and> Hour t < 24 \<and> 0 \<le> Minute t \<and> Minute t < 60"

text \<open>
  \<open>wf_schedule\<close> is what \<open>Parse\<close> establishes of an entry, \<open>steady\<close> that its occurrences exist in
  every month.
\<close>

definition wf_schedule :: "Schedule \<Rightarrow> bool" where
  "wf_schedule s \<longleftrightarrow>
     is_clock (Start s) \<and> \<not> EndOfDay (Start s) \<and> is_clock (End s) \<and>
     (Freq s = FreqWeekly \<and> Days s \<noteq> [] \<and> list_all is_weekday (Days s) \<and>
        Nth s = None \<and> After s = None \<and> Before s = None \<or>
      Freq s = FreqMonthly \<and> Days s = [] \<and> is_weekday (Weekday s) \<and>
        count_set (Nth s) + count_set (After s) + count_set (Before s) = 1 \<and>
        pred_option (\<lambda>a. is_weekday (an_Weekday a)) (After s) \<and>
        pred_option (\<lambda>a. is_weekday (an_Weekday a)) (Before s))"

definition steady_anchors :: "Schedule \<Rightarrow> bool" where
  "steady_anchors s \<longleftrightarrow>
     pred_option (\<lambda>a. every_month (an_Nth a)) (After s) \<and>
     pred_option (\<lambda>a. every_month (an_Nth a)) (Before s)"

definition steady :: "Schedule \<Rightarrow> bool" where
  "steady s \<longleftrightarrow> steady_anchors s \<and> pred_option every_month (Nth s)"

section \<open>Counting weekdays\<close>

lemma weekday_mod: "is_weekday w \<Longrightarrow> weekday d = w \<longleftrightarrow> (d + 1 - w) mod 7 = 0"
  using mod_eq_dvd_iff [of "d + 1" 7 w] by (simp add: weekday_def is_weekday_def mod_eq_0_iff_dvd)

lemma count_weekday_div:
  assumes "is_weekday w" and "a \<le> b + 1"
  shows "int (count_weekday w a b) = (b + 1 - w) div 7 - (a - w) div 7"
proof -
  have "int (count_weekday w a (c - 1)) = (c - w) div 7 - (a - w) div 7" if "a \<le> c" for c
    using that
  proof (induction c rule: int_ge_induct)
    case base
    then show ?case by (simp add: count_weekday_def)
  next
    case (step c)
    have "(c + 1 - w) div 7 = (c - w) div 7 + (if (c + 1 - w) mod 7 = 0 then 1 else 0)"
      using div_pred [of 7 "c + 1 - w"] by simp
    moreover have "[a..c] = [a..c - 1] @ [c]" using step.hyps by (simp add: upto_rec2)
    ultimately show ?case using step.IH weekday_mod [OF assms(1), of c]
      by (auto simp: count_weekday_def)
  qed
  from this [of "b + 1"] show ?thesis using assms(2) by simp
qed

lemma first_weekday:
  assumes "is_weekday w"
  shows "F + (w - F - 1) mod 7 = 7 * ((F - w) div 7) + 6 + w"
proof -
  define x where "x = F + 1 - w"
  have "(- x) div 7 = - ((x - 1) div 7) - 1"
    using div_pred [of 7 x] zdiv_zminus1_eq_if [of 7 x] by simp
  moreover have "- x = 7 * ((- x) div 7) + (- x) mod 7" by simp
  ultimately have "(- x) mod 7 = 7 * ((x - 1) div 7) + 7 - x" by linarith
  moreover have "w - F - 1 = - x" "x - 1 = F - w" by (simp_all add: x_def)
  ultimately have "(w - F - 1) mod 7 = 7 * ((F - w) div 7) + 7 - x" by (simp only:)
  then show ?thesis by (simp add: x_def)
qed

lemma last_weekday:
  assumes "is_weekday w"
  shows "L - (L + 1 - w) mod 7 = 7 * ((L + 1 - w) div 7) + w - 1"
proof -
  have "L + 1 - w = 7 * ((L + 1 - w) div 7) + (L + 1 - w) mod 7" by simp
  then show ?thesis by linarith
qed

definition nth_day :: "int \<Rightarrow> int \<Rightarrow> int \<Rightarrow> int" where
  "nth_day k w j =
     (if j = - 1 then 7 * ((month_first (k + 1) - w) div 7) + w - 1
      else 7 * ((month_first k - w) div 7) + 6 + w + 7 * (j - 1))"

lemma weekday_nth_day:
  assumes "is_weekday w"
  shows "weekday (nth_day k w j) = w"
proof -
  have "nth_day k w j + 1 - w =
      7 * (if j = - 1 then (month_first (k + 1) - w) div 7 else (month_first k - w) div 7 + j)"
    by (simp add: nth_day_def algebra_simps)
  then show ?thesis using weekday_mod [OF assms] by simp
qed

lemma nth_day_in_month:
  assumes "is_weekday w" "every_month j"
  shows "month_first k \<le> nth_day k w j" "nth_day k w j < month_first (k + 1)"
    "month_of (nth_day k w j) = k"
proof -
  define F where "F = month_first k"
  define G where "G = month_first (k + 1)"
  have FG: "28 \<le> G - F" using month_length_bounds [of k] by (simp add: F_def G_def)
  define p where "p = (F - w) div 7"
  define q where "q = (G - w) div 7"
  have pq: "7 * p \<le> F - w" "F - w < 7 * p + 7" "7 * q \<le> G - w" "G - w < 7 * q + 7"
    unfolding p_def q_def by linarith+
  have n: "nth_day k w j = (if j = - 1 then 7 * q + w - 1 else 7 * p + 6 + w + 7 * (j - 1))"
    by (simp add: nth_day_def F_def G_def p_def q_def)
  show a: "month_first k \<le> nth_day k w j"
    using assms pq FG unfolding n F_def [symmetric] every_month_def is_weekday_def by auto
  show b: "nth_day k w j < month_first (k + 1)"
    using assms pq FG unfolding n G_def [symmetric] every_month_def is_weekday_def by auto
  show "month_of (nth_day k w j) = k" by (rule month_of_eq [OF a b])
qed

lemma occurs_iff:
  assumes "is_weekday w"
  shows "occurs (month_of n) w j n \<longleftrightarrow> n = nth_day (month_of n) w j"
proof (cases "weekday n = w")
  case True
  define F where "F = month_first (month_of n)"
  define G where "G = month_first (month_of n + 1)"
  have FG: "F \<le> n" "n < G" using month_of_bounds [of n] by (simp_all add: F_def G_def)
  obtain q where q: "n + 1 - w = 7 * q"
    using True weekday_mod [OF assms, of n] by (auto simp: mod_eq_0_iff_dvd elim: dvdE)
  have c1: "int (count_weekday w F n) = q - (F - w) div 7"
    using count_weekday_div [OF assms, of F n] FG q by simp
  have c2: "int (count_weekday w (n + 1) (G - 1)) = (G - w) div 7 - q"
    using count_weekday_div [OF assms, of "n + 1" "G - 1"] FG q by simp
  show ?thesis
    using True c1 c2 q unfolding occurs_def nth_day_def F_def [symmetric] G_def [symmetric]
    by (cases "j = - 1") (simp_all, linarith+)
next
  case False
  then show ?thesis using weekday_nth_day [OF assms, of "month_of n" j] by (auto simp: occurs_def)
qed

section \<open>The date computations\<close>

abbreviation month_index :: "int \<Rightarrow> int \<Rightarrow> int" where
  "month_index y m \<equiv> 12 * y + (m - 1)"

lemma month_index_of: "month_index (time_Year t) (time_Month t) = month_of (time_day t)"
  by (simp add: time_Year_def time_Month_def)

lemma first_of_month [sched_simps]:
  "time_day (time_Date y m 1 0 0 0 0 UTC) = month_first (month_index y m)"
  "t_loc (time_Date y m 1 0 0 0 0 UTC) = UTC"
  using time_day_Date [OF fixed_zone_UTC, of 0 0 0 y m 1 0] time_Date_fixed(3) [OF fixed_zone_UTC]
  by (simp_all add: day_number_def)

lemma AddDate_UTC [sched_simps]:
  "t_loc t = UTC \<Longrightarrow> time_day (AddDate t 0 0 d) = time_day t + d"
  "t_loc t = UTC \<Longrightarrow> t_loc (AddDate t 0 0 d) = UTC"
  using AddDate_days_fixed [of t 0 d] by simp_all

lemma days_between_weekdays:
  assumes "is_weekday w"
  shows "go_rem (w - weekday d + 7) 7 = (w - d - 1) mod 7" "go_rem (weekday d - w + 7) 7 = (d + 1 - w) mod 7"
proof -
  have "0 \<le> w - weekday d + 7" "0 \<le> weekday d - w + 7"
    using assms weekday_range [of d] unfolding is_weekday_def by linarith+
  moreover have "(w - (d + 1) mod 7 + 7) mod 7 = (w - d - 1) mod 7"
    by (metis add.commute diff_diff_eq mod_add_self2 mod_diff_right_eq)
  moreover have "((d + 1) mod 7 - w + 7) mod 7 = (d + 1 - w) mod 7"
    by (metis mod_add_self2 mod_diff_left_eq)
  ultimately show "go_rem (w - weekday d + 7) 7 = (w - d - 1) mod 7"
    "go_rem (weekday d - w + 7) 7 = (d + 1 - w) mod 7"
    by (simp_all add: weekday_def)
qed

lemma nthWeekdayOfMonth_day [sched_simps]:
  assumes "is_weekday w"
  shows "j \<noteq> - 1 \<Longrightarrow> time_day (nthWeekdayOfMonth y m w j) = nth_day (month_index y m) w j"
    "t_loc (nthWeekdayOfMonth y m w j) = UTC"
proof -
  let ?F = "month_first (month_index y m)"
  have "time_day (nthWeekdayOfMonth y m w j) = ?F + (w - ?F - 1) mod 7 + 7 * (j - 1)"
    by (simp add: nthWeekdayOfMonth_def Let_def sched_simps time_Weekday_def
        days_between_weekdays [OF assms])
  then show "j \<noteq> - 1 \<Longrightarrow> time_day (nthWeekdayOfMonth y m w j) = nth_day (month_index y m) w j"
    by (simp add: nth_day_def first_weekday [OF assms])
  show "t_loc (nthWeekdayOfMonth y m w j) = UTC"
    by (simp add: nthWeekdayOfMonth_def Let_def sched_simps)
qed

lemma lastWeekdayOfMonth_day [sched_simps]:
  assumes "is_weekday w"
  shows "time_day (lastWeekdayOfMonth y m w) = nth_day (month_index y m) w (- 1)"
    "t_loc (lastWeekdayOfMonth y m w) = UTC"
proof -
  let ?L = "month_first (month_index y m + 1) - 1"
  have "month_index y (m + 1) = month_index y m + 1" by simp
  then have "time_day (lastWeekdayOfMonth y m w) = ?L - (?L + 1 - w) mod 7"
    by (simp only: lastWeekdayOfMonth_def Let_def sched_simps time_Weekday_def
        days_between_weekdays [OF assms]) simp
  then show "time_day (lastWeekdayOfMonth y m w) = nth_day (month_index y m) w (- 1)"
    unfolding last_weekday [OF assms] by (simp add: nth_day_def)
  show "t_loc (lastWeekdayOfMonth y m w) = UTC"
    by (simp add: lastWeekdayOfMonth_def Let_def sched_simps)
qed

lemma anchorDate_day [sched_simps]:
  "is_weekday w \<Longrightarrow> time_day (anchorDate y m w j) = nth_day (month_index y m) w j"
  "is_weekday w \<Longrightarrow> t_loc (anchorDate y m w j) = UTC"
  by (simp_all add: anchorDate_def sched_simps)

lemma weekday_shift: "is_weekday w \<Longrightarrow> weekday (d + (w - d - 1) mod 7) = w"
  "is_weekday w \<Longrightarrow> weekday (d - (d + 1 - w) mod 7) = w"
  unfolding first_weekday [of w d] last_weekday [of w d] using weekday_mod [of w] by simp_all

lemma week_unique:
  assumes "weekday m = weekday n" "d < m" "m \<le> d + 7" "d < n" "n \<le> d + 7"
  shows "m = n"
proof -
  have "7 dvd m - n" using assms(1) weekday_eq_iff [of m n] by (simp add: mod_eq_0_iff_dvd)
  then obtain q where "m - n = 7 * q" by (elim dvdE)
  then show ?thesis using assms(2-5) by presburger
qed

lemma weekdayAfterAnchor_day:
  fixes y m w aw j :: int
  assumes "is_weekday w" "is_weekday aw"
  defines "n \<equiv> time_day (weekdayAfterAnchor y m w aw j)" and "d \<equiv> nth_day (month_index y m) aw j"
  shows "d < n" "n \<le> d + 7" "weekday n = w"
proof -
  have aw: "weekday d = aw" unfolding d_def by (rule weekday_nth_day [OF assms(2)])
  define r where "r = (w - d - 1) mod 7"
  have r: "0 \<le> r" "r < 7" by (simp_all add: r_def)
  have n: "n = d + (if w = aw then 7 else if r = 0 then 7 else r)"
    unfolding n_def weekdayAfterAnchor_def Let_def
    using assms(2) by (simp add: sched_simps time_Weekday_def days_between_weekdays [OF assms(1)]
        r_def flip: d_def)
  have w: "weekday (d + r) = w" unfolding r_def by (rule weekday_shift(1) [OF assms(1)])
  then have "r = 0 \<Longrightarrow> w = aw" using aw by auto
  moreover have "weekday (d + 7) = weekday d" by (simp add: weekday_eq_iff)
  ultimately show "d < n" "n \<le> d + 7" "weekday n = w" using n r w aw by auto
qed

lemma weekdayBeforeAnchor_day:
  fixes y m w aw j :: int
  assumes "is_weekday w" "is_weekday aw"
  defines "n \<equiv> time_day (weekdayBeforeAnchor y m w aw j)" and "d \<equiv> nth_day (month_index y m) aw j"
  shows "n < d" "d \<le> n + 7" "weekday n = w"
proof -
  have aw: "weekday d = aw" unfolding d_def by (rule weekday_nth_day [OF assms(2)])
  define r where "r = (d + 1 - w) mod 7"
  have r: "0 \<le> r" "r < 7" by (simp_all add: r_def)
  have n: "n = d - (if w = aw then 7 else if r = 0 then 7 else r)"
    unfolding n_def weekdayBeforeAnchor_def Let_def
    using assms(2) by (simp add: sched_simps time_Weekday_def days_between_weekdays [OF assms(1)]
        r_def flip: d_def)
  have w: "weekday (d - r) = w" unfolding r_def by (rule weekday_shift(2) [OF assms(1)])
  then have "r = 0 \<Longrightarrow> w = aw" using aw by auto
  moreover have "weekday (d - 7) = weekday d" by (simp add: weekday_eq_iff)
  ultimately show "n < d" "d \<le> n + 7" "weekday n = w" using n r w aw by auto
qed

lemma sameDay_iff [sched_simps]: "sameDay a b \<longleftrightarrow> time_day a = time_day b"
  by (simp add: sameDay_def same_date_iff)

lemma shiftMonth_index:
  assumes "shiftMonth y m \<delta> = (y', m')"
  shows "month_index y' m' = month_index y m + \<delta>"
proof -
  define f where "f = time_Date y m 1 0 0 0 0 UTC"
  define t where "t = AddDate f 0 \<delta> 0"
  have f: "time_day f = month_first (month_index y m)" "t_loc f = UTC"
    by (simp_all add: f_def sched_simps)
  have k: "month_of (month_first k) = k" for k
    by (rule month_of_eq) (use month_first_less [of k "k + 1"] in simp_all)
  have c: "time_Hour f = 0" "time_Minute f = 0" "time_Second f = 0"
    by (simp_all add: f_def time_Hour_def time_Minute_def time_Second_def
        time_Date_local [OF fixed_zone_UTC] mod_mult_eq)
  have "time_day t = day_number (time_Year f) (time_Month f + \<delta>) (time_Day f)"
    using f(2) by (simp add: t_def AddDate_def c time_day_Date [OF fixed_zone_UTC])
  also have "\<dots> = month_first (month_index y m + \<delta>)"
    using month_index_of [of f] by (simp add: day_number_def time_Day_def f(1) k algebra_simps)
  finally have "month_of (time_day t) = month_index y m + \<delta>" by (simp add: k)
  moreover have "y' = time_Year t" "m' = time_Month t"
    using assms by (simp_all add: shiftMonth_def t_def f_def Let_def)
  ultimately show ?thesis by (simp add: month_index_of)
qed

section \<open>Days on which a window opens\<close>

lemma occurs_nth_day:
  "is_weekday w \<Longrightarrow> every_month j \<Longrightarrow> occurs (month_of (nth_day k w j)) w j (nth_day k w j)"
  using occurs_iff [of w "nth_day k w j" j] nth_day_in_month(3) [of w j k] by simp

lemma month_of_near:
  assumes "month_of d = k" "d < n" "n \<le> d + 7"
  shows "month_of n = k \<or> month_of n = k + 1"
proof (cases "n < month_first (k + 1)")
  case True
  then show ?thesis using assms month_of_bounds [of d] month_of_eq [of k n] by auto
next
  case False
  have "n < month_first (k + 1 + 1)"
    using assms month_of_bounds [of d] month_length_bounds(1) [of "k + 1"] by simp
  then show ?thesis using False month_of_eq [of "k + 1" n] by simp
qed

lemma after_iff:
  assumes w: "is_weekday w" "is_weekday aw" and j: "every_month j" and n: "weekday n = w"
    and k: "month_index y m = month_of n" "month_index y' m' = month_of n - 1"
  shows "list_ex (\<lambda>d. occurs (month_of d) aw j d) [n - 7..n - 1] \<longleftrightarrow>
    time_day (weekdayAfterAnchor y m w aw j) = n \<or> time_day (weekdayAfterAnchor y' m' w aw j) = n"
    (is "?L \<longleftrightarrow> ?R")
proof
  assume ?L
  then obtain d where d: "n - 7 \<le> d" "d < n" "d = nth_day (month_of d) aw j"
    by (auto simp: list_ex_iff occurs_iff [OF w(2)])
  have D: "time_day (weekdayAfterAnchor a b w aw j) = n" if "month_index a b = month_of d" for a b
    using week_unique [of _ n d] weekdayAfterAnchor_day [OF w, of a b j] n d that by simp
  have "month_of n = month_of d \<or> month_of n = month_of d + 1"
    using month_of_near [OF refl, of d n] d by simp
  then show ?R using D k by auto
next
  have "?L" if "time_day (weekdayAfterAnchor a b w aw j) = n" for a b
  proof -
    let ?d = "nth_day (month_index a b) aw j"
    have "?d < n" "n \<le> ?d + 7" using weekdayAfterAnchor_day [OF w, of a b j] that by simp_all
    then show ?L using occurs_nth_day [OF w(2) j, of "month_index a b"]
      unfolding list_ex_iff by (intro bexI [of _ ?d]) simp_all
  qed
  then show ?L if ?R using that by blast
qed

lemma before_iff:
  assumes w: "is_weekday w" "is_weekday aw" and j: "every_month j" and n: "weekday n = w"
    and k: "month_index y m = month_of n" "month_index y' m' = month_of n + 1"
  shows "list_ex (\<lambda>d. occurs (month_of d) aw j d) [n + 1..n + 7] \<longleftrightarrow>
    time_day (weekdayBeforeAnchor y m w aw j) = n \<or> time_day (weekdayBeforeAnchor y' m' w aw j) = n"
    (is "?L \<longleftrightarrow> ?R")
proof
  assume ?L
  then obtain d where d: "d \<le> n + 7" "n < d" "d = nth_day (month_of d) aw j"
    by (auto simp: list_ex_iff occurs_iff [OF w(2)])
  have D: "time_day (weekdayBeforeAnchor a b w aw j) = n" if "month_index a b = month_of d" for a b
    using week_unique [of _ n "d - 8"] weekdayBeforeAnchor_day [OF w, of a b j] n d that by simp
  have "month_of d = month_of n \<or> month_of d = month_of n + 1"
    using month_of_near [OF refl, of n d] d by simp
  then show ?R using D k by auto
next
  have "?L" if "time_day (weekdayBeforeAnchor a b w aw j) = n" for a b
  proof -
    let ?d = "nth_day (month_index a b) aw j"
    have "n < ?d" "?d \<le> n + 7" using weekdayBeforeAnchor_day [OF w, of a b j] that by simp_all
    then show ?L using occurs_nth_day [OF w(2) j, of "month_index a b"]
      unfolding list_ex_iff by (intro bexI [of _ ?d]) simp_all
  qed
  then show ?L if ?R using that by blast
qed

lemma count_set_one:
  assumes "count_set a + count_set b + count_set c = 1"
  obtains (1) x where "a = Some x" "b = None" "c = None"
    | (2) x where "a = None" "b = Some x" "c = None"
    | (3) x where "a = None" "b = None" "c = Some x"
  using assms by (cases a; cases b; cases c) (simp_all add: count_set_def)

lemma monthly_iff:
  assumes "wf_schedule s" "Freq s = FreqMonthly" "steady_anchors s"
  shows "isMonthlyScheduledDay t s \<longleftrightarrow> opens s (time_day t)"
proof (cases "weekday (time_day t) = Weekday s")
  case True
  define n where "n = time_day t"
  have f: "FreqMonthly \<noteq> FreqWeekly" by (simp add: FreqMonthly_def FreqWeekly_def)
  have w: "is_weekday (Weekday s)" and c: "count_set (Nth s) + count_set (After s) + count_set (Before s) = 1"
    using assms f by (auto simp: wf_schedule_def)
  have n: "weekday n = Weekday s" using True by (simp add: n_def)
  have k: "month_index (time_Year t) (time_Month t) = month_of n" by (simp add: month_index_of n_def)
  obtain py pm where p: "shiftMonth (time_Year t) (time_Month t) (- 1) = (py, pm)" by force
  obtain ny nm where q: "shiftMonth (time_Year t) (time_Month t) 1 = (ny, nm)" by force
  have pk: "month_index py pm = month_of n - 1" using shiftMonth_index [OF p] k by simp
  have qk: "month_index ny nm = month_of n + 1" using shiftMonth_index [OF q] k by simp
  from c show ?thesis
  proof (cases rule: count_set_one)
    case (1 j)
    have "isMonthlyScheduledDay t s \<longleftrightarrow> nth_day (month_of n) (Weekday s) j = n"
      using 1 w True k by (auto simp: isMonthlyScheduledDay_def resolveMonthlyDate_def Let_def
          sched_simps time_Weekday_def simp flip: n_def)
    then show ?thesis using 1 assms f n occurs_iff [OF w, of n j] by (auto simp: opens_def simp flip: n_def)
  next
    case (2 a)
    then have a: "is_weekday (an_Weekday a)" "every_month (an_Nth a)"
      using assms f by (auto simp: wf_schedule_def steady_anchors_def)
    have "isMonthlyScheduledDay t s \<longleftrightarrow> opens s n"
      using 2 True assms f n p after_iff [OF w a n k pk]
      by (simp add: isMonthlyScheduledDay_def resolveMonthlyDate_def Let_def sameDay_iff opens_def
          time_Weekday_def flip: n_def)
    then show ?thesis by (simp add: n_def)
  next
    case (3 a)
    then have a: "is_weekday (an_Weekday a)" "every_month (an_Nth a)"
      using assms f by (auto simp: wf_schedule_def steady_anchors_def)
    have "isMonthlyScheduledDay t s \<longleftrightarrow> opens s n"
      using 3 True assms f n q before_iff [OF w a n k qk]
      by (simp add: isMonthlyScheduledDay_def resolveMonthlyDate_def Let_def sameDay_iff opens_def
          time_Weekday_def flip: n_def)
    then show ?thesis by (simp add: n_def)
  qed
next
  case False
  moreover have "FreqMonthly \<noteq> FreqWeekly" by (simp add: FreqMonthly_def FreqWeekly_def)
  ultimately show ?thesis
    using assms(2) by (simp add: isMonthlyScheduledDay_def opens_def time_Weekday_def)
qed

lemma scheduled_iff:
  assumes "wf_schedule s" "steady_anchors s"
  shows "isScheduledDay t s \<longleftrightarrow> opens s (time_day t)"
proof (cases "Freq s = FreqWeekly")
  case True
  then show ?thesis by (auto simp: isScheduledDay_def opens_def list_ex_iff time_Weekday_def)
next
  case False
  then have "Freq s = FreqMonthly" using assms(1) by (auto simp: wf_schedule_def)
  with False show ?thesis using monthly_iff [OF assms(1) _ assms(2)] by (simp add: isScheduledDay_def)
qed

section \<open>Windows and the next opening, in a zone with one offset\<close>

lemma clock_minutes: "time_Hour t * 60 + time_Minute t = local_secs t mod 86400 div 60"
proof -
  define x where "x = local_secs t mod 86400"
  have m: "local_secs t mod 3600 = x mod 3600" by (simp add: x_def mod_mod_cancel)
  have "x div 60 = (x div 3600 * 3600 + x mod 3600) div 60" by simp
  also have "\<dots> = x div 3600 * 60 + x mod 3600 div 60"
    using div_mult_self3 [of 60 "x div 3600 * 60" "x mod 3600"] by (simp add: algebra_simps)
  finally show ?thesis by (simp add: time_Hour_def time_Minute_def m x_def)
qed

definition start_secs :: "Schedule \<Rightarrow> int" where
  "start_secs s = Hour (Start s) * 3600 + Minute (Start s) * 60"

lemma start_secs_range: "wf_schedule s \<Longrightarrow> 0 \<le> start_secs s" "wf_schedule s \<Longrightarrow> start_secs s < 86400"
  by (auto simp: wf_schedule_def is_clock_def start_secs_def)

text \<open>The start on the day of \<open>t\<close>: the candidate that \<open>NextOccurrence\<close> looks at.\<close>

abbreviation start_on :: "Time \<Rightarrow> Location \<Rightarrow> Schedule \<Rightarrow> Time" where
  "start_on t l s \<equiv> time_Date (time_Year t) (time_Month t) (time_Day t)
     (Hour (Start s)) (Minute (Start s)) 0 0 l"

lemma start_on_fixed:
  assumes "fixed_zone l off" "wf_schedule s"
  shows "t_sec (start_on t l s) = time_day t * 86400 + start_secs s - off"
    "t_nsec (start_on t l s) = 0" "t_loc (start_on t l s) = l"
    "time_day (start_on t l s) = time_day t"
  using start_secs_range [OF assms(2)]
  by (simp_all add: time_Date_fixed [OF assms(1)] day_number_today start_secs_def
      time_day_Date [OF assms(1)] add.assoc)

lemma search_days_fixed:
  assumes l: "fixed_zone l off" and s: "wf_schedule s" "steady_anchors s"
    and d: "t_loc day = l" and i: "i < N" "opens s (time_day day + int i)"
    and least: "\<forall>j<i. \<not> opens s (time_day day + int j)"
  shows "\<exists>t. t_loc t = l \<and> time_day t = time_day day + int i \<and> search_days N day l s = start_on t l s"
  using d i least
proof (induction N arbitrary: day i)
  case (Suc N)
  note sch = scheduled_iff [OF s] and st = start_on_fixed [OF l s(1)]
  show ?case
  proof (cases i)
    case 0
    then show ?thesis using Suc.prems by (auto simp: Let_def sch st intro!: exI [of _ day])
  next
    case (Suc i')
    let ?n = "AddDate day 0 0 1"
    have n: "t_loc ?n = l" "time_day ?n = time_day day + 1"
      using AddDate_days_fixed [of day off 1] l Suc.prems(1) by simp_all
    have "\<not> opens s (time_day day)" using Suc.prems(4) Suc by force
    then have e: "search_days (Suc N) day l s = search_days N ?n l s" by (simp add: Let_def sch st)
    have "\<not> opens s (time_day ?n + int j)" if "j < i'" for j
      using Suc.prems(4) [rule_format, of "Suc j"] that Suc n by (simp add: algebra_simps)
    moreover have "opens s (time_day ?n + int i')" "i' < N"
      using Suc.prems(2,3) Suc n by (simp_all add: algebra_simps)
    ultimately have "\<exists>t. t_loc t = l \<and> time_day t = time_day ?n + int i' \<and>
        search_days N ?n l s = start_on t l s"
      using Suc.IH [of ?n i'] n(1) by simp
    then show ?thesis unfolding e using n Suc by (simp add: algebra_simps)
  qed
qed simp

lemma opens_soon:
  assumes "wf_schedule s" "steady s"
  shows "\<exists>i<100. opens s (d + 1 + int i)"
proof -
  have f: "FreqMonthly \<noteq> FreqWeekly" by (simp add: FreqMonthly_def FreqWeekly_def)
  have "\<exists>n. d < n \<and> n \<le> d + 100 \<and> opens s n"
  proof (cases "Freq s = FreqWeekly")
    case True
    then obtain w where w: "w \<in> set (Days s)" "is_weekday w"
      using assms(1) f by (cases "Days s") (auto simp: wf_schedule_def)
    define r where "r = (w - (d + 1) - 1) mod 7"
    have "0 \<le> r" "r < 7" "weekday (d + 1 + r) = w"
      unfolding r_def by (simp_all only: weekday_shift(1) [OF w(2)] pos_mod_sign pos_mod_bound)
    then show ?thesis using w(1) True by (intro exI [of _ "d + 1 + r"]) (simp add: opens_def)
  next
    case False
    then have F: "Freq s = FreqMonthly" and w: "is_weekday (Weekday s)"
      and c: "count_set (Nth s) + count_set (After s) + count_set (Before s) = 1"
      using assms(1) by (auto simp: wf_schedule_def)
    define k where "k = month_of d"
    have d: "month_first k \<le> d" "d < month_first (k + 1)" by (simp_all add: k_def month_of_bounds)
    have len: "28 \<le> month_first (k + 2) - month_first (k + 1)" "month_first (k + 2) - month_first (k + 1) \<le> 31"
      "month_first (k + 3) - month_first (k + 2) \<le> 31" "month_first (k + 1) - month_first k \<le> 31"
      using month_length_bounds [of k] month_length_bounds [of "k + 1"] month_length_bounds [of "k + 2"]
      by (simp_all add: add.assoc)
    from c show ?thesis
    proof (cases rule: count_set_one)
      case (1 j)
      then have j: "every_month j" using assms(2) by (simp add: steady_def)
      let ?n = "nth_day (k + 1) (Weekday s) j"
      have "month_first (k + 1) \<le> ?n" "?n < month_first (k + 2)"
        using nth_day_in_month [OF w j, of "k + 1"] by (simp_all add: add.assoc)
      then show ?thesis using 1 d len F f occurs_nth_day [OF w j] weekday_nth_day [OF w]
        by (intro exI [of _ ?n]) (simp add: opens_def)
    next
      case (2 a)
      then have a: "is_weekday (an_Weekday a)" "every_month (an_Nth a)"
        using assms F f by (auto simp: wf_schedule_def steady_def steady_anchors_def)
      define e where "e = nth_day (k + 1) (an_Weekday a) (an_Nth a)"
      define n where "n = time_day (weekdayAfterAnchor 0 (k + 2) (Weekday s) (an_Weekday a) (an_Nth a))"
      have n: "e < n" "n \<le> e + 7" "weekday n = Weekday s"
        using weekdayAfterAnchor_day [OF w a(1), of 0 "k + 2" "an_Nth a"] by (simp_all add: e_def n_def add.commute)
      have e: "month_first (k + 1) \<le> e" "e < month_first (k + 2)"
        using nth_day_in_month [OF w a(2), of "k + 1"] nth_day_in_month [OF a, of "k + 1"]
        by (simp_all add: e_def add.assoc)
      have "occurs (month_of e) (an_Weekday a) (an_Nth a) e" unfolding e_def by (rule occurs_nth_day [OF a])
      then have "opens s n" using 2 n F f by (auto simp: opens_def list_ex_iff intro!: bexI [of _ e])
      then show ?thesis using d len e n by (intro exI [of _ n]) simp
    next
      case (3 a)
      then have a: "is_weekday (an_Weekday a)" "every_month (an_Nth a)"
        using assms F f by (auto simp: wf_schedule_def steady_def steady_anchors_def)
      define e where "e = nth_day (k + 2) (an_Weekday a) (an_Nth a)"
      define n where "n = time_day (weekdayBeforeAnchor 0 (k + 3) (Weekday s) (an_Weekday a) (an_Nth a))"
      have n: "n < e" "e \<le> n + 7" "weekday n = Weekday s"
        using weekdayBeforeAnchor_day [OF w a(1), of 0 "k + 3" "an_Nth a"] by (simp_all add: e_def n_def add.commute)
      have e: "month_first (k + 2) \<le> e" "e < month_first (k + 3)"
        using nth_day_in_month [OF a, of "k + 2"] by (simp_all add: e_def add.assoc)
      have "occurs (month_of e) (an_Weekday a) (an_Nth a) e" unfolding e_def by (rule occurs_nth_day [OF a])
      then have "opens s n" using 3 n F f by (auto simp: opens_def list_ex_iff intro!: bexI [of _ e])
      then show ?thesis using d len e n by (intro exI [of _ n]) simp
    qed
  qed
  then obtain n where n: "d < n" "n \<le> d + 100" "opens s n" by blast
  then show ?thesis by (intro exI [of _ "nat (n - d - 1)"]) simp
qed

text \<open>The instant at which the window of day \<open>n\<close> opens.\<close>

definition start_at :: "Schedule \<Rightarrow> Location \<Rightarrow> int \<Rightarrow> int \<Rightarrow> Time" where
  "start_at s l off n = \<lparr>t_sec = n * 86400 + start_secs s - off, t_nsec = 0, t_loc = l\<rparr>"

lemma start_on_start_at:
  "fixed_zone l off \<Longrightarrow> wf_schedule s \<Longrightarrow> start_on t l s = start_at s l off (time_day t)"
  by (rule Time.equality) (simp_all add: start_on_fixed start_at_def)

lemma time_day_start_at:
  assumes "fixed_zone l off" "wf_schedule s"
  shows "time_day (start_at s l off n) = n"
  using start_secs_range [OF assms(2)]
  by (simp add: time_day_def local_secs_def fixed_zoneD [OF assms(1)] start_at_def)

lemma start_before_day:
  assumes "fixed_zone (t_loc t) off" "wf_schedule s"
  shows "n < time_day t \<Longrightarrow> time_Before (start_at s l off n) t"
    "time_day t < n \<Longrightarrow> \<not> time_Before (start_at s l off n) t"
proof -
  have t: "time_day t * 86400 \<le> t_sec t + off" "t_sec t + off < time_day t * 86400 + 86400"
    unfolding time_day_def local_secs_fixed [OF assms(1)] by linarith+
  show "n < time_day t \<Longrightarrow> time_Before (start_at s l off n) t"
    using t(1) start_secs_range [OF assms(2)] unfolding time_Before_def start_at_def by simp
  show "time_day t < n \<Longrightarrow> \<not> time_Before (start_at s l off n) t"
    using t(2) start_secs_range [OF assms(2)] unfolding time_Before_def start_at_def by simp
qed

lemma next_occurrence_day:
  assumes l: "fixed_zone (t_loc t) off" and s: "wf_schedule s" "steady s"
  shows "\<exists>n. NextOccurrence t s = start_at s (t_loc t) off n \<and> opens s n \<and> n \<le> time_day t + 100 \<and>
    \<not> time_Before (NextOccurrence t s) t \<and>
    (\<forall>m. opens s m \<and> \<not> time_Before (start_at s (t_loc t) off m) t \<longrightarrow> n \<le> m)"
proof -
  have sa: "steady_anchors s" using s(2) by (simp add: steady_def)
  define d where "d = time_day t"
  note sch = scheduled_iff [OF s(1) sa] and st = time_day_start_at [OF l s(1)]
    and at = start_on_start_at [OF l s(1)] and bd = start_before_day [OF l s(1)]
  show ?thesis
  proof (cases "\<not> time_Before (start_at s (t_loc t) off d) t \<and> opens s d")
    case True
    then have "NextOccurrence t s = start_at s (t_loc t) off d"
      by (simp add: NextOccurrence_def Let_def sch st at d_def)
    moreover have "d \<le> m" if "\<not> time_Before (start_at s (t_loc t) off m) t" for m
      using that bd(1) [of m] unfolding d_def by force
    ultimately show ?thesis using True by (intro exI [of _ d]) (auto simp: d_def)
  next
    case False
    define P where "P = (\<lambda>i. opens s (d + 1 + int i))"
    obtain i where i: "i < 100" "P i" "\<forall>j<i. \<not> P j"
      using opens_soon [OF s, of d] exists_least_iff [of P] unfolding P_def
      by (metis (no_types, lifting) not_less_iff_gr_or_eq order.strict_trans)
    let ?t = "AddDate t 0 0 1"
    have t': "t_loc ?t = t_loc t" "time_day ?t = d + 1"
      using AddDate_days_fixed [OF l, of 1] by (simp_all add: d_def)
    from search_days_fixed [OF l s(1) sa t'(1), of i 400] i
    obtain u where "time_day u = d + 1 + int i" "search_days 400 ?t (t_loc t) s = start_on u (t_loc t) s"
      by (auto simp: P_def t')
    then have e: "NextOccurrence t s = start_at s (t_loc t) off (d + 1 + int i)"
      using False by (auto simp: NextOccurrence_def Let_def sch st at d_def)
    have "d + 1 + int i \<le> m" if m: "opens s m" "\<not> time_Before (start_at s (t_loc t) off m) t" for m
    proof -
      have "d \<le> m" using m(2) bd(1) [of m] unfolding d_def by force
      moreover have "m \<noteq> d" using False m by auto
      ultimately have "m = d + 1 + int (nat (m - d - 1))" by simp
      then have "P (nat (m - d - 1))" using m(1) by (simp add: P_def)
      then have "i \<le> nat (m - d - 1)" using i(3) by (meson not_le)
      then show ?thesis using \<open>d \<le> m\<close> \<open>m \<noteq> d\<close> by linarith
    qed
    moreover have "\<not> time_Before (start_at s (t_loc t) off (d + 1 + int i)) t"
      by (rule bd(2)) (simp add: d_def)
    ultimately show ?thesis using i by (intro exI [of _ "d + 1 + int i"]) (auto simp: e P_def d_def)
  qed
qed

text \<open>
  The window of day \<open>n\<close>, in minutes since day 0 of the zone: it ends on the same day when the
  end lies after the start (at the last minute for \<open>24:00\<close>), and on the next day otherwise.
\<close>

definition window_of :: "Schedule \<Rightarrow> int \<Rightarrow> int \<times> int" where
  "window_of s n =
     (let a = minutesSinceMidnight (Start s); b = minutesSinceMidnight (End s)
      in (1440 * n + a, 1440 * n + (if a < b then min b 1439 else b + 1440)))"

definition minute_no :: "Time \<Rightarrow> int" where
  "minute_no t = local_secs t div 60"

lemma minute_no_split:
  "minute_no t = 1440 * time_day t + (time_Hour t * 60 + time_Minute t)"
  "0 \<le> time_Hour t * 60 + time_Minute t" "time_Hour t * 60 + time_Minute t < 1440"
proof -
  define x where "x = local_secs t"
  have "x div 60 = (x div 86400 * 86400 + x mod 86400) div 60" by simp
  also have "\<dots> = x div 86400 * 1440 + x mod 86400 div 60"
    using div_mult_self3 [of 60 "x div 86400 * 1440" "x mod 86400"] by (simp add: algebra_simps)
  finally show "minute_no t = 1440 * time_day t + (time_Hour t * 60 + time_Minute t)"
    unfolding clock_minutes minute_no_def time_day_def x_def by simp
  have m: "0 \<le> x mod 86400" "x mod 86400 < 86400" by simp_all
  show "0 \<le> time_Hour t * 60 + time_Minute t" "time_Hour t * 60 + time_Minute t < 1440"
    unfolding clock_minutes x_def [symmetric] using m by linarith+
qed

lemma minutes_range:
  assumes "wf_schedule s"
  shows "0 \<le> minutesSinceMidnight (Start s)" "minutesSinceMidnight (Start s) < 1440"
    "0 \<le> minutesSinceMidnight (End s)" "minutesSinceMidnight (End s) \<le> 1440"
  using assms unfolding wf_schedule_def is_clock_def minutesSinceMidnight_def by auto

lemma window_split:
  fixes a b m d n :: int
  assumes "0 \<le> a" "a < 1440" "0 \<le> b" "b \<le> 1440" "0 \<le> m" "m < 1440" "a \<noteq> b"
  shows "1440 * n + a \<le> 1440 * d + m \<and>
      1440 * d + m \<le> 1440 * n + (if a < b then min b 1439 else b + 1440) \<longleftrightarrow>
    (if a < b then n = d \<and> a \<le> m \<and> m \<le> b
     else n = d \<and> a \<le> m \<or> n = d - 1 \<and> m \<le> b)"
  using assms by (cases "n < d - 1 \<or> n = d - 1 \<or> n = d \<or> d < n") auto

lemma in_window_iff:
  assumes l: "fixed_zone (t_loc t) off" and s: "wf_schedule s" "steady_anchors s"
    and ne: "minutesSinceMidnight (Start s) \<noteq> minutesSinceMidnight (End s)"
  shows "InWindow t s \<longleftrightarrow>
    (\<exists>n. opens s n \<and> fst (window_of s n) \<le> minute_no t \<and> minute_no t \<le> snd (window_of s n))"
proof -
  let ?m = "time_Hour t * 60 + time_Minute t"
  note w = window_split [OF minutes_range [OF s(1)] minute_no_split(2,3) [of t] ne]
  have y: "time_day (AddDate t 0 0 (- 1)) = time_day t - 1"
    using AddDate_days_fixed(4) [OF l, of "- 1"] by simp
  have "(\<exists>n. opens s n \<and> fst (window_of s n) \<le> minute_no t \<and> minute_no t \<le> snd (window_of s n)) \<longleftrightarrow>
    (if minutesSinceMidnight (Start s) < minutesSinceMidnight (End s)
     then opens s (time_day t) \<and> minutesSinceMidnight (Start s) \<le> ?m \<and> ?m \<le> minutesSinceMidnight (End s)
     else opens s (time_day t) \<and> minutesSinceMidnight (Start s) \<le> ?m \<or>
          opens s (time_day t - 1) \<and> ?m \<le> minutesSinceMidnight (End s))"
    unfolding window_of_def Let_def fst_conv snd_conv minute_no_split(1) w by auto
  then show ?thesis
    using ne by (auto simp: InWindow_def Let_def y scheduled_iff [OF s])
qed

text \<open>At its own start a window is open, also when it lasts a whole day.\<close>

lemma in_window_at_start:
  assumes l: "fixed_zone l off" and s: "wf_schedule s" "steady_anchors s" and o: "opens s n"
  shows "InWindow (start_at s l off n) s"
proof -
  let ?t = "start_at s l off n"
  have d: "time_day ?t = n" by (rule time_day_start_at [OF l s(1)])
  have "minute_no ?t = (60 * (1440 * n + minutesSinceMidnight (Start s))) div 60"
    using s(1) by (simp add: minute_no_def local_secs_def fixed_zoneD [OF l] start_at_def
        start_secs_def minutesSinceMidnight_def wf_schedule_def algebra_simps)
  then have "time_Hour ?t * 60 + time_Minute ?t = minutesSinceMidnight (Start s)"
    using minute_no_split(1) [of ?t] d by simp
  then show ?thesis using o d by (simp add: InWindow_def Let_def scheduled_iff [OF s])
qed

section \<open>The gate\<close>

definition earlier :: "Time \<Rightarrow> Time \<Rightarrow> bool" where
  "earlier t u \<longleftrightarrow> \<not> time_Before u t"

lemma earlier_trans: "earlier t u \<Longrightarrow> earlier u v \<Longrightarrow> earlier t v"
  by (auto simp: earlier_def time_Before_def)

lemma earlier_refl [simp]: "earlier t t"
  by (auto simp: earlier_def time_Before_def)

lemma earliest_start_least:
  assumes "list_all (\<lambda>s. \<not> IsZero (NextOccurrence now s)) ss" "ss \<noteq> [] \<or> \<not> IsZero e"
  shows "(\<not> IsZero e \<and> earliest_start now e ss = e \<or>
      (\<exists>s\<in>set ss. earliest_start now e ss = NextOccurrence now s)) \<and>
    (\<forall>s\<in>set ss. earlier (earliest_start now e ss) (NextOccurrence now s)) \<and>
    (\<not> IsZero e \<longrightarrow> earlier (earliest_start now e ss) e)"
  using assms
proof (induction ss arbitrary: e)
  case (Cons s ss)
  let ?n = "NextOccurrence now s"
  have n: "\<not> IsZero ?n" using Cons.prems by simp
  show ?case
  proof (cases "IsZero e \<or> time_Before ?n e")
    case True
    then have "earliest_start now e (s # ss) = earliest_start now ?n ss" using n by (simp add: Let_def)
    moreover have "\<not> IsZero e \<longrightarrow> earlier ?n e"
      using True by (auto simp: earlier_def time_Before_def)
    ultimately show ?thesis
      using Cons.IH [of ?n] Cons.prems n earlier_trans [of "earliest_start now ?n ss" ?n e] by auto
  next
    case False
    then have "earliest_start now e (s # ss) = earliest_start now e ss" using n by (simp add: Let_def)
    moreover have "earlier e ?n" using False by (simp add: earlier_def)
    ultimately show ?thesis
      using Cons.IH [of e] Cons.prems False earlier_trans [of "earliest_start now e ss" e ?n] by auto
  qed
qed simp

section \<open>Parsing and printing\<close>

lemma parseTimeOfDay_range:
  assumes "parseTimeOfDay s b = Some t"
  shows "is_clock t" "EndOfDay t \<Longrightarrow> b \<and> Hour t = 0 \<and> Minute t = 0"
  using assms by (auto simp: parseTimeOfDay_def is_clock_def split: if_splits prod.splits option.splits)

lemma parseWeekday_range: "parseWeekday s = Some w \<Longrightarrow> is_weekday w"
  by (auto simp: parseWeekday_def is_weekday_def Let_def split: if_splits)

lemma parseWeekday_name:
  assumes "is_weekday w"
  shows "parseWeekday (weekdayName w) = Some w"
proof -
  have "w \<in> {0, 1, 2, 3, 4, 5, 6}" using assms by (auto simp: is_weekday_def)
  moreover have "\<forall>w \<in> {0, 1, 2, 3, 4, 5, 6}. parseWeekday (weekdayName w) = Some w" by code_simp
  ultimately show ?thesis by blast
qed

lemma Cut_at: "c \<notin> set s \<Longrightarrow> Cut (s @ c # t) c = (s, Some t)"
  by (induction s) (auto simp: Cut_def)

lemma parseTimeOfDay_format:
  assumes "is_clock t" "EndOfDay t \<Longrightarrow> b \<and> Hour t = 0 \<and> Minute t = 0"
  shows "parseTimeOfDay (formatTimeOfDay t) b = Some t"
proof (cases "EndOfDay t")
  case True
  then show ?thesis using assms(2) by (cases t) (simp add: parseTimeOfDay_def formatTimeOfDay_def)
next
  case False
  have h: "0 \<le> Hour t" "Hour t < 100" "Hour t \<noteq> 24" "0 \<le> Minute t" "Minute t < 100"
    "Hour t < 24" "Minute t < 60"
    using assms(1) by (auto simp: is_clock_def)
  note cut = Cut_at [OF fmt02_no_colon [OF h(1,2)], of "fmt02 (Minute t)"]
  have ne: "fmt02 (Hour t) @ CHR '':'' # fmt02 (Minute t) \<noteq> ''24:00''"
  proof
    assume "fmt02 (Hour t) @ CHR '':'' # fmt02 (Minute t) = ''24:00''"
    moreover have "Cut ''24:00'' (CHR '':'') = (''24'', Some ''00'')" by code_simp
    ultimately have "fmt02 (Hour t) = fmt02 24" using cut by (simp add: fmt02_24)
    then show False using Atoi_fmt02 [OF h(1,2)] Atoi_fmt02 [of 24] h(3) by simp
  qed
  then show ?thesis
    using False h cut Atoi_fmt02 [OF h(1,2)] Atoi_fmt02 [OF h(4,5)]
    by (cases t) (simp add: parseTimeOfDay_def formatTimeOfDay_def)
qed

text \<open>\<open>canonical\<close>: the unused fields hold Go's zero values, as in everything that \<open>Parse\<close> builds.\<close>

definition canonical :: "Schedule \<Rightarrow> bool" where
  "canonical s \<longleftrightarrow>
     wf_schedule s \<and> (Freq s = FreqWeekly \<longrightarrow> Weekday s = 0) \<and>
     (EndOfDay (End s) \<longrightarrow> Hour (End s) = 0 \<and> Minute (End s) = 0)"

definition warnings_of :: "Schedule \<Rightarrow> Location option \<Rightarrow> dst_warning list" where
  "warnings_of s loc =
     (case loc of
        Some l \<Rightarrow> if EndOfDay (End s) then [] else (case dstWarning s l of None \<Rightarrow> [] | Some w \<Rightarrow> [w])
      | None \<Rightarrow> [])"

lemma or_err_Inr [simp]: "or_err e x = Inr a \<longleftrightarrow> x = Some a"
  by (auto simp: or_err_def split: option.splits)

lemma parseFreq_Inr: "parseFreq i f = Inr fr \<Longrightarrow> fr = FreqMonthly \<or> fr = FreqWeekly"
  by (auto simp: parseFreq_def Let_def split: if_splits)

lemma freq_distinct [simp]: "FreqMonthly \<noteq> FreqWeekly" "FreqWeekly \<noteq> FreqMonthly"
  by (simp_all add: FreqMonthly_def FreqWeekly_def)

lemma parse_days: "mapE (\<lambda>d. or_err (e d) (parseWeekday d)) ds = Inr ws \<Longrightarrow> list_all is_weekday ws \<and> length ws = length ds"
  by (auto simp: mapE_Inr list_all_length list_all2_conv_all_nth parseWeekday_range)

lemma parse_day_names:
  "list_all is_weekday ws \<Longrightarrow> mapE (\<lambda>d. or_err (e d) (parseWeekday d)) (map weekdayName ws) = Inr ws"
  by (induction ws) (simp_all add: parseWeekday_name or_err_def)

lemma set_days_canonical:
  assumes scope: "check_scope i rs fr = None" and fr: "fr = FreqMonthly \<or> fr = FreqWeekly"
    and days: "set_days i rs (new_schedule fr a b) = Inr s"
    and ab: "is_clock a" "\<not> EndOfDay a" "is_clock b" "EndOfDay b \<Longrightarrow> Hour b = 0 \<and> Minute b = 0"
  shows "canonical s" "End s = b"
proof -
  have "canonical s \<and> End s = b"
  proof (cases "fr = FreqWeekly")
    case True
    then show ?thesis
      using days scope ab parse_days [of "InvalidDay i" "rs_Days rs"]
      by (auto simp: set_days_def new_schedule_def bindE_Inr check_scope_def Let_def canonical_def
          wf_schedule_def
          split: if_splits)
  next
    case False
    then have "fr = FreqMonthly" using fr by simp
    then show ?thesis
      using days scope ab False
      by (auto simp: set_days_def new_schedule_def bindE_Inr check_scope_def Let_def canonical_def
          wf_schedule_def count_set_def parseWeekday_range
          split: if_splits option.splits)
  qed
  then show "canonical s" "End s = b" by auto
qed

lemma validateSchedule_canonical:
  assumes "validateSchedule i rs loc = Inr (s, ws)"
  shows "canonical s \<and> ws = warnings_of s loc"
proof -
  obtain fr where fr: "parseFreq i (rs_Freq rs) = Inr fr" "check_scope i rs fr = None"
    using assms by (cases "parseFreq i (rs_Freq rs)"; cases "check_scope i rs (projr (parseFreq i (rs_Freq rs)))")
      (simp_all add: validateSchedule_def)
  then obtain a b where ab: "parseTimeOfDay (rs_Start rs) False = Some a"
      "parseTimeOfDay (rs_End rs) True = Some b"
    and s: "set_days i rs (new_schedule fr a b) = Inr s"
    and ws: "ws = (case loc of
                       Some l \<Rightarrow>
                         if EndOfDay b then []
                         else (case dstWarning s l of None \<Rightarrow> [] | Some w \<Rightarrow> [w])
                     | None \<Rightarrow> [])"
    using assms by (auto simp: validateSchedule_def bindE_Inr)
  have "canonical s" "End s = b"
    using set_days_canonical [OF fr(2) parseFreq_Inr [OF fr(1)] s] parseTimeOfDay_range [OF ab(1)]
      parseTimeOfDay_range [OF ab(2)] by auto
  then show ?thesis using ws by (cases loc) (simp_all add: warnings_of_def)
qed

lemma validateSchedule_toRaw:
  assumes "canonical s"
  shows "validateSchedule i (toRawSchedule s) loc = Inr (s, warnings_of s loc)"
proof -
  have wf: "wf_schedule s" using assms by (simp add: canonical_def)
  have t: "parseTimeOfDay (formatTimeOfDay (Start s)) False = Some (Start s)"
    "parseTimeOfDay (formatTimeOfDay (End s)) True = Some (End s)"
    using assms by (auto simp: canonical_def wf_schedule_def intro!: parseTimeOfDay_format)
  have raw: "rs_Freq (toRawSchedule s) = Freq s" "rs_Start (toRawSchedule s) = formatTimeOfDay (Start s)"
    "rs_End (toRawSchedule s) = formatTimeOfDay (End s)"
    by (simp_all add: toRawSchedule_def Let_def split: option.splits)
  have f: "parseFreq i (Freq s) = Inr (Freq s)"
  proof -
    have "parseFreq i FreqMonthly = Inr FreqMonthly" "parseFreq i FreqWeekly = Inr FreqWeekly"
      by (simp_all add: parseFreq_def FreqMonthly_def FreqWeekly_def lower_byte_def)
    then show ?thesis using wf by (auto simp: wf_schedule_def)
  qed
  have "check_scope i (toRawSchedule s) (Freq s) = None \<and>
    set_days i (toRawSchedule s) (new_schedule (Freq s) (Start s) (End s)) = Inr s"
  proof (cases "Freq s = FreqWeekly")
    case True
    then have w: "list_all is_weekday (Days s)" "Days s \<noteq> []" "Nth s = None" "After s = None"
      "Before s = None" "Weekday s = 0"
      using assms by (auto simp: canonical_def wf_schedule_def)
    then show ?thesis using True
      by (cases s) (simp add: toRawSchedule_def Let_def check_scope_def count_set_def set_days_def
          new_schedule_def parse_day_names)
  next
    case False
    then have w: "Freq s = FreqMonthly" "Days s = []" "is_weekday (Weekday s)"
      "count_set (Nth s) + count_set (After s) + count_set (Before s) = 1"
      "pred_option (\<lambda>a. is_weekday (an_Weekday a)) (After s)"
      "pred_option (\<lambda>a. is_weekday (an_Weekday a)) (Before s)"
      using wf by (auto simp: wf_schedule_def)
    from w(4) show ?thesis using w
      by (cases rule: count_set_one; cases s)
        (simp_all add: toRawSchedule_def toRawAnchor_def Let_def check_scope_def count_set_def set_days_def
          new_schedule_def parseWeekday_name or_err_def)
  qed
  then show ?thesis using t f by (simp add: validateSchedule_def raw warnings_of_def or_err_def)
qed

lemma validateSchedules_Inr:
  "validateSchedules i rss loc = Inr (ss, ws) \<Longrightarrow>
     list_all canonical ss \<and> length ss = length rss \<and> ws = concat (map (\<lambda>s. warnings_of s loc) ss)"
proof (induction rss arbitrary: i ss ws)
  case (Cons rs rss)
  then obtain s vs ss' ws' where "validateSchedule i rs loc = Inr (s, vs)"
    "validateSchedules (Suc i) rss loc = Inr (ss', ws')" "ss = s # ss'" "ws = vs @ ws'"
    by (auto simp: bindE_Inr)
  then show ?case using Cons.IH [of "Suc i" ss' ws'] validateSchedule_canonical [of i rs loc s vs] by simp
qed simp

lemma validateSchedules_toRaw:
  "list_all canonical ss \<Longrightarrow>
     validateSchedules i (map toRawSchedule ss) loc = Inr (ss, concat (map (\<lambda>s. warnings_of s loc) ss))"
  by (induction ss arbitrary: i) (simp_all add: validateSchedule_toRaw)

lemma parse_raw_Inr:
  assumes "parse_raw L raw = Inr (c, ws)"
  obtains loc where "load_zone L (Timezone c) = Inr loc" "Schedules c \<noteq> []" "list_all canonical (Schedules c)"
    "ws = concat (map (\<lambda>s. warnings_of s loc) (Schedules c))"
proof -
  obtain loc where l: "load_zone L (rc_Timezone raw) = Inr loc" "rc_Schedules raw \<noteq> []"
    and v: "validateSchedules 0 (rc_Schedules raw) loc = Inr (Schedules c, ws)" "Timezone c = rc_Timezone raw"
    using assms by (auto simp: parse_raw_def bindE_Inr split: if_splits)
  from validateSchedules_Inr [OF v(1)] show thesis using l v(2) by (intro that [of loc]) auto
qed

lemma canonical_valid: "canonical s \<Longrightarrow> validateParsedSchedule i s = None"
  by (auto simp: canonical_def wf_schedule_def validateParsedSchedule_def Let_def count_set_def)

lemma canonical_all_valid: "list_all canonical ss \<Longrightarrow> first_invalid i ss = None"
  by (induction ss arbitrary: i) (simp_all add: canonical_valid)

section \<open>Properties\<close>

text \<open>The examples of the architecture decision: a window after patch Tuesday, and a weekly one.\<close>

definition patch_window :: Schedule where
  "patch_window =
     \<lparr>Freq = FreqMonthly, Weekday = 4, Days = [], Nth = None,
      After = Some \<lparr>an_Weekday = 2, an_Nth = 2\<rparr>, Before = None,
      Start = \<lparr>Hour = 22, Minute = 0, EndOfDay = False\<rparr>,
      End = \<lparr>Hour = 4, Minute = 0, EndOfDay = False\<rparr>\<rparr>"

lemma patch_window_ok: "canonical patch_window" "wf_schedule patch_window" "steady patch_window"
  "steady_anchors patch_window"
  by (simp_all add: patch_window_def canonical_def wf_schedule_def is_clock_def is_weekday_def
      count_set_def steady_def steady_anchors_def every_month_def)



text \<open>The window. In a zone with one offset, and with different start and end, \<open>InWindow\<close> holds
  exactly when the minute of the instant lies within the window of some opening day, where the
  window of a day runs past midnight when the end is not after the start.\<close>

theorem InWindow_meaning:
  assumes "fixed_zone (t_loc t) off" and "wf_schedule s" and "steady_anchors s"
    and "minutesSinceMidnight (Start s) \<noteq> minutesSinceMidnight (End s)"
  shows "InWindow t s \<longleftrightarrow>
    (\<exists>n. opens s n \<and> fst (window_of s n) \<le> minute_no t \<and> minute_no t \<le> snd (window_of s n))"
  using assms by (rule in_window_iff)

theorem InWindow_meaning_witness:
  "fixed_zone (t_loc zero_time) 0 \<and> minutesSinceMidnight (Start patch_window) \<noteq> minutesSinceMidnight (End patch_window) \<and>
   (InWindow zero_time patch_window \<longleftrightarrow>
     (\<exists>n. opens patch_window n \<and> fst (window_of patch_window n) \<le> minute_no zero_time \<and>
        minute_no zero_time \<le> snd (window_of patch_window n)))"
proof -
  have a: "fixed_zone (t_loc zero_time) 0" by (simp add: zero_time_def)
  have b: "minutesSinceMidnight (Start patch_window) \<noteq> minutesSinceMidnight (End patch_window)"
    by (simp add: patch_window_def minutesSinceMidnight_def)
  show ?thesis using InWindow_meaning [OF a patch_window_ok(2,4) b] a b by blast
qed




definition patch_gate :: Gate where
  "patch_gate =
     \<lparr>g_cfg = Some \<lparr>Timezone = [], Schedules = [patch_window]\<rparr>, g_loc = UTC, g_deviceID = ''dev''\<rparr>"


text \<open>C30: marshalling. Whatever \<open>Parse\<close> accepts, the raw form that \<open>MarshalYAML\<close> gives of the result
  is accepted again, with the same configuration and the same warnings.\<close>

theorem Parse_MarshalYAML:
  assumes "Parse yaml_Unmarshal LoadLocation data = Inr (c, ws)"
  shows "parse_raw LoadLocation (MarshalYAML c) = Inr (c, ws)"
proof -
  obtain raw where "parse_raw LoadLocation raw = Inr (c, ws)"
    using assms by (auto simp: Parse_def split: option.splits)
  then obtain loc where "load_zone LoadLocation (Timezone c) = Inr loc" "Schedules c \<noteq> []"
    "list_all canonical (Schedules c)" "ws = concat (map (\<lambda>s. warnings_of s loc) (Schedules c))"
    by (rule parse_raw_Inr)
  then show ?thesis by (cases c) (simp add: parse_raw_def MarshalYAML_def validateSchedules_toRaw)
qed

abbreviation patch_config :: Config where
  "patch_config \<equiv> \<lparr>Timezone = [], Schedules = [patch_window]\<rparr>"

lemma Parse_patch_config:
  "Parse (\<lambda>_::unit. Some (MarshalYAML patch_config)) (\<lambda>_. None) () = Inr (patch_config, [])"
  by (simp add: Parse_def parse_raw_def MarshalYAML_def load_zone_def
      validateSchedule_toRaw patch_window_ok warnings_of_def)

theorem Parse_MarshalYAML_witness:
  "parse_raw (\<lambda>_. None) (MarshalYAML patch_config) = Inr (patch_config, [])"
  by (rule Parse_MarshalYAML [OF Parse_patch_config])

text \<open>C31: what \<open>Parse\<close> guarantees. A parsed configuration has at least one entry, every entry has
  times and weekdays in range and exactly the selectors its frequency allows, and \<open>Validate\<close>
  accepts it.\<close>

theorem Parse_well_formed:
  assumes "Parse yaml_Unmarshal LoadLocation data = Inr (c, ws)"
  shows "Schedules c \<noteq> [] \<and> list_all wf_schedule (Schedules c) \<and> Validate LoadLocation (Some c) = None"
proof -
  obtain raw where "parse_raw LoadLocation raw = Inr (c, ws)"
    using assms by (auto simp: Parse_def split: option.splits)
  then obtain loc where "load_zone LoadLocation (Timezone c) = Inr loc" "Schedules c \<noteq> []"
    "list_all canonical (Schedules c)"
    by (rule parse_raw_Inr)
  then show ?thesis
    by (simp add: Validate_def canonical_all_valid) (simp add: list_all_iff canonical_def)
qed

theorem Parse_well_formed_witness:
  "Schedules patch_config \<noteq> [] \<and> list_all wf_schedule (Schedules patch_config) \<and>
   Validate (\<lambda>_. None) (Some patch_config) = None"
  by (rule Parse_well_formed [OF Parse_patch_config])

lemma nth_day_outside:
  assumes "is_weekday w" "j \<noteq> - 1" "j < 1 \<or> 5 < j"
  shows "month_of (nth_day k w j) \<noteq> k"
proof -
  define p where "p = (month_first k - w) div 7"
  have "7 * p \<le> month_first k - w" "month_first k - w < 7 * p + 7" unfolding p_def by linarith+
  moreover have "nth_day k w j = 7 * p + 6 + w + 7 * (j - 1)" using assms(2) by (simp add: nth_day_def p_def)
  ultimately have "nth_day k w j < month_first k \<or> month_first (k + 1) \<le> nth_day k w j"
    using assms(3) month_length_bounds(2) [of k] by auto
  then show ?thesis using month_of_bounds [of "nth_day k w j"] by auto
qed

lemma search_days_none: "(\<And>t. \<not> isScheduledDay t s) \<Longrightarrow> search_days n day l s = zero_time"
  by (induction n arbitrary: day) (simp_all add: Let_def)

text \<open>An ordinal out of range. A monthly entry whose \<open>nth\<close> is neither -1 nor 1 to 5 passes
  validation, but no instant is ever in its window and \<open>NextOccurrence\<close> gives the zero time.\<close>

theorem nth_out_of_range_never_opens:
  assumes s: "canonical s" "Freq s = FreqMonthly" "Nth s = Some j" and j: "j \<noteq> - 1" "j < 1 \<or> 5 < j"
  shows "validateSchedule i (toRawSchedule s) loc = Inr (s, warnings_of s loc) \<and>
    (\<forall>t. \<not> InWindow t s \<and> NextOccurrence t s = zero_time)"
proof -
  have wf: "wf_schedule s" using s(1) by (simp add: canonical_def)
  then have "count_set (Nth s) + count_set (After s) + count_set (Before s) = 1" and w: "is_weekday (Weekday s)"
    using s(2) by (auto simp: wf_schedule_def)
  then have "After s = None" "Before s = None"
    using s(3) by (auto simp: count_set_def split: if_splits)
  then have "\<not> opens s n" for n
    using s(2,3) occurs_iff [OF w, of n j] nth_day_outside [OF w j, of "month_of n"]
    by (auto simp: opens_def)
  moreover have "steady_anchors s" using \<open>After s = None\<close> \<open>Before s = None\<close> by (simp add: steady_anchors_def)
  ultimately have n: "\<not> isScheduledDay t s" for t using scheduled_iff [OF wf] by simp
  then show ?thesis
    using validateSchedule_toRaw [OF s(1)]
    by (simp add: InWindow_def NextOccurrence_def Let_def search_days_none)
qed

theorem nth_out_of_range_never_opens_witness:
  "let s = patch_window\<lparr>After := None, Nth := Some 6\<rparr>
   in validateSchedule 0 (toRawSchedule s) None = Inr (s, []) \<and> NextOccurrence zero_time s = zero_time"
proof -
  let ?s = "patch_window\<lparr>After := None, Nth := Some 6\<rparr>"
  have "canonical ?s" by (simp add: patch_window_def canonical_def wf_schedule_def is_clock_def
        is_weekday_def count_set_def)
  then show ?thesis
    using nth_out_of_range_never_opens [of ?s 6 0 None]
    by (simp add: patch_window_def warnings_of_def Let_def)
qed

end
