(* ===== verification/Batch_Partition.thy ===== *)
theory Batch_Partition
  imports Cfgms_Prelude
begin

text \<open>
  How a rolling batch job splits its stewards into batches:
  \<open>features/controller/batchjob/quorum.go\<close> and the helpers at the end of \<open>executor.go\<close>. A group
  together with its cursor is the list of its members not taken yet, and the plain stewards
  with \<open>plainIdx\<close> are those not used yet. The locale \<open>quorum_checker\<close> is the contract of the
  interface \<open>QuorumChecker\<close>: what the executor relies on.
\<close>

section \<open>Definitions\<close>

record StewardMeta =
  ID :: string
  DNAAttributes :: "string \<rightharpoonup> string"

definition cluster_role :: "StewardMeta \<Rightarrow> string" where
  "cluster_role s = (case DNAAttributes s ''cluster_role'' of None \<Rightarrow> [] | Some r \<Rightarrow> r)"

text \<open>\<open>naivePartition\<close>: the loop, with the batch size already made positive, and the function.\<close>

function slices :: "nat \<Rightarrow> 'a list \<Rightarrow> 'a list list" where
  "slices bs ids = (if ids = [] \<or> bs = 0 then [] else take bs ids # slices bs (drop bs ids))"
  by pat_completeness auto

termination by (relation "measure (length \<circ> snd)") auto

declare slices.simps [simp del]

definition effective_size :: "int \<Rightarrow> 'a list \<Rightarrow> nat" where
  "effective_size batchSize xs = (if batchSize \<le> 0 then length xs else nat batchSize)"

definition naivePartition :: "string list \<Rightarrow> int \<Rightarrow> string list list" where
  "naivePartition ids batchSize =
     (if ids = [] then [] else slices (effective_size batchSize ids) ids)"

fun dedupe_from :: "string list \<Rightarrow> string list \<Rightarrow> string list" where
  "dedupe_from seen [] = []"
| "dedupe_from seen (i # ids) =
     (if i = [] then dedupe_from seen ids
      else if i \<in> set seen then dedupe_from seen ids
      else i # dedupe_from (i # seen) ids)"

definition dedupeIDs :: "string list \<Rightarrow> string list" where
  "dedupeIDs ids = dedupe_from [] ids"

definition orderedMeta :: "string list \<Rightarrow> StewardMeta list \<Rightarrow> StewardMeta list" where
  "orderedMeta ids found =
     (let byID = foldl (\<lambda>m s. m(ID s \<mapsto> s)) Map.empty found
      in map (\<lambda>i. case byID i of Some m \<Rightarrow> m | None \<Rightarrow> \<lparr>ID = i, DNAAttributes = Map.empty\<rparr>) ids)"

definition fillWithPlain :: "string list \<Rightarrow> string list \<Rightarrow> nat \<Rightarrow> string list \<times> string list" where
  "fillWithPlain batch plain batchSize =
     (batch @ take (batchSize - length batch) plain, drop (batchSize - length batch) plain)"

text \<open>The stewards by role, in the order in which the roles first appear, and the plain ones.\<close>

definition add_to_group ::
    "string \<Rightarrow> string \<Rightarrow> (string \<times> string list) list \<Rightarrow> (string \<times> string list) list" where
  "add_to_group role i gs =
     (case map_of gs role of None \<Rightarrow> gs @ [(role, [i])] | Some ids \<Rightarrow> put role (ids @ [i]) gs)"

fun group_stewards ::
    "StewardMeta list \<Rightarrow> (string \<times> string list) list \<Rightarrow> string list \<Rightarrow>
     (string \<times> string list) list \<times> string list" where
  "group_stewards [] gs plain = (gs, plain)"
| "group_stewards (s # ss) gs plain =
     (if cluster_role s = [] then group_stewards ss gs (plain @ [ID s])
      else group_stewards ss (add_to_group (cluster_role s) (ID s) gs) plain)"

text \<open>
  One round over the groups: the groups, the current batch and the plain stewards after it, the
  batches flushed on the way, and whether some steward was taken.
\<close>

fun one_round ::
    "nat \<Rightarrow> (string \<times> string list) list \<Rightarrow> string list \<Rightarrow> string list \<Rightarrow>
     (string \<times> string list) list \<times> string list \<times> string list \<times> string list list \<times> bool" where
  "one_round bs [] batch plain = ([], batch, plain, [], False)"
| "one_round bs ((role, []) # gs) batch plain =
     (let (gs', batch', plain', out, progress) = one_round bs gs batch plain
      in ((role, []) # gs', batch', plain', out, progress))"
| "one_round bs ((role, i # ids) # gs) batch plain =
     (let (batch1, plain1, out1) =
            (if bs \<le> length batch
             then (let (b, p) = fillWithPlain batch plain bs in ([], p, [b]))
             else (batch, plain, []));
          (gs', batch', plain', out, _) = one_round bs gs (batch1 @ [i]) plain1
      in ((role, ids) # gs', batch', plain', out1 @ out, True))"

definition group_size :: "(string \<times> string list) list \<Rightarrow> nat" where
  "group_size gs = sum_list (map (length \<circ> snd) gs)"

lemma one_round_group_size:
  "one_round bs gs batch plain = (gs', batch', plain', out, progress) \<Longrightarrow>
     group_size gs' \<le> group_size gs \<and> (progress \<longrightarrow> group_size gs' < group_size gs)"
  by (induction bs gs batch plain arbitrary: gs' batch' plain' out progress rule: one_round.induct)
    (fastforce simp: group_size_def split: prod.splits if_splits)+

function rounds ::
    "nat \<Rightarrow> (string \<times> string list) list \<Rightarrow> string list \<Rightarrow> string list list \<times> string list" where
  "rounds bs gs plain =
     (case one_round bs gs [] plain of
        (gs', batch, plain1, out, progress) \<Rightarrow>
          if \<not> progress then ([], plain)
          else (case fillWithPlain batch plain1 bs of
                  (b, plain2) \<Rightarrow>
                    (case rounds bs gs' plain2 of
                       (rest, plain3) \<Rightarrow> (out @ [b] @ rest, plain3))))"
  by pat_completeness auto

termination
  by (relation "measure (\<lambda>(_, gs, _). group_size gs)")
    (auto dest!: one_round_group_size [OF sym])

declare rounds.simps [simp del]

definition Partition :: "StewardMeta list \<Rightarrow> int \<Rightarrow> string list list" where
  "Partition stewards batchSize =
     (if stewards = [] then []
      else let bs = effective_size batchSize stewards;
               (groups, plain) = group_stewards stewards [] []
           in if groups = [] then naivePartition plain (int bs)
              else let (batches, rest) = rounds bs groups plain
                   in batches @ slices bs rest)"

section \<open>Slices, duplicates and metadata\<close>

lemma concat_slices: "0 < bs \<Longrightarrow> concat (slices bs ids) = ids"
  by (induction bs ids rule: slices.induct) (subst slices.simps, auto)

lemma slices_sizes: "b \<in> set (slices bs ids) \<Longrightarrow> b \<noteq> [] \<and> length b \<le> bs"
proof (induction bs ids rule: slices.induct)
  case (1 bs ids)
  show ?case
  proof (cases "ids = [] \<or> bs = 0")
    case True
    then have "slices bs ids = []" by (subst slices.simps) simp
    then show ?thesis using 1(2) by simp
  next
    case False
    then have "slices bs ids = take bs ids # slices bs (drop bs ids)" by (subst slices.simps) simp
    then show ?thesis using 1 False by auto
  qed
qed

lemma dedupe_from: "distinct (dedupe_from seen ids) \<and> set (dedupe_from seen ids) = set ids - set seen - {[]}"
  by (induction seen ids rule: dedupe_from.induct) auto

lemma distinct_dedupeIDs [simp]: "distinct (dedupeIDs ids)"
  using dedupe_from [of "[]" ids] by (simp add: dedupeIDs_def)

lemma set_dedupeIDs [simp]: "set (dedupeIDs ids) = set ids - {[]}"
  using dedupe_from [of "[]" ids] by (simp add: dedupeIDs_def)

lemma byID_ID:
  "foldl (\<lambda>m s. m(ID s \<mapsto> s)) m0 found i = Some m \<Longrightarrow> (\<forall>j n. m0 j = Some n \<longrightarrow> ID n = j) \<Longrightarrow> ID m = i"
proof (induction found arbitrary: m0)
  case (Cons s found)
  show ?case using Cons.prems by (intro Cons.IH [of "m0(ID s \<mapsto> s)"]) auto
qed auto

lemma ID_orderedMeta [simp]: "map ID (orderedMeta ids found) = ids"
  by (auto simp: orderedMeta_def Let_def intro!: map_idI split: option.split dest!: byID_ID)

section \<open>Rounds\<close>

definition role_ok :: "(string \<Rightarrow> string) \<Rightarrow> string list \<Rightarrow> bool" where
  "role_ok R b \<longleftrightarrow> distinct (filter (\<lambda>r. r \<noteq> []) (map R b))"

definition groups_ok :: "(string \<Rightarrow> string) \<Rightarrow> (string \<times> string list) list \<Rightarrow> bool" where
  "groups_ok R gs \<longleftrightarrow>
     distinct (map fst gs) \<and> (\<forall>(r, ids) \<in> set gs. r \<noteq> [] \<and> (\<forall>i \<in> set ids. R i = r))"

abbreviation plain_ok :: "(string \<Rightarrow> string) \<Rightarrow> string list \<Rightarrow> bool" where
  "plain_ok R p \<equiv> (\<forall>i \<in> set p. R i = [])"

abbreviation members :: "(string \<times> string list) list \<Rightarrow> string list" where
  "members gs \<equiv> concat (map snd gs)"

lemma groups_ok_Cons:
  "groups_ok R ((r, ids) # gs) \<longleftrightarrow>
     r \<notin> set (map fst gs) \<and> r \<noteq> [] \<and> (\<forall>i \<in> set ids. R i = r) \<and> groups_ok R gs"
  by (auto simp: groups_ok_def)

lemma role_ok_Nil [simp]: "role_ok R []"
  by (simp add: role_ok_def)

lemma role_ok_plain: "role_ok R b \<Longrightarrow> plain_ok R p \<Longrightarrow> role_ok R (b @ p)"
proof -
  assume b: "role_ok R b" and p: "plain_ok R p"
  have "filter (\<lambda>r. r \<noteq> []) (map R p) = []" using p by (auto simp: filter_empty_conv)
  then show ?thesis using b by (simp add: role_ok_def)
qed

lemma role_ok_snoc: "role_ok R b \<Longrightarrow> R i \<notin> set (map R b) \<Longrightarrow> role_ok R (b @ [i])"
  by (auto simp: role_ok_def)

lemma fillWithPlain_ok:
  assumes "fillWithPlain b p n = (b', p')" "length b \<le> n"
  shows "length b' \<le> n" "b \<noteq> [] \<Longrightarrow> b' \<noteq> []" "mset b' + mset p' = mset b + mset p"
    "plain_ok R p \<Longrightarrow> plain_ok R p'" "role_ok R b \<Longrightarrow> plain_ok R p \<Longrightarrow> role_ok R b'"
proof -
  let ?k = "n - length b"
  have e: "b' = b @ take ?k p" "p' = drop ?k p" using assms(1) by (auto simp: fillWithPlain_def)
  have "mset (take ?k p) + mset (drop ?k p) = mset p" by (simp flip: mset_append)
  then show "mset b' + mset p' = mset b + mset p" using e by (simp add: ac_simps)
  show "length b' \<le> n" using assms(2) e by simp
  show "b \<noteq> [] \<Longrightarrow> b' \<noteq> []" using e by simp
  show "plain_ok R p \<Longrightarrow> plain_ok R p'" using e by (meson in_set_dropD)
  show "role_ok R b \<Longrightarrow> plain_ok R p \<Longrightarrow> role_ok R b'"
    unfolding e by (rule role_ok_plain) (auto dest: in_set_takeD)
qed

lemma one_round_Cons:
  assumes "one_round n ((r, i # ids) # gs) b p = (gs', b', p', out, progress)"
  obtains b1 p1 out1 gs1 out2 pr where "one_round n gs (b1 @ [i]) p1 = (gs1, b', p', out2, pr)"
    "gs' = (r, ids) # gs1" "out = out1 @ out2" progress
    "if n \<le> length b then b1 = [] \<and> (\<exists>b0. out1 = [b0] \<and> fillWithPlain b p n = (b0, p1))
     else b1 = b \<and> p1 = p \<and> out1 = []"
  using assms by (cases "n \<le> length b") (auto split: prod.splits)

lemma one_round_conserves:
  "one_round n gs b p = (gs', b', p', out, progress) \<Longrightarrow> length b \<le> n \<Longrightarrow> 0 < n \<Longrightarrow>
     mset (concat out) + mset b' + mset p' + mset (members gs') = mset b + mset p + mset (members gs)"
proof (induction gs arbitrary: b p gs' b' p' out progress)
  case (Cons g gs)
  obtain r ids where g: "g = (r, ids)" by force
  show ?case
  proof (cases ids)
    case Nil
    then obtain gs1 where "one_round n gs b p = (gs1, b', p', out, progress)" "gs' = (r, []) # gs1"
      using Cons.prems(1) g by (auto split: prod.splits)
    then show ?thesis using Cons.IH [of b p gs1 b' p' out progress] Cons.prems g Nil by simp
  next
    case ids: (Cons i js)
    from Cons.prems(1) [unfolded g ids]
    obtain b1 p1 out1 gs1 out2 pr where e: "one_round n gs (b1 @ [i]) p1 = (gs1, b', p', out2, pr)"
      "gs' = (r, js) # gs1" "out = out1 @ out2"
      and f: "if n \<le> length b then b1 = [] \<and> (\<exists>b0. out1 = [b0] \<and> fillWithPlain b p n = (b0, p1))
        else b1 = b \<and> p1 = p \<and> out1 = []"
      by (rule one_round_Cons)
    have m: "mset (concat out1) + mset b1 + mset p1 = mset b + mset p"
      using f fillWithPlain_ok(3) [OF _ Cons.prems(2)] by (auto split: if_splits)
    have "length (b1 @ [i]) \<le> n" using f Cons.prems(3) by (auto split: if_splits)
    from Cons.IH [OF e(1) this Cons.prems(3)]
    have "mset (concat out2) + mset b' + mset p' + mset (members gs1) =
      add_mset i (mset b1 + mset p1 + mset (members gs))" by simp
    then have "mset (concat out) + mset b' + mset p' + mset (members gs') =
      (mset (concat out1) + mset b1 + mset p1) + add_mset i (mset js + mset (members gs))"
      by (simp add: e(2,3) ac_simps)
    then show ?thesis using m g ids by (simp add: ac_simps)
  qed
qed simp

lemma one_round_shape:
  assumes "one_round n gs b p = (gs', b', p', out, progress)" "length b \<le> n" "0 < n"
    "groups_ok R gs" "plain_ok R p" "role_ok R b" "set (map R b) \<inter> set (map fst gs) = {}"
  shows "groups_ok R gs'" "map fst gs' = map fst gs" "plain_ok R p'" "role_ok R b'" "length b' \<le> n"
    "\<forall>x \<in> set out. role_ok R x \<and> length x \<le> n \<and> x \<noteq> []" "progress \<or> b \<noteq> [] \<Longrightarrow> b' \<noteq> []"
    "\<not> progress \<Longrightarrow> members gs = []"
proof -
  have "groups_ok R gs' \<and> map fst gs' = map fst gs \<and> plain_ok R p' \<and> role_ok R b' \<and> length b' \<le> n \<and>
    (\<forall>x \<in> set out. role_ok R x \<and> length x \<le> n \<and> x \<noteq> []) \<and> (progress \<or> b \<noteq> [] \<longrightarrow> b' \<noteq> []) \<and>
    (\<not> progress \<longrightarrow> members gs = [])"
    using assms
  proof (induction gs arbitrary: b p gs' b' p' out progress)
    case (Cons g gs)
    obtain r ids where g: "g = (r, ids)" by force
    have gr: "r \<notin> set (map fst gs)" "r \<noteq> []" "\<forall>i \<in> set ids. R i = r" "groups_ok R gs"
      using Cons.prems(4) g by (simp_all add: groups_ok_Cons)
    have disj: "set (map R b) \<inter> set (map fst gs) = {}" "r \<notin> set (map R b)" using Cons.prems(7) g by auto
    show ?case
    proof (cases ids)
      case Nil
      then obtain gs1 where e: "one_round n gs b p = (gs1, b', p', out, progress)" "gs' = (r, []) # gs1"
        using Cons.prems(1) g by (auto split: prod.splits)
      show ?thesis
        using Cons.IH [OF e(1) Cons.prems(2,3) gr(4) Cons.prems(5,6) disj(1)] gr e(2) g Nil
        by (simp add: groups_ok_Cons)
    next
      case ids: (Cons i js)
      from Cons.prems(1) [unfolded g ids]
      obtain b1 p1 out1 gs1 out2 pr where e: "one_round n gs (b1 @ [i]) p1 = (gs1, b', p', out2, pr)"
        "gs' = (r, js) # gs1" "out = out1 @ out2" progress
        and f: "if n \<le> length b then b1 = [] \<and> (\<exists>b0. out1 = [b0] \<and> fillWithPlain b p n = (b0, p1))
          else b1 = b \<and> p1 = p \<and> out1 = []"
        by (rule one_round_Cons)
      note F = fillWithPlain_ok [OF _ Cons.prems(2)]
      have R: "R i = r" using gr(3) ids by simp
      have b1: "role_ok R b1" "set (map R b1) \<subseteq> set (map R b)" "length (b1 @ [i]) \<le> n"
        using f Cons.prems(3,6) by (auto simp: role_ok_def split: if_splits)
      have p1: "plain_ok R p1" using f F(4) Cons.prems(5) by (auto split: if_splits)
      have out1: "\<forall>x \<in> set out1. role_ok R x \<and> length x \<le> n \<and> x \<noteq> []"
      proof (cases "n \<le> length b")
        case True
        then obtain b0 where b0: "out1 = [b0]" "fillWithPlain b p n = (b0, p1)" using f by auto
        have "b \<noteq> []" using True Cons.prems(3) by auto
        then show ?thesis using b0(1) fillWithPlain_ok [OF b0(2) Cons.prems(2)] Cons.prems(5,6) by simp
      qed (use f in simp)
      have sub: "set (map R (b1 @ [i])) \<subseteq> insert r (set (map R b))" using b1(2) R by (simp add: subset_insertI2)
      have "R i \<notin> set (map R b1)" using b1(2) disj(2) unfolding R by blast
      with b1(1) have A: "role_ok R (b1 @ [i])" by (rule role_ok_snoc)
      have B: "set (map R (b1 @ [i])) \<inter> set (map fst gs) = {}" using sub disj(1) gr(1) by blast
      note IH = Cons.IH [OF e(1) b1(3) Cons.prems(3) gr(4) p1 A B]
      have "groups_ok R gs'" using IH gr e(2) ids by (simp add: groups_ok_Cons)
      moreover have "map fst gs' = map fst (g # gs)" using IH e(2) g by simp
      moreover have "\<forall>x \<in> set out. role_ok R x \<and> length x \<le> n \<and> x \<noteq> []" using IH out1 e(3) by auto
      ultimately show ?thesis using IH e(4) by simp
    qed
  qed (simp add: groups_ok_def)
  then show "groups_ok R gs'" "map fst gs' = map fst gs" "plain_ok R p'" "role_ok R b'" "length b' \<le> n"
    "\<forall>x \<in> set out. role_ok R x \<and> length x \<le> n \<and> x \<noteq> []" "progress \<or> b \<noteq> [] \<Longrightarrow> b' \<noteq> []"
    "\<not> progress \<Longrightarrow> members gs = []"
    by blast+
qed

lemma rounds_ok:
  assumes "rounds n gs p = (bs, p')" "0 < n" "groups_ok R gs" "plain_ok R p"
  shows "(\<forall>b \<in> set bs. role_ok R b \<and> length b \<le> n \<and> b \<noteq> []) \<and> plain_ok R p' \<and>
    mset (concat bs) + mset p' = mset p + mset (members gs)"
  using assms
proof (induction n gs p arbitrary: bs p' rule: rounds.induct)
  case (1 n gs p)
  obtain gs' b p1 out progress where r: "one_round n gs [] p = (gs', b, p1, out, progress)"
    by (cases "one_round n gs [] p") auto
  have nil: "length [] \<le> n" "role_ok R []" "set (map R []) \<inter> set (map fst gs) = {}"
    by (simp_all add: role_ok_def)
  note sh = one_round_shape [OF r nil(1) 1(3-5) nil(2,3)] and co = one_round_conserves [OF r nil(1) 1(3)]
  show ?case
  proof (cases progress)
    case False
    then have "rounds n gs p = ([], p)" using r by (subst rounds.simps) simp
    then show ?thesis using 1(2,5) sh(8) False by simp
  next
    case True
    obtain b2 p2 where f: "fillWithPlain b p1 n = (b2, p2)" by force
    obtain rest p3 where rec: "rounds n gs' p2 = (rest, p3)" by force
    have e: "bs = out @ [b2] @ rest" "p' = p3"
      using 1(2) True r f rec by (subst (asm) rounds.simps, simp)+
    note F = fillWithPlain_ok [OF f sh(5)]
    have IH: "(\<forall>b \<in> set rest. role_ok R b \<and> length b \<le> n \<and> b \<noteq> []) \<and> plain_ok R p3 \<and>
      mset (concat rest) + mset p3 = mset p2 + mset (members gs')"
      by (rule 1(1) [OF r [symmetric] refl refl refl _ f [symmetric] rec 1(3) sh(1)])
        (use True F(4) [OF sh(3)] in auto)
    have "mset (concat bs) + mset p' = mset (concat out) + mset b2 + (mset (concat rest) + mset p3)"
      by (simp add: e ac_simps)
    also have "\<dots> = mset (concat out) + (mset b2 + mset p2) + mset (members gs')"
      using IH by (simp add: ac_simps)
    also have "\<dots> = mset p + mset (members gs)" using F(3) co by (simp add: ac_simps)
    finally show ?thesis
      using IH e sh(6) F(1) F(2) [OF sh(7)] F(5) [OF sh(4,3)] True by auto
  qed
qed

section \<open>Groups\<close>

lemma members_add_to_group: "distinct (map fst gs) \<Longrightarrow> mset (members (add_to_group r i gs)) = add_mset i (mset (members gs))"
proof (induction gs)
  case (Cons g gs)
  obtain q ids where g: "g = (q, ids)" by force
  show ?case
  proof (cases "q = r")
    case False
    then have "add_to_group r i (g # gs) = g # add_to_group r i gs"
      using g by (simp add: add_to_group_def split: option.splits)
    then show ?thesis using Cons g by simp
  qed (simp add: g add_to_group_def)
qed (simp add: add_to_group_def)

lemma groups_ok_add:
  "groups_ok R gs \<Longrightarrow> r \<noteq> [] \<Longrightarrow> R i = r \<Longrightarrow> groups_ok R (add_to_group r i gs)"
proof (induction gs)
  case (Cons g gs)
  obtain q ids where g: "g = (q, ids)" by force
  have "set (map fst (add_to_group r i gs)) = insert r (set (map fst gs))"
    by (auto simp: add_to_group_def map_of_eq_None_iff split: option.splits dest!: map_of_SomeD)
  then show ?case
  proof (cases "q = r")
    case False
    then have "add_to_group r i (g # gs) = g # add_to_group r i gs"
      using g by (simp add: add_to_group_def split: option.splits)
    then show ?thesis using Cons g False \<open>set (map fst (add_to_group r i gs)) = _\<close>
      by (simp add: groups_ok_Cons)
  qed (use Cons.prems in \<open>auto simp: g add_to_group_def groups_ok_Cons\<close>)
qed (simp add: add_to_group_def groups_ok_def)

lemma group_stewards_ok:
  assumes "group_stewards ss gs p = (gs', p')" "groups_ok R gs" "plain_ok R p"
    "\<forall>s \<in> set ss. R (ID s) = cluster_role s"
  shows "groups_ok R gs' \<and> plain_ok R p' \<and>
    mset (members gs') + mset p' = mset (members gs) + mset p + mset (map ID ss)"
  using assms
proof (induction ss gs p rule: group_stewards.induct)
  case (2 s ss gs p)
  show ?case
  proof (cases "cluster_role s = []")
    case True
    then show ?thesis using 2 by (simp add: ac_simps)
  next
    case False
    then have "groups_ok R (add_to_group (cluster_role s) (ID s) gs)"
      using 2(4,6) by (intro groups_ok_add) auto
    moreover have "distinct (map fst gs)" using 2(4) by (simp add: groups_ok_def)
    ultimately show ?thesis
      using 2(2) [OF False] 2(3-6) False by (simp add: members_add_to_group)
  qed
qed simp

text \<open>The role of an identifier among the stewards.\<close>

definition role_in :: "StewardMeta list \<Rightarrow> string \<Rightarrow> string" where
  "role_in ss i = (case find (\<lambda>s. ID s = i) ss of None \<Rightarrow> [] | Some s \<Rightarrow> cluster_role s)"

lemma role_in: "distinct (map ID ss) \<Longrightarrow> s \<in> set ss \<Longrightarrow> role_in ss (ID s) = cluster_role s"
  by (induction ss) (auto simp: role_in_def)

lemma partition_ok:
  assumes "distinct (map ID ss)"
  shows "mset (concat (Partition ss k)) = mset (map ID ss) \<and>
    (\<forall>b \<in> set (Partition ss k). b \<noteq> [] \<and> length b \<le> effective_size k ss \<and> role_ok (role_in ss) b)"
proof (cases "ss = []")
  case False
  define n where "n = effective_size k ss"
  have n: "0 < n" using False by (simp add: n_def effective_size_def)
  obtain gs p where g: "group_stewards ss [] [] = (gs, p)" by force
  have G: "groups_ok (role_in ss) gs" "plain_ok (role_in ss) p" "mset (members gs) + mset p = mset (map ID ss)"
    using group_stewards_ok [OF g, of "role_in ss"] role_in [OF assms] by (auto simp: groups_ok_def)
  have plain_slices: "\<forall>b \<in> set (slices n q). b \<noteq> [] \<and> length b \<le> n \<and> role_ok (role_in ss) b"
    if q: "plain_ok (role_in ss) q" for q
  proof
    fix b assume b: "b \<in> set (slices n q)"
    then have "set b \<subseteq> set q" using concat_slices [OF n, of q] by (metis UN_upper set_concat)
    then have "plain_ok (role_in ss) b" using q by blast
    then have "role_ok (role_in ss) b" using role_ok_plain [of "role_in ss" "[]" b] by simp
    then show "b \<noteq> [] \<and> length b \<le> n \<and> role_ok (role_in ss) b" using slices_sizes [OF b] by simp
  qed
  show ?thesis
  proof (cases "gs = []")
    case True
    then have "p \<noteq> []" using G(3) False by auto
    then have "Partition ss k = slices n p"
      using False g True n by (simp add: Partition_def Let_def naivePartition_def effective_size_def n_def)
    moreover from this have "concat (Partition ss k) = p" using concat_slices [OF n, of p] by simp
    ultimately show ?thesis using G True plain_slices [OF G(2)] by (simp only: n_def [symmetric]) simp
  next
    case ne: False
    obtain bs rest where r: "rounds n gs p = (bs, rest)" by force
    have P: "Partition ss k = bs @ slices n rest"
      using False g ne r by (simp add: Partition_def Let_def n_def)
    note R = rounds_ok [OF r n G(1,2)]
    have "mset (concat (bs @ slices n rest)) = mset (map ID ss)"
      using R G(3) concat_slices [OF n, of rest] by (simp add: ac_simps)
    then show ?thesis using R plain_slices [of rest] unfolding P n_def [symmetric] by auto
  qed
qed (simp add: Partition_def)

section \<open>The contract of a quorum checker\<close>

text \<open>
  What the executor needs of a way to partition: the batches hold every steward once and none
  is empty.
\<close>

locale quorum_checker =
  fixes part :: "StewardMeta list \<Rightarrow> int \<Rightarrow> string list list"
  assumes part_conserves: "distinct (map ID ss) \<Longrightarrow> mset (concat (part ss k)) = mset (map ID ss)"
    and part_nonempty: "distinct (map ID ss) \<Longrightarrow> [] \<notin> set (part ss k)"
begin

lemma part_set: "distinct (map ID ss) \<Longrightarrow> set (concat (part ss k)) = ID ` set ss"
  using part_conserves [of ss k] by (metis list.set_map set_mset_mset)

lemma part_distinct: "distinct (map ID ss) \<Longrightarrow> distinct (concat (part ss k))"
  using part_conserves [of ss k] by (metis mset_eq_imp_distinct_iff)

lemma part_disjoint:
  assumes "distinct (map ID ss)" "part ss k = xs @ b # ys"
  shows "set b \<inter> set (concat xs) = {}"
  using part_distinct [OF assms(1), of k] unfolding assms(2) by auto

end

definition naive_checker :: "StewardMeta list \<Rightarrow> int \<Rightarrow> string list list" where
  "naive_checker ss k = naivePartition (map ID ss) k"

interpretation dna: quorum_checker Partition
  by unfold_locales (use partition_ok in blast)+

interpretation nv: quorum_checker naive_checker
proof
  fix ss :: "StewardMeta list" and k :: int
  have n: "ss \<noteq> [] \<Longrightarrow> 0 < effective_size k ss" by (simp add: effective_size_def)
  have e: "naive_checker ss k = (if ss = [] then [] else slices (effective_size k ss) (map ID ss))"
    by (simp add: naive_checker_def naivePartition_def effective_size_def)
  show "mset (concat (naive_checker ss k)) = mset (map ID ss)" using n by (simp add: e concat_slices)
  show "[] \<notin> set (naive_checker ss k)" using slices_sizes by (auto simp: e)
qed

section \<open>Properties\<close>

text \<open>C14: the quorum-aware partition. For stewards with different identifiers, the batches hold
  every steward exactly once, no batch is empty or larger than the batch size (the number of
  stewards when the size is not positive), and no batch holds two stewards with the same
  non-empty cluster role.\<close>

theorem Partition_quorum:
  assumes "distinct (map ID stewards)"
  shows "mset (concat (Partition stewards batchSize)) = mset (map ID stewards) \<and>
    (\<forall>b \<in> set (Partition stewards batchSize).
       b \<noteq> [] \<and> length b \<le> effective_size batchSize stewards \<and> role_ok (role_in stewards) b)"
  using assms by (rule partition_ok)

definition cluster_fleet :: "StewardMeta list" where
  "cluster_fleet =
     [\<lparr>ID = ''a1'', DNAAttributes = [''cluster_role'' \<mapsto> ''hv'']\<rparr>,
      \<lparr>ID = ''p'', DNAAttributes = Map.empty\<rparr>,
      \<lparr>ID = ''a2'', DNAAttributes = [''cluster_role'' \<mapsto> ''hv'']\<rparr>,
      \<lparr>ID = ''s1'', DNAAttributes = [''cluster_role'' \<mapsto> ''sql'']\<rparr>]"

theorem Partition_quorum_witness:
  "distinct (map ID cluster_fleet) \<and>
   list_all (\<lambda>b. b \<noteq> [] \<and> length b \<le> 3 \<and> role_ok (role_in cluster_fleet) b) (Partition cluster_fleet 3)"
proof -
  have d: "distinct (map ID cluster_fleet)" by (simp add: cluster_fleet_def)
  have n: "effective_size 3 cluster_fleet = 3" by (simp add: effective_size_def)
  show ?thesis using Partition_quorum [OF d, of 3] d unfolding n list_all_iff by blast
qed

end
