(* ===== verification/Batch_Job.thy ===== *)
theory Batch_Job
  imports Batch_Partition
begin

text \<open>
  Rolling batch jobs: the part of the command publisher that tracks commands awaiting an answer
  (\<open>features/controller/commands/publisher.go\<close>), the SQLite store of the jobs
  (\<open>store_sqlite.go\<close>), and the executor with its rollback (\<open>executor.go\<close>, \<open>rollback.go\<close>, all in
  \<open>features/controller/batchjob\<close>). The world is a record with the database, the publisher and
  the inputs still to come: whether the next database call fails, the next clock reading,
  whether the context is found cancelled, and for each command what the control plane answers
  to the send and which events and timer expiries arrive before the next send. A wait for
  results that has no more arrivals ends with the cancellation of its context. The log is a
  record of what was sent and answered; no operation reads it.
\<close>

section \<open>The command publisher\<close>

datatype EventType = CommandReceived | CommandCompleted | CommandFailed | OtherEvent

datatype send_result = Sent | LockedDown | SendFailed

datatype arrival = Event nat EventType | Expiry nat

text \<open>A pending command: its steward, whether its timer is armed, and the channel its callbacks write to.\<close>

record pendingCommand =
  pc_StewardID :: string
  pc_timer :: bool
  pc_chan :: nat

record Publisher =
  pending :: "(nat \<times> pendingCommand) list"
  nextCommandID :: nat

datatype callback = OnComplete EventType | OnTimeout

definition PublishCommandWithCallback :: "string \<Rightarrow> nat \<Rightarrow> send_result \<Rightarrow> Publisher \<Rightarrow> Publisher" where
  "PublishCommandWithCallback stewardID chan r p =
     (if r = Sent
      then p\<lparr>pending := put (nextCommandID p) \<lparr>pc_StewardID = stewardID, pc_timer = True, pc_chan = chan\<rparr> (pending p),
             nextCommandID := nextCommandID p + 1\<rparr>
      else p\<lparr>nextCommandID := nextCommandID p + 1\<rparr>)"

definition HandleEventUpdate ::
    "nat \<Rightarrow> EventType \<Rightarrow> Publisher \<Rightarrow> Publisher \<times> (pendingCommand \<times> callback) option" where
  "HandleEventUpdate cmd ty p =
     (case map_of (pending p) cmd of
        None \<Rightarrow> (p, None)
      | Some pc \<Rightarrow>
          (p\<lparr>pending := (if ty = CommandCompleted \<or> ty = CommandFailed then del cmd (pending p)
                        else put cmd (pc\<lparr>pc_timer := False\<rparr>) (pending p))\<rparr>,
           Some (pc, OnComplete ty)))"

definition handleCommandTimeout ::
    "nat \<Rightarrow> Publisher \<Rightarrow> Publisher \<times> (pendingCommand \<times> callback) option" where
  "handleCommandTimeout cmd p =
     (case map_of (pending p) cmd of
        None \<Rightarrow> (p, None)
      | Some pc \<Rightarrow>
          if pc_timer pc then (p\<lparr>pending := del cmd (pending p)\<rparr>, Some (pc, OnTimeout))
          else (p, None))"

section \<open>Jobs and the world\<close>

datatype BatchJobStatus = JPending | JRunning | JPaused | JCompleted | JFailed | JRolledBack

datatype BatchStepStatus = SPending | SRunning | SCompleted | SFailed | SRolledBack

record BatchStep =
  Index :: nat
  StewardIDs :: "string list"
  StepStatus :: BatchStepStatus
  StartedAt :: "instant option"
  CompletedAt :: "instant option"
  FailedIDs :: "string list"
  RollbackJobID :: string

record BatchJobConfig =
  BatchSize :: int
  PreviousConfigRef :: string

record BatchJob =
  JobID :: string
  TenantID :: string
  JobSelector :: string
  JobConfig :: BatchJobConfig
  Targets :: "string list"
  JobStatus :: BatchJobStatus
  Steps :: "BatchStep list"
  CreatedAt :: instant
  UpdatedAt :: instant
  InitiatedBy :: string

datatype log_entry =
    LSent nat string "string option"
  | LRefused nat string
  | LCompleted nat string

record World =
  db_jobs :: "(string \<times> BatchJob) list"
  db_steps :: "((string \<times> nat) \<times> BatchStep) list"
  publisher :: Publisher
  channels :: nat
  faults :: "bool list"
  clock :: "instant list"
  cancels :: "bool list"
  sends :: "(send_result \<times> arrival list) list"
  log :: "log_entry list"

definition next_fault :: "World \<Rightarrow> bool \<times> World" where
  "next_fault w = (case faults w of [] \<Rightarrow> (False, w) | f # fs \<Rightarrow> (f, w\<lparr>faults := fs\<rparr>))"

definition now :: "World \<Rightarrow> instant \<times> World" where
  "now w = (case clock w of [] \<Rightarrow> (0, w) | t # ts \<Rightarrow> (t, w\<lparr>clock := ts\<rparr>))"

definition ctx_Err :: "World \<Rightarrow> bool \<times> World" where
  "ctx_Err w = (case cancels w of [] \<Rightarrow> (False, w) | c # cs \<Rightarrow> (c, w\<lparr>cancels := cs\<rparr>))"

definition next_send :: "World \<Rightarrow> (send_result \<times> arrival list) \<times> World" where
  "next_send w = (case sends w of [] \<Rightarrow> ((Sent, []), w) | s # ss \<Rightarrow> (s, w\<lparr>sends := ss\<rparr>))"

section \<open>The job store\<close>

datatype batch_error = DatabaseError | ErrBatchJobNotFound | DuplicateJob | LookupFailed | Cancelled

text \<open>
  The table of jobs holds every job without its steps, the table of steps is keyed by job and
  index. A failing call leaves both as they are: each writes in one statement or one
  transaction.
\<close>

definition insertSteps ::
    "string \<Rightarrow> BatchStep list \<Rightarrow> ((string \<times> nat) \<times> BatchStep) list \<Rightarrow> ((string \<times> nat) \<times> BatchStep) list option" where
  "insertSteps jobID steps table =
     foldl (\<lambda>t s. case t of
              None \<Rightarrow> None
            | Some m \<Rightarrow> if map_of m (jobID, Index s) = None then Some (put (jobID, Index s) s m) else None)
       (Some table) steps"

definition CreateBatchJob :: "BatchJob \<Rightarrow> World \<Rightarrow> batch_error option \<times> World" where
  "CreateBatchJob job w =
     (let (f, w) = next_fault w
      in if f then (Some DatabaseError, w)
         else if map_of (db_jobs w) (JobID job) \<noteq> None then (Some DuplicateJob, w)
         else (case insertSteps (JobID job) (Steps job) (db_steps w) of
                 None \<Rightarrow> (Some DuplicateJob, w)
               | Some steps \<Rightarrow>
                   (None, w\<lparr>db_jobs := put (JobID job) (job\<lparr>Steps := []\<rparr>) (db_jobs w), db_steps := steps\<rparr>)))"

definition UpdateBatchJobStatus :: "string \<Rightarrow> BatchJobStatus \<Rightarrow> World \<Rightarrow> batch_error option \<times> World" where
  "UpdateBatchJobStatus jobID status w =
     (let (t, w) = now w; (f, w) = next_fault w
      in if f then (Some DatabaseError, w)
         else (case map_of (db_jobs w) jobID of
                 None \<Rightarrow> (Some ErrBatchJobNotFound, w)
               | Some j \<Rightarrow>
                   (None, w\<lparr>db_jobs := put jobID (j\<lparr>JobStatus := status, UpdatedAt := t\<rparr>) (db_jobs w)\<rparr>)))"

definition UpdateBatchTargets :: "string \<Rightarrow> string list \<Rightarrow> World \<Rightarrow> batch_error option \<times> World" where
  "UpdateBatchTargets jobID targets w =
     (let (t, w) = now w; (f, w) = next_fault w
      in if f then (Some DatabaseError, w)
         else (case map_of (db_jobs w) jobID of
                 None \<Rightarrow> (Some ErrBatchJobNotFound, w)
               | Some j \<Rightarrow>
                   (None, w\<lparr>db_jobs := put jobID (j\<lparr>Targets := targets, UpdatedAt := t\<rparr>) (db_jobs w)\<rparr>)))"

definition UpdateBatchStep :: "string \<Rightarrow> BatchStep \<Rightarrow> World \<Rightarrow> batch_error option \<times> World" where
  "UpdateBatchStep jobID step w =
     (let (t, w) = now w; (f, w) = next_fault w
      in if f then (Some DatabaseError, w)
         else (case map_of (db_jobs w) jobID of
                 None \<Rightarrow> (Some ErrBatchJobNotFound, w)
               | Some j \<Rightarrow>
                   (None, w\<lparr>db_steps := put (jobID, Index step) step (del (jobID, Index step) (db_steps w)),
                            db_jobs := put jobID (j\<lparr>UpdatedAt := t\<rparr>) (db_jobs w)\<rparr>)))"

definition loadSteps :: "string \<Rightarrow> World \<Rightarrow> BatchStep list" where
  "loadSteps jobID w = sort_key Index (map snd (filter (\<lambda>((j, _), _). j = jobID) (db_steps w)))"

definition GetBatchJob :: "string \<Rightarrow> World \<Rightarrow> (batch_error + BatchJob) \<times> World" where
  "GetBatchJob jobID w =
     (let (f, w) = next_fault w
      in if f then (Inl DatabaseError, w)
         else (case map_of (db_jobs w) jobID of
                 None \<Rightarrow> (Inl ErrBatchJobNotFound, w)
               | Some j \<Rightarrow> (Inr (j\<lparr>Steps := loadSteps jobID w\<rparr>), w)))"

definition ListBatchJobsByTenant :: "string \<Rightarrow> World \<Rightarrow> (batch_error + BatchJob list) \<times> World" where
  "ListBatchJobsByTenant tenantID w =
     (let (f, w) = next_fault w
      in if f then (Inl DatabaseError, w)
         else (Inr (map (\<lambda>j. j\<lparr>Steps := loadSteps (JobID j) w\<rparr>)
                 (sort_key CreatedAt (filter (\<lambda>j. TenantID j = tenantID) (map snd (db_jobs w))))), w))"

definition ListBatchJobs :: "string \<Rightarrow> nat \<Rightarrow> nat \<Rightarrow> World \<Rightarrow> (batch_error + BatchJob list) \<times> World" where
  "ListBatchJobs tenantID limit offset w =
     (let (f, w) = next_fault w
      in if f then (Inl DatabaseError, w)
         else (Inr (map (\<lambda>j. j\<lparr>Steps := loadSteps (JobID j) w\<rparr>)
                 (take limit (drop offset
                   (sort_key (\<lambda>j. - CreatedAt j)
                     (filter (\<lambda>j. tenantID = [] \<or> TenantID j = tenantID) (map snd (db_jobs w))))))), w))"

section \<open>Dispatching a batch\<close>

text \<open>A callback of the dispatch that owns channel \<open>n\<close> writes its result to the channel.\<close>

definition run_callback ::
    "nat \<Rightarrow> (pendingCommand \<times> callback) option \<Rightarrow> (string \<times> bool) list \<Rightarrow> World \<Rightarrow> (string \<times> bool) list \<times> World" where
  "run_callback n cb ch w =
     (case cb of
        None \<Rightarrow> (ch, w)
      | Some (pc, c) \<Rightarrow>
          let ok = (c = OnComplete CommandCompleted)
          in (if pc_chan pc = n then ch @ [(pc_StewardID pc, ok)] else ch,
              if ok then w\<lparr>log := log w @ [LCompleted (pc_chan pc) (pc_StewardID pc)]\<rparr> else w))"

definition arrive ::
    "nat \<Rightarrow> arrival \<Rightarrow> (string \<times> bool) list \<Rightarrow> World \<Rightarrow> (string \<times> bool) list \<times> World" where
  "arrive n a ch w =
     (let (p, cb) = (case a of
                       Event cmd ty \<Rightarrow> HandleEventUpdate cmd ty (publisher w)
                     | Expiry cmd \<Rightarrow> handleCommandTimeout cmd (publisher w))
      in run_callback n cb ch (w\<lparr>publisher := p\<rparr>))"

fun deliver :: "nat \<Rightarrow> arrival list \<Rightarrow> (string \<times> bool) list \<Rightarrow> World \<Rightarrow> (string \<times> bool) list \<times> World" where
  "deliver n [] ch w = (ch, w)"
| "deliver n (a # as) ch w = (let (ch, w) = arrive n a ch w in deliver n as ch w)"

definition send_one ::
    "nat \<Rightarrow> string option \<Rightarrow> string \<Rightarrow> (string \<times> bool) list \<Rightarrow> World \<Rightarrow> (string \<times> bool) list \<times> World" where
  "send_one n ref i ch w =
     (let ((r, as), w) = next_send w;
          w = w\<lparr>publisher := PublishCommandWithCallback i n r (publisher w)\<rparr>
      in case r of
           Sent \<Rightarrow> deliver n as ch (w\<lparr>log := log w @ [LSent n i ref]\<rparr>)
         | LockedDown \<Rightarrow> deliver n as (ch @ [(i, True)]) (w\<lparr>log := log w @ [LRefused n i]\<rparr>)
         | SendFailed \<Rightarrow> deliver n as (ch @ [(i, False)]) w)"

fun send_all ::
    "nat \<Rightarrow> string option \<Rightarrow> string list \<Rightarrow> (string \<times> bool) list \<Rightarrow> World \<Rightarrow> (string \<times> bool) list \<times> World" where
  "send_all n ref [] ch w = (ch, w)"
| "send_all n ref (i # ids) ch w = (let (ch, w) = send_one n ref i ch w in send_all n ref ids ch w)"

text \<open>
  \<open>dispatchBatch\<close> and \<open>dispatchRollbackBatch\<close> differ in the parameters of the command (none, or
  the reference of the previous configuration) and in the timeout; both read as many results
  as the batch has members.
\<close>

definition dispatch :: "string option \<Rightarrow> string list \<Rightarrow> World \<Rightarrow> (batch_error + string list) \<times> World" where
  "dispatch ref batch w =
     (let n = channels w;
          (ch, w) = send_all n ref batch [] (w\<lparr>channels := n + 1\<rparr>);
          results = take (length batch) ch
      in if length results < length batch then (Inl Cancelled, w)
         else (Inr (map fst (filter (\<lambda>(_, success). \<not> success) results)), w))"

definition dispatchBatch :: "string list \<Rightarrow> World \<Rightarrow> (batch_error + string list) \<times> World" where
  "dispatchBatch batch w = dispatch None batch w"

definition dispatchRollbackBatch :: "string list \<Rightarrow> string \<Rightarrow> World \<Rightarrow> (batch_error + string list) \<times> World" where
  "dispatchRollbackBatch stewardIDs config_ref w = dispatch (Some config_ref) stewardIDs w"

section \<open>Rollback\<close>

definition setRollbackJobStatus :: "BatchJob \<Rightarrow> BatchJobStatus \<Rightarrow> World \<Rightarrow> BatchJob \<times> World" where
  "setRollbackJobStatus job status w =
     (let (_, w) = UpdateBatchJobStatus (JobID job) status w in (job\<lparr>JobStatus := status\<rparr>, w))"

definition completedStepsOf :: "BatchStep list \<Rightarrow> BatchStep list" where
  "completedStepsOf steps = filter (\<lambda>s. StepStatus s = SCompleted) steps"

fun rollbackSteps :: "BatchJob \<Rightarrow> BatchStep list \<Rightarrow> bool \<Rightarrow> World \<Rightarrow> bool \<times> World" where
  "rollbackSteps job [] allSucceeded w = (allSucceeded, w)"
| "rollbackSteps job (step # steps) allSucceeded w =
     (case dispatchRollbackBatch (StewardIDs step) (PreviousConfigRef (JobConfig job)) w of
        (Inl _, w) \<Rightarrow> (False, w)
      | (Inr failedIDs, w) \<Rightarrow>
          if failedIDs \<noteq> [] then rollbackSteps job steps False w
          else (let (_, w) = UpdateBatchStep (JobID job) (step\<lparr>StepStatus := SRolledBack\<rparr>) w
                in rollbackSteps job steps allSucceeded w))"

definition rollbackAppliedSteps :: "BatchJob \<Rightarrow> World \<Rightarrow> BatchJob \<times> World" where
  "rollbackAppliedSteps job w =
     (case GetBatchJob (JobID job) w of
        (Inl _, w) \<Rightarrow> setRollbackJobStatus job JFailed w
      | (Inr current, w) \<Rightarrow>
          let completedSteps = completedStepsOf (Steps current)
          in if completedSteps = [] then setRollbackJobStatus job JPaused w
             else (let (ok, w) = rollbackSteps job completedSteps True w
                   in if ok then setRollbackJobStatus job JRolledBack w
                      else setRollbackJobStatus job JFailed w))"

section \<open>Execution\<close>

definition handleFailedStep :: "BatchJob \<Rightarrow> BatchStep \<Rightarrow> string list \<Rightarrow> World \<Rightarrow> BatchJob \<times> World" where
  "handleFailedStep job step failedIDs w =
     (let (_, w) = UpdateBatchStep (JobID job) (step\<lparr>StepStatus := SFailed, FailedIDs := failedIDs\<rparr>) w
      in if PreviousConfigRef (JobConfig job) \<noteq> [] then rollbackAppliedSteps job w
         else (let (_, w) = UpdateBatchJobStatus (JobID job) JPaused w
               in (job\<lparr>JobStatus := JPaused\<rparr>, w)))"

text \<open>\<open>runBatchStep\<close>: an error, or whether the job has stopped; with the job and the world.\<close>

definition runBatchStep ::
    "BatchJob \<Rightarrow> nat \<Rightarrow> string list \<Rightarrow> World \<Rightarrow> (batch_error + bool) \<times> BatchJob \<times> World" where
  "runBatchStep job i batch w =
     (let (t, w) = now w;
          step = \<lparr>Index = i, StewardIDs = batch, StepStatus = SRunning, StartedAt = Some t,
                  CompletedAt = None, FailedIDs = [], RollbackJobID = []\<rparr>
      in case UpdateBatchStep (JobID job) step w of
           (Some e, w) \<Rightarrow> (Inl e, job, w)
         | (None, w) \<Rightarrow>
             (case dispatchBatch batch w of
                (Inl e, w) \<Rightarrow> (Inl e, job, w)
              | (Inr failedIDs, w) \<Rightarrow>
                  let (t', w) = now w; step = step\<lparr>CompletedAt := Some t'\<rparr>
                  in if failedIDs \<noteq> []
                     then (let (job, w) = handleFailedStep job step failedIDs w in (Inr True, job, w))
                     else (case UpdateBatchStep (JobID job) (step\<lparr>StepStatus := SCompleted\<rparr>) w of
                             (Some e, w) \<Rightarrow> (Inl e, job, w)
                           | (None, w) \<Rightarrow> (Inr False, job, w))))"

fun run_batches ::
    "BatchJob \<Rightarrow> nat \<Rightarrow> string list list \<Rightarrow> World \<Rightarrow> (batch_error + bool) \<times> BatchJob \<times> World" where
  "run_batches job i [] w = (Inr False, job, w)"
| "run_batches job i (batch # batches) w =
     (let (c, w) = ctx_Err w
      in if c then (Inl Cancelled, job, w)
         else (case runBatchStep job i batch w of
                 (Inl e, job, w) \<Rightarrow> (Inl e, job, w)
               | (Inr True, job, w) \<Rightarrow> (Inr True, job, w)
               | (Inr False, job, w) \<Rightarrow> run_batches job (Suc i) batches w))"

text \<open>
  The executor's dependencies that are interfaces in the source: the metadata lookup, and the
  quorum checker, which may be absent.
\<close>

definition partitionTargets ::
    "(StewardMeta list \<Rightarrow> int \<Rightarrow> string list list) option \<Rightarrow> (string list \<Rightarrow> StewardMeta list option) \<Rightarrow>
     BatchJob \<Rightarrow> batch_error + string list list" where
  "partitionTargets quorumCheck Lookup job =
     (let ids = dedupeIDs (Targets job)
      in if ids = [] then Inr []
         else (case quorumCheck of
                 None \<Rightarrow> Inr (naivePartition ids (BatchSize (JobConfig job)))
               | Some part \<Rightarrow>
                   (case Lookup ids of
                      None \<Rightarrow> Inl LookupFailed
                    | Some found \<Rightarrow> Inr (part (orderedMeta ids found) (BatchSize (JobConfig job))))))"

definition Execute ::
    "(StewardMeta list \<Rightarrow> int \<Rightarrow> string list list) option \<Rightarrow> (string list \<Rightarrow> StewardMeta list option) \<Rightarrow>
     BatchJob \<Rightarrow> World \<Rightarrow> batch_error option \<times> BatchJob \<times> World" where
  "Execute quorumCheck Lookup job w =
     (case partitionTargets quorumCheck Lookup job of
        Inl e \<Rightarrow> (Some e, job, w)
      | Inr batches \<Rightarrow>
          (case UpdateBatchJobStatus (JobID job) JRunning w of
             (Some e, w) \<Rightarrow> (Some e, job, w)
           | (None, w) \<Rightarrow>
               (case run_batches (job\<lparr>JobStatus := JRunning\<rparr>) 0 batches w of
                  (Inl e, job, w) \<Rightarrow> (Some e, job, w)
                | (Inr True, job, w) \<Rightarrow> (None, job, w)
                | (Inr False, job, w) \<Rightarrow>
                    (case UpdateBatchJobStatus (JobID job) JCompleted w of
                       (Some e, w) \<Rightarrow> (Some e, job, w)
                     | (None, w) \<Rightarrow> (None, job\<lparr>JobStatus := JCompleted\<rparr>, w)))))"

end
