(* ===== verification/Batch_Laws.thy ===== *)
theory Batch_Laws
  imports Batch_Job
begin

text \<open>
  What a rolling batch job guarantees, whatever the stewards answer, the database fails and the
  context is cancelled: a command only goes to an authorized steward, a batch starts only when
  every member of the batches before it has succeeded or was refused, and a rollback only goes
  to batches that were completed. The counting of results per steward comes first: a success
  is reported at most once per command.
\<close>

section \<open>The publisher\<close>

definition pending_for :: "nat \<Rightarrow> string \<Rightarrow> World \<Rightarrow> nat" where
  "pending_for n i w =
     size (filter_mset (\<lambda>(_, pc). pc_chan pc = n \<and> pc_StewardID pc = i) (mset (pending (publisher w))))"

definition successes :: "string \<Rightarrow> (string \<times> bool) list \<Rightarrow> nat" where
  "successes i ch = count (mset ch) (i, True)"

definition pub_ok :: "World \<Rightarrow> bool" where
  "pub_ok w \<longleftrightarrow>
     distinct (keys (pending (publisher w))) \<and>
     (\<forall>(k, pc) \<in> set (pending (publisher w)). k < nextCommandID (publisher w) \<and> pc_chan pc < channels w)"

text \<open>What an arrival may change, for the dispatch with channel \<open>n\<close>.\<close>

definition arrivals_ok :: "nat \<Rightarrow> (string \<times> bool) list \<Rightarrow> World \<Rightarrow> (string \<times> bool) list \<Rightarrow> World \<Rightarrow> bool" where
  "arrivals_ok n ch w ch' w' \<longleftrightarrow>
     db_jobs w' = db_jobs w \<and> db_steps w' = db_steps w \<and> channels w' = channels w \<and> pub_ok w' \<and>
     (\<exists>ms ext. ch' = ch @ ms \<and> log w' = log w @ ext \<and>
        (\<forall>e \<in> set ext. \<exists>m j. e = LCompleted m j) \<and>
        (\<forall>i. (i, True) \<in> set ms \<longrightarrow> LCompleted n i \<in> set ext)) \<and>
     (\<forall>i. successes i ch' + pending_for n i w' \<le> successes i ch + pending_for n i w)"

lemma arrivals_ok_refl: "pub_ok w \<Longrightarrow> arrivals_ok n ch w ch w"
  by (auto simp: arrivals_ok_def)

lemma arrivals_ok_trans:
  assumes "arrivals_ok n ch w ch1 w1" "arrivals_ok n ch1 w1 ch2 w2"
  shows "arrivals_ok n ch w ch2 w2"
proof -
  obtain ms1 ext1 where 1: "ch1 = ch @ ms1" "log w1 = log w @ ext1"
    "\<forall>e \<in> set ext1. \<exists>m j. e = LCompleted m j" "\<forall>i. (i, True) \<in> set ms1 \<longrightarrow> LCompleted n i \<in> set ext1"
    using assms(1) unfolding arrivals_ok_def by blast
  obtain ms2 ext2 where 2: "ch2 = ch1 @ ms2" "log w2 = log w1 @ ext2"
    "\<forall>e \<in> set ext2. \<exists>m j. e = LCompleted m j" "\<forall>i. (i, True) \<in> set ms2 \<longrightarrow> LCompleted n i \<in> set ext2"
    using assms(2) unfolding arrivals_ok_def by blast
  have "\<exists>ms ext. ch2 = ch @ ms \<and> log w2 = log w @ ext \<and> (\<forall>e \<in> set ext. \<exists>m j. e = LCompleted m j) \<and>
      (\<forall>i. (i, True) \<in> set ms \<longrightarrow> LCompleted n i \<in> set ext)"
    using 1 2 by (intro exI [of _ "ms1 @ ms2"] exI [of _ "ext1 @ ext2"]) auto
  moreover have "successes i ch2 + pending_for n i w2 \<le> successes i ch + pending_for n i w" for i
    using assms unfolding arrivals_ok_def by (meson order_trans)
  ultimately show ?thesis using assms unfolding arrivals_ok_def by auto
qed

lemma pending_del:
  assumes "pub_ok w" "map_of (pending (publisher w)) cmd = Some pc" "publisher w' = (publisher w)\<lparr>pending := del cmd (pending (publisher w))\<rparr>"
  shows "pending_for n i w' + (if pc_chan pc = n \<and> pc_StewardID pc = i then 1 else 0) = pending_for n i w"
proof -
  have "mset (pending (publisher w)) = add_mset (cmd, pc) (mset (del cmd (pending (publisher w))))"
    using assms(1,2) by (intro mset_del) (simp_all add: pub_ok_def)
  then show ?thesis by (simp add: pending_for_def assms(3))
qed

lemma pending_timer:
  assumes "pub_ok w" "map_of (pending (publisher w)) cmd = Some pc"
    "publisher w' = (publisher w)\<lparr>pending := put cmd (pc\<lparr>pc_timer := False\<rparr>) (pending (publisher w))\<rparr>"
  shows "pending_for n i w' = pending_for n i w"
proof -
  have d: "distinct (keys (pending (publisher w)))" using assms(1) by (simp add: pub_ok_def)
  from mset_del [OF d assms(2)] mset_put [OF d, of cmd "pc\<lparr>pc_timer := False\<rparr>"]
  show ?thesis by (simp add: pending_for_def assms(3))
qed

lemma pub_ok_del:
  "pub_ok w \<Longrightarrow> publisher w' = (publisher w)\<lparr>pending := del cmd (pending (publisher w))\<rparr> \<Longrightarrow>
     channels w' = channels w \<Longrightarrow> pub_ok w'"
  by (auto simp: pub_ok_def set_del)

lemma pub_ok_timer:
  assumes "pub_ok w" "map_of (pending (publisher w)) cmd = Some pc"
    "publisher w' = (publisher w)\<lparr>pending := put cmd (pc\<lparr>pc_timer := False\<rparr>) (pending (publisher w))\<rparr>"
    "channels w' = channels w"
  shows "pub_ok w'"
  using assms map_of_SomeD [OF assms(2)] by (auto simp: pub_ok_def set_put)

lemma arrive_event:
  assumes "pub_ok w" "arrive n (Event cmd ty) ch w = (ch', w')"
  shows "arrivals_ok n ch w ch' w'"
proof (cases "map_of (pending (publisher w)) cmd")
  case None
  then show ?thesis using assms
    by (auto simp: arrive_def HandleEventUpdate_def run_callback_def intro!: arrivals_ok_refl)
next
  case (Some pc)
  define P where "P = (if ty = CommandCompleted \<or> ty = CommandFailed
    then (publisher w)\<lparr>pending := del cmd (pending (publisher w))\<rparr>
    else (publisher w)\<lparr>pending := put cmd (pc\<lparr>pc_timer := False\<rparr>) (pending (publisher w))\<rparr>)"
  have ch': "ch' = (if pc_chan pc = n then ch @ [(pc_StewardID pc, ty = CommandCompleted)] else ch)"
    and w': "publisher w' = P" "db_jobs w' = db_jobs w" "db_steps w' = db_steps w" "channels w' = channels w"
      "log w' = log w @ (if ty = CommandCompleted then [LCompleted (pc_chan pc) (pc_StewardID pc)] else [])"
    using assms(2) Some
    by (auto simp: arrive_def HandleEventUpdate_def run_callback_def Let_def P_def split: if_splits)
  have "pub_ok w'"
    using pub_ok_del [OF assms(1), of w' cmd] pub_ok_timer [OF assms(1) Some, of w'] w' P_def by (auto split: if_splits)
  moreover have "successes i ch' + pending_for n i w' \<le> successes i ch + pending_for n i w" for i
  proof (cases "ty = CommandCompleted \<or> ty = CommandFailed")
    case True
    then show ?thesis using pending_del [OF assms(1) Some, of w' n i] w'(1)
      by (auto simp: P_def ch' successes_def)
  next
    case False
    then show ?thesis using pending_timer [OF assms(1) Some, of w' n i] w'(1)
      by (auto simp: P_def ch' successes_def)
  qed
  ultimately show ?thesis
    using w' ch' unfolding arrivals_ok_def by (auto split: if_splits)
qed

lemma arrive_expiry:
  assumes "pub_ok w" "arrive n (Expiry cmd) ch w = (ch', w')"
  shows "arrivals_ok n ch w ch' w'"
proof (cases "\<exists>pc. map_of (pending (publisher w)) cmd = Some pc \<and> pc_timer pc")
  case False
  then show ?thesis using assms
    by (auto simp: arrive_def handleCommandTimeout_def run_callback_def split: option.splits intro!: arrivals_ok_refl)
next
  case True
  then obtain pc where pc: "map_of (pending (publisher w)) cmd = Some pc" "pc_timer pc" by blast
  have ch': "ch' = (if pc_chan pc = n then ch @ [(pc_StewardID pc, False)] else ch)"
    and w': "w' = w\<lparr>publisher := (publisher w)\<lparr>pending := del cmd (pending (publisher w))\<rparr>\<rparr>"
    using assms(2) pc by (auto simp: arrive_def handleCommandTimeout_def run_callback_def Let_def split: if_splits)
  have "pub_ok w'" using pub_ok_del [OF assms(1), of w' cmd] w' by simp
  moreover have "successes i ch' + pending_for n i w' \<le> successes i ch + pending_for n i w" for i
    using pending_del [OF assms(1) pc(1), of w' n i] by (auto simp: ch' w' successes_def)
  ultimately show ?thesis using ch' unfolding arrivals_ok_def by (auto simp: w' split: if_splits)
qed

lemma deliver_ok: "pub_ok w \<Longrightarrow> deliver n as ch w = (ch', w') \<Longrightarrow> arrivals_ok n ch w ch' w'"
proof (induction as arbitrary: ch w)
  case (Cons a as)
  obtain ch1 w1 where a: "arrive n a ch w = (ch1, w1)" by force
  have 1: "arrivals_ok n ch w ch1 w1"
    using a Cons.prems(1) arrive_event arrive_expiry by (cases a) auto
  moreover have "arrivals_ok n ch1 w1 ch' w'"
    using Cons a 1 by (auto simp: arrivals_ok_def)
  ultimately show ?case by (rule arrivals_ok_trans)
qed (simp add: arrivals_ok_refl)

section \<open>One dispatch\<close>

definition answered :: "nat \<Rightarrow> string \<Rightarrow> log_entry list \<Rightarrow> bool" where
  "answered n i L \<longleftrightarrow> LCompleted n i \<in> set L \<or> LRefused n i \<in> set L"

definition entry_of :: "nat \<Rightarrow> string option \<Rightarrow> string list \<Rightarrow> log_entry \<Rightarrow> bool" where
  "entry_of n ref ids e \<longleftrightarrow>
     (\<exists>m j. e = LCompleted m j) \<or> (\<exists>i \<in> set ids. e = LSent n i ref \<or> e = LRefused n i)"

definition sends_ok ::
    "nat \<Rightarrow> string option \<Rightarrow> string list \<Rightarrow> (string \<times> bool) list \<Rightarrow> World \<Rightarrow> (string \<times> bool) list \<Rightarrow> World \<Rightarrow> bool" where
  "sends_ok n ref ids ch w ch' w' \<longleftrightarrow>
     db_jobs w' = db_jobs w \<and> db_steps w' = db_steps w \<and> channels w' = channels w \<and> pub_ok w' \<and>
     (\<exists>ms ext. ch' = ch @ ms \<and> log w' = log w @ ext \<and> (\<forall>e \<in> set ext. entry_of n ref ids e) \<and>
        (\<forall>i. (i, True) \<in> set ms \<longrightarrow> answered n i ext)) \<and>
     (\<forall>i. successes i ch' + pending_for n i w' \<le> successes i ch + pending_for n i w + count (mset ids) i)"

lemma sends_ok_Nil: "pub_ok w \<Longrightarrow> sends_ok n ref [] ch w ch w"
  by (auto simp: sends_ok_def)

lemma sends_ok_append:
  assumes "sends_ok n ref ids ch w ch1 w1" "sends_ok n ref ids' ch1 w1 ch2 w2"
  shows "sends_ok n ref (ids @ ids') ch w ch2 w2"
proof -
  obtain ms1 ext1 where 1: "ch1 = ch @ ms1" "log w1 = log w @ ext1"
    "\<forall>e \<in> set ext1. entry_of n ref ids e" "\<forall>i. (i, True) \<in> set ms1 \<longrightarrow> answered n i ext1"
    using assms(1) unfolding sends_ok_def by blast
  obtain ms2 ext2 where 2: "ch2 = ch1 @ ms2" "log w2 = log w1 @ ext2"
    "\<forall>e \<in> set ext2. entry_of n ref ids' e" "\<forall>i. (i, True) \<in> set ms2 \<longrightarrow> answered n i ext2"
    using assms(2) unfolding sends_ok_def by blast
  have "\<exists>ms ext. ch2 = ch @ ms \<and> log w2 = log w @ ext \<and> (\<forall>e \<in> set ext. entry_of n ref (ids @ ids') e) \<and>
      (\<forall>i. (i, True) \<in> set ms \<longrightarrow> answered n i ext)"
    using 1 2 by (intro exI [of _ "ms1 @ ms2"] exI [of _ "ext1 @ ext2"]) (auto simp: entry_of_def answered_def)
  moreover have "successes i ch2 + pending_for n i w2 \<le>
      successes i ch + pending_for n i w + count (mset (ids @ ids')) i" for i
  proof -
    have "successes i ch1 + pending_for n i w1 \<le> successes i ch + pending_for n i w + count (mset ids) i"
      "successes i ch2 + pending_for n i w2 \<le> successes i ch1 + pending_for n i w1 + count (mset ids') i"
      using assms unfolding sends_ok_def by blast+
    then show ?thesis by simp
  qed
  ultimately show ?thesis using assms unfolding sends_ok_def by auto
qed

lemma publish_ok:
  assumes "pub_ok w" "n < channels w" and w': "publisher w' = PublishCommandWithCallback i n r (publisher w)"
    "channels w' = channels w"
  shows "pub_ok w'" "pending_for n j w' = pending_for n j w + (if r = Sent \<and> i = j then 1 else 0)"
proof -
  let ?p = "publisher w"
  have d: "distinct (keys (pending ?p))" and fresh: "map_of (pending ?p) (nextCommandID ?p) = None"
    using assms(1) by (auto simp: pub_ok_def map_of_eq_None_iff)
  show "pub_ok w'"
    using assms d by (auto simp: pub_ok_def PublishCommandWithCallback_def set_put)
  show "pending_for n j w' = pending_for n j w + (if r = Sent \<and> i = j then 1 else 0)"
    by (simp add: pending_for_def w' PublishCommandWithCallback_def mset_put [OF d] del_absent [OF fresh])
qed

lemma send_one_ok:
  assumes "pub_ok w" "n < channels w" "send_one n ref i ch w = (ch', w')"
  shows "sends_ok n ref [i] ch w ch' w'"
proof -
  obtain r as w0 where s: "next_send w = ((r, as), w0)" by (cases "next_send w") auto
  have w0: "db_jobs w0 = db_jobs w" "db_steps w0 = db_steps w" "channels w0 = channels w"
    "publisher w0 = publisher w" "log w0 = log w"
    using s by (auto simp: next_send_def split: list.splits)
  define ext0 where "ext0 = (case r of Sent \<Rightarrow> [LSent n i ref] | LockedDown \<Rightarrow> [LRefused n i] | SendFailed \<Rightarrow> [])"
  define ms0 where "ms0 = (case r of Sent \<Rightarrow> [] | LockedDown \<Rightarrow> [(i, True)] | SendFailed \<Rightarrow> [(i, False)])"
  define w1 where "w1 = w0\<lparr>publisher := PublishCommandWithCallback i n r (publisher w0), log := log w0 @ ext0\<rparr>"
  have d: "deliver n as (ch @ ms0) w1 = (ch', w')"
    using assms(3) s by (cases r) (simp_all add: send_one_def w1_def ext0_def ms0_def)
  have p: "publisher w1 = PublishCommandWithCallback i n r (publisher w)" "channels w1 = channels w"
    by (simp_all add: w1_def w0)
  note P = publish_ok [OF assms(1,2) p]
  have a: "arrivals_ok n (ch @ ms0) w1 ch' w'" by (rule deliver_ok [OF P(1) d])
  then obtain ms ext where e: "ch' = ch @ ms0 @ ms" "log w' = log w @ ext0 @ ext"
    "\<forall>e \<in> set ext. \<exists>m j. e = LCompleted m j" "\<forall>i. (i, True) \<in> set ms \<longrightarrow> LCompleted n i \<in> set ext"
    unfolding arrivals_ok_def by (auto simp: w1_def w0)
  have "\<exists>ms ext. ch' = ch @ ms \<and> log w' = log w @ ext \<and> (\<forall>e \<in> set ext. entry_of n ref [i] e) \<and>
        (\<forall>i. (i, True) \<in> set ms \<longrightarrow> answered n i ext)"
    using e by (intro exI [of _ "ms0 @ ms"] exI [of _ "ext0 @ ext"])
      (auto simp: entry_of_def answered_def ext0_def ms0_def split: send_result.splits)
  moreover have "successes j ch' + pending_for n j w' \<le> successes j ch + pending_for n j w + count (mset [i]) j" for j
  proof -
    have "successes j ch' + pending_for n j w' \<le> successes j (ch @ ms0) + pending_for n j w1"
      using a unfolding arrivals_ok_def by blast
    then show ?thesis using P(2) [of j] by (cases r) (auto simp: ms0_def successes_def)
  qed
  ultimately show ?thesis using a unfolding sends_ok_def arrivals_ok_def by (auto simp: w1_def w0)
qed

lemma send_all_ok:
  "pub_ok w \<Longrightarrow> n < channels w \<Longrightarrow> send_all n ref ids ch w = (ch', w') \<Longrightarrow> sends_ok n ref ids ch w ch' w'"
proof (induction ids arbitrary: ch w)
  case (Cons i ids)
  obtain ch1 w1 where s: "send_one n ref i ch w = (ch1, w1)" by force
  note 1 = send_one_ok [OF Cons.prems(1,2) s]
  then have "pub_ok w1" "n < channels w1" using Cons.prems(2) by (auto simp: sends_ok_def)
  then have "sends_ok n ref ids ch1 w1 ch' w'" using Cons.IH Cons.prems(3) s by simp
  from sends_ok_append [OF 1 this] show ?case by simp
qed (simp add: sends_ok_Nil)

text \<open>A whole dispatch: what it leaves alone, what it logs, and what an empty list of failures means.\<close>

lemma covered:
  assumes "distinct b" "length b \<le> length ms" "\<forall>m \<in> set (take (length b) ms). snd m"
    and "\<forall>i. count (mset ms) (i, True) \<le> count (mset b) i"
  shows "\<forall>i \<in> set b. (i, True) \<in> set ms"
proof -
  define T where "T = take (length b) ms"
  have le: "count (mset T) a \<le> count (mset ms) a" for a
    unfolding T_def by (metis append_take_drop_id count_union le_add1 mset_append)
  have sub: "set T \<subseteq> (\<lambda>i. (i, True)) ` set b"
  proof
    fix a assume a: "a \<in> set T"
    then have "snd a" using assms(3) T_def by blast
    then obtain i where i: "a = (i, True)" by (metis prod.collapse)
    have "0 < count (mset T) a" using a by (simp add: count_greater_zero_iff)
    also have "count (mset T) a \<le> count (mset b) i" using le [of a] assms(4) i by (meson order_trans)
    finally have "i \<in> set b" by (simp add: count_greater_zero_iff)
    then show "a \<in> (\<lambda>i. (i, True)) ` set b" using i by blast
  qed
  have "count (mset T) a = (if a \<in> set T then 1 else 0)" for a
  proof (cases "a \<in> set T")
    case True
    then obtain i where i: "a = (i, True)" "i \<in> set b" using sub by blast
    have "count (mset T) a \<le> count (mset b) i" using le [of a] assms(4) i by (meson order_trans)
    also have "\<dots> = 1" using assms(1) i(2) by (simp add: distinct_count_atmost_1)
    finally have "count (mset T) a \<le> 1" .
    moreover have "0 < count (mset T) a" using True by (simp add: count_greater_zero_iff)
    ultimately have "count (mset T) a = 1" by linarith
    then show ?thesis using True by simp
  next
    case False
    then show ?thesis by (simp add: count_mset_0_iff)
  qed
  then have "distinct T" by (simp add: distinct_count_atmost_1)
  then have "card (set T) = length b" using assms(2) by (simp add: distinct_card T_def)
  moreover have "card ((\<lambda>i. (i, True)) ` set b) = length b"
    using assms(1) by (simp add: card_image inj_on_def distinct_card)
  ultimately have "set T = (\<lambda>i. (i, True)) ` set b" using sub by (simp add: card_subset_eq)
  then show ?thesis using in_set_takeD [of _ "length b" ms] unfolding T_def by blast
qed

lemma dispatch_ok:
  assumes "pub_ok w" "dispatch ref b w = (r, w')"
  obtains ext where "db_jobs w' = db_jobs w" "db_steps w' = db_steps w" "channels w' = Suc (channels w)"
    "pub_ok w'" "log w' = log w @ ext" "\<forall>e \<in> set ext. entry_of (channels w) ref b e"
    "r = Inr [] \<Longrightarrow> distinct b \<Longrightarrow> \<forall>i \<in> set b. answered (channels w) i ext"
proof -
  define n where "n = channels w"
  define w0 where "w0 = w\<lparr>channels := n + 1\<rparr>"
  obtain ch w1 where s: "send_all n ref b [] w0 = (ch, w1)" by force
  have ok: "pub_ok w0" using assms(1) by (auto simp: pub_ok_def w0_def n_def split: prod.splits)
  have S: "sends_ok n ref b [] w0 ch w1" by (rule send_all_ok [OF ok _ s]) (simp add: w0_def)
  then obtain ext where e: "log w1 = log w @ ext" "\<forall>e \<in> set ext. entry_of n ref b e"
    "\<forall>i. (i, True) \<in> set ch \<longrightarrow> answered n i ext"
    unfolding sends_ok_def by (auto simp: w0_def)
  have w': "w' = w1" using assms(2) s by (auto simp: dispatch_def n_def w0_def split: if_splits)
  have z: "pending_for n i w0 = 0" for i
    using assms(1) by (auto simp: pending_for_def pub_ok_def w0_def n_def filter_mset_eq_conv multiset_eq_iff
        not_in_iff [symmetric] split: prod.splits)
  have "\<forall>i \<in> set b. answered n i ext" if r: "r = Inr []" "distinct b"
  proof -
    have l: "length b \<le> length ch" "\<forall>m \<in> set (take (length b) ch). snd m"
      using assms(2) s r(1) by (auto simp: dispatch_def n_def w0_def filter_empty_conv split: if_splits)
    have "\<forall>i. count (mset ch) (i, True) \<le> count (mset b) i"
      using S z unfolding sends_ok_def successes_def by (metis add_leD1 add_cancel_left_left count_empty mset.simps(1))
    from covered [OF r(2) l this] show ?thesis using e(3) by blast
  qed
  then show thesis using S e unfolding sends_ok_def by (intro that [of ext]) (auto simp: w0_def n_def w')
qed

section \<open>Database calls leave the rest of the world alone\<close>

definition side :: "World \<Rightarrow> Publisher \<times> nat \<times> log_entry list" where
  "side w = (publisher w, channels w, log w)"

lemma side_eq: "side w' = side w \<longleftrightarrow> publisher w' = publisher w \<and> channels w' = channels w \<and> log w' = log w"
  by (simp add: side_def)

lemma pub_ok_side: "side w' = side w \<Longrightarrow> pub_ok w' = pub_ok w"
  by (simp add: side_eq pub_ok_def)

lemma inputs_frame:
  "now w = (t, w') \<Longrightarrow> side w' = side w \<and> db_steps w' = db_steps w \<and> db_jobs w' = db_jobs w"
  "next_fault w = (f, w') \<Longrightarrow> side w' = side w \<and> db_steps w' = db_steps w \<and> db_jobs w' = db_jobs w"
  "ctx_Err w = (f, w') \<Longrightarrow> side w' = side w \<and> db_steps w' = db_steps w \<and> db_jobs w' = db_jobs w"
  by (auto simp: now_def next_fault_def ctx_Err_def side_def split: list.splits)

lemma UpdateBatchJobStatus_frame:
  "UpdateBatchJobStatus j st w = (e, w') \<Longrightarrow> side w' = side w \<and> db_steps w' = db_steps w"
  by (auto simp: UpdateBatchJobStatus_def side_def split: prod.splits if_splits option.splits
      dest!: inputs_frame)

lemma UpdateBatchStep_frame:
  assumes "UpdateBatchStep j s w = (e, w')"
  shows "side w' = side w"
    "db_steps w' = (if e = None then put (j, Index s) s (del (j, Index s) (db_steps w)) else db_steps w)"
  using assms
  by (auto simp: UpdateBatchStep_def side_def split: prod.splits if_splits option.splits
      dest!: inputs_frame)

lemma setRollbackJobStatus_frame:
  "setRollbackJobStatus job st w = (job', w') \<Longrightarrow>
     side w' = side w \<and> db_steps w' = db_steps w \<and> job' = job\<lparr>JobStatus := st\<rparr>"
  by (auto simp: setRollbackJobStatus_def split: prod.splits dest: UpdateBatchJobStatus_frame)

lemma GetBatchJob_frame:
  "GetBatchJob j w = (r, w') \<Longrightarrow> side w' = side w \<and> db_steps w' = db_steps w \<and>
     (\<forall>job. r = Inr job \<longrightarrow> Steps job = loadSteps j w)"
  by (auto simp: GetBatchJob_def side_def loadSteps_def split: prod.splits if_splits option.splits
      dest!: inputs_frame)

section \<open>Rolling execution\<close>

text \<open>
  The log of a run over batches \<open>bs\<close>, whose \<open>k\<close>-th dispatch has channel \<open>base + k\<close>: a forward
  command of batch \<open>k\<close> comes after every member of every earlier batch has answered, a
  rollback command to a member of batch \<open>k\<close> after every member of that batch has.
\<close>

fun entry_allowed :: "nat \<Rightarrow> string list list \<Rightarrow> log_entry list \<Rightarrow> log_entry \<Rightarrow> bool" where
  "entry_allowed base bs pre (LSent n i None) =
     (\<exists>k<length bs. n = base + k \<and> i \<in> set (bs ! k) \<and> (\<forall>j<k. \<forall>x \<in> set (bs ! j). answered (base + j) x pre))"
| "entry_allowed base bs pre (LSent n i (Some ref)) =
     (\<exists>k<length bs. i \<in> set (bs ! k) \<and> (\<forall>x \<in> set (bs ! k). answered (base + k) x pre))"
| "entry_allowed base bs pre (LRefused n i) = True"
| "entry_allowed base bs pre (LCompleted n i) = True"

definition rolling :: "nat \<Rightarrow> string list list \<Rightarrow> log_entry list \<Rightarrow> bool" where
  "rolling base bs ext \<longleftrightarrow> (\<forall>pre e post. ext = pre @ e # post \<longrightarrow> entry_allowed base bs pre e)"

lemma answered_append [simp]: "answered n i (L @ L') \<longleftrightarrow> answered n i L \<or> answered n i L'"
  by (auto simp: answered_def)

lemma answered_mono: "answered n i L \<Longrightarrow> set L \<subseteq> set L' \<Longrightarrow> answered n i L'"
  by (auto simp: answered_def)

lemma entry_allowed_mono: "entry_allowed base bs pre e \<Longrightarrow> set pre \<subseteq> set pre' \<Longrightarrow> entry_allowed base bs pre' e"
  by (induction base bs pre e rule: entry_allowed.induct) (force intro: answered_mono)+

lemma rolling_Nil: "rolling base bs []"
  by (simp add: rolling_def)

lemma rolling_append:
  assumes "rolling base bs ext1" "\<forall>e \<in> set ext2. entry_allowed base bs ext1 e"
  shows "rolling base bs (ext1 @ ext2)"
  unfolding rolling_def
proof (intro allI impI)
  fix pre e post assume "ext1 @ ext2 = pre @ e # post"
  then consider us where "ext1 = pre @ us" "us @ ext2 = e # post"
    | us where "ext1 @ us = pre" "ext2 = us @ e # post"
    by (auto simp: append_eq_append_conv2)
  then show "entry_allowed base bs pre e"
  proof cases
    case 1
    show ?thesis
    proof (cases us)
      case Nil
      then show ?thesis using 1 assms(2) by auto
    next
      case (Cons a us')
      then have "ext1 = pre @ e # us'" using 1 by auto
      then show ?thesis using assms(1) unfolding rolling_def by blast
    qed
  next
    case 2
    then have "entry_allowed base bs ext1 e" using assms(2) by simp
    then show ?thesis by (rule entry_allowed_mono) (use 2 in auto)
  qed
qed

text \<open>The state of a run before batch \<open>i\<close>.\<close>

definition run_inv :: "string \<Rightarrow> nat \<Rightarrow> string list list \<Rightarrow> log_entry list \<Rightarrow> nat \<Rightarrow> World \<Rightarrow> bool" where
  "run_inv jobID base bs L0 i w \<longleftrightarrow>
     pub_ok w \<and> distinct (keys (db_steps w)) \<and>
     (\<forall>k s. ((jobID, k), s) \<in> set (db_steps w) \<longrightarrow> StepStatus s = SCompleted \<longrightarrow>
        k < i \<and> StewardIDs s = bs ! k \<and> Index s = k) \<and>
     (\<exists>ext. log w = L0 @ ext \<and> rolling base bs ext \<and>
        (\<forall>j<i. \<forall>x \<in> set (bs ! j). answered (base + j) x ext))"

definition log_ok :: "nat \<Rightarrow> string list list \<Rightarrow> log_entry list \<Rightarrow> World \<Rightarrow> bool" where
  "log_ok base bs L0 w \<longleftrightarrow> pub_ok w \<and> (\<exists>ext. log w = L0 @ ext \<and> rolling base bs ext)"

lemma run_inv_log_ok: "run_inv j base bs L0 i w \<Longrightarrow> log_ok base bs L0 w"
  by (auto simp: run_inv_def log_ok_def)

lemma run_inv_frame: "run_inv j base bs L0 i w \<Longrightarrow> side w' = side w \<Longrightarrow> db_steps w' = db_steps w \<Longrightarrow> run_inv j base bs L0 i w'"
  using pub_ok_side [of w' w] by (simp add: run_inv_def side_eq)

lemma run_inv_step:
  assumes "run_inv j base bs L0 i w" "UpdateBatchStep j s w = (e, w')" "i \<le> Index s \<or> StepStatus s \<noteq> SCompleted"
    "StepStatus s = SCompleted \<Longrightarrow> Index s = i \<and> StewardIDs s = bs ! i \<and> i' = Suc i \<and>
       (\<exists>ext. log w = L0 @ ext \<and> (\<forall>x \<in> set (bs ! i). answered (base + i) x ext))"
    "StepStatus s \<noteq> SCompleted \<Longrightarrow> i' = i"
  shows "run_inv j base bs L0 (if e = None then i' else i) w'"
proof -
  note f = UpdateBatchStep_frame [OF assms(2)]
  have d: "distinct (keys (db_steps w))" using assms(1) by (simp add: run_inv_def)
  show ?thesis
  proof (cases "e = None")
    case False
    then show ?thesis using run_inv_frame [OF assms(1) f(1)] f(2) by auto
  next
    case True
    then have st: "db_steps w' = put (j, Index s) s (del (j, Index s) (db_steps w))" using f(2) by simp
    have S: "set (db_steps w') = insert ((j, Index s), s) {p \<in> set (db_steps w). fst p \<noteq> (j, Index s)}"
      unfolding st using d by (subst set_put) (auto simp: set_del)
    obtain ext where ext: "log w = L0 @ ext" "rolling base bs ext"
      "\<forall>j<i. \<forall>x \<in> set (bs ! j). answered (base + j) x ext"
      using assms(1) unfolding run_inv_def by blast
    have "\<forall>j<i'. \<forall>x \<in> set (bs ! j). answered (base + j) x ext"
      using ext assms(4,5) by (cases "StepStatus s = SCompleted") (auto simp: less_Suc_eq)
    moreover have "k < i' \<and> StewardIDs t = bs ! k \<and> Index t = k"
      if t: "((j, k), t) \<in> set (db_steps w')" "StepStatus t = SCompleted" for k t
    proof (cases "((j, k), t) \<in> set (db_steps w)")
      case True
      then have "k < i \<and> StewardIDs t = bs ! k \<and> Index t = k"
        using assms(1) t(2) unfolding run_inv_def by blast
      moreover have "i \<le> i'" using assms(4,5) by (cases "StepStatus s = SCompleted") auto
      ultimately show ?thesis by auto
    next
      case False
      then have "k = Index s" "t = s" using t(1) S by auto
      then show ?thesis using assms(4) t(2) by auto
    qed
    moreover have "distinct (keys (db_steps w'))" unfolding st using d by simp
    moreover have "pub_ok w'" using assms(1) pub_ok_side [OF f(1)] by (simp add: run_inv_def)
    ultimately show ?thesis using True ext f(1) unfolding run_inv_def side_eq by auto
  qed
qed

lemma log_ok_frame: "log_ok base bs L0 w \<Longrightarrow> side w' = side w \<Longrightarrow> log_ok base bs L0 w'"
  using pub_ok_side [of w' w] by (simp add: log_ok_def side_eq)

text \<open>Rollback: every step in the list is a batch all of whose members have answered.\<close>

definition applied :: "nat \<Rightarrow> string list list \<Rightarrow> log_entry list \<Rightarrow> World \<Rightarrow> BatchStep \<Rightarrow> bool" where
  "applied base bs L0 w s \<longleftrightarrow>
     (\<exists>k<length bs. StewardIDs s = bs ! k \<and>
        (\<exists>ext. log w = L0 @ ext \<and> (\<forall>x \<in> set (bs ! k). answered (base + k) x ext)))"

lemma applied_mono:
  assumes "applied base bs L0 w s" "log w' = log w @ e"
  shows "applied base bs L0 w' s"
proof -
  obtain k ext where k: "k < length bs" "StewardIDs s = bs ! k" "log w = L0 @ ext"
    "\<forall>x \<in> set (bs ! k). answered (base + k) x ext"
    using assms(1) unfolding applied_def by blast
  have "\<forall>x \<in> set (bs ! k). answered (base + k) x (ext @ e)" using k(4) by auto
  then show ?thesis using k assms(2) unfolding applied_def by auto
qed

lemma dispatch_rollback_ok:
  assumes "log_ok base bs L0 w" "applied base bs L0 w s" "dispatch (Some ref) (StewardIDs s) w = (r, w')"
  shows "log_ok base bs L0 w' \<and> (\<exists>e. log w' = log w @ e)"
proof -
  have ok: "pub_ok w" using assms(1) by (simp add: log_ok_def)
  obtain ext1 where e1: "log w = L0 @ ext1" "rolling base bs ext1" using assms(1) by (auto simp: log_ok_def)
  obtain k where k: "k < length bs" "StewardIDs s = bs ! k" "\<forall>x \<in> set (bs ! k). answered (base + k) x ext1"
    using assms(2) e1(1) by (auto simp: applied_def)
  from dispatch_ok [OF ok assms(3)] obtain ext where ext: "pub_ok w'" "log w' = log w @ ext"
    "\<forall>e \<in> set ext. entry_of (channels w) (Some ref) (StewardIDs s) e" by metis
  have "entry_allowed base bs ext1 e" if "e \<in> set ext" for e
    using ext(3) that k unfolding entry_of_def by fastforce
  then have "rolling base bs (ext1 @ ext)" using rolling_append [OF e1(2)] by blast
  then show ?thesis using ext e1 by (auto simp: log_ok_def)
qed

lemma rollbackSteps_ok:
  assumes "rollbackSteps job ss b w = (ok, w')" "log_ok base bs L0 w" "\<forall>s \<in> set ss. applied base bs L0 w s"
  shows "log_ok base bs L0 w'"
  using assms
proof (induction ss arbitrary: b w)
  case (Cons s ss)
  obtain r w1 where d: "dispatch (Some (PreviousConfigRef (JobConfig job))) (StewardIDs s) w = (r, w1)" by force
  have 1: "log_ok base bs L0 w1 \<and> (\<exists>e. log w1 = log w @ e)"
    by (rule dispatch_rollback_ok [OF Cons.prems(2) _ d]) (use Cons.prems(3) in simp)
  have ap: "\<forall>t \<in> set ss. applied base bs L0 w2 t" if "log w2 = log w1" for w2
    using Cons.prems(3) 1 that by (auto intro: applied_mono)
  obtain e w2 where u: "UpdateBatchStep (JobID job) (s\<lparr>StepStatus := SRolledBack\<rparr>) w1 = (e, w2)" by force
  have s2: "side w2 = side w1" by (rule UpdateBatchStep_frame [OF u])
  then have 2: "log_ok base bs L0 w2" "log w2 = log w1" using log_ok_frame 1 by (auto simp: side_eq)
  show ?case
  proof (cases r)
    case (Inl e)
    then show ?thesis using Cons.prems(1) d 1 by (simp add: dispatchRollbackBatch_def)
  next
    case (Inr failed)
    then show ?thesis
      using Cons.prems(1) d u Cons.IH [of b w2, OF _ 2(1) ap [OF 2(2)]] Cons.IH [of False w1, OF _ _ ap [OF refl]] 1
      by (auto simp: dispatchRollbackBatch_def split: if_splits)
  qed
qed simp

lemma set_loadSteps: "s \<in> set (loadSteps j w) \<longleftrightarrow> (\<exists>k. ((j, k), s) \<in> set (db_steps w))"
  by (force simp: loadSteps_def)

lemma rollbackAppliedSteps_ok:
  assumes "rollbackAppliedSteps job w = (job', w')" "run_inv (JobID job) base bs L0 i w" "i \<le> length bs"
  shows "log_ok base bs L0 w' \<and> JobStatus job' \<in> {JFailed, JPaused, JRolledBack}"
proof -
  obtain r w1 where g: "GetBatchJob (JobID job) w = (r, w1)" by force
  note G = GetBatchJob_frame [OF g]
  have inv: "run_inv (JobID job) base bs L0 i w1" using run_inv_frame assms(2) G by blast
  note srs = setRollbackJobStatus_frame and lf = log_ok_frame
  show ?thesis
  proof (cases r)
    case (Inl e)
    then show ?thesis using assms(1) g srs [of job JFailed w1 job' w'] lf [OF run_inv_log_ok [OF inv], of w']
      by (simp add: rollbackAppliedSteps_def)
  next
    case (Inr cur)
    let ?c = "completedStepsOf (Steps cur)"
    have ap: "\<forall>s \<in> set ?c. applied base bs L0 w1 s"
    proof
      fix s assume "s \<in> set ?c"
      then obtain k where k: "((JobID job, k), s) \<in> set (db_steps w1)" "StepStatus s = SCompleted"
        using G Inr by (auto simp: completedStepsOf_def set_loadSteps)
      then have "k < i" "StewardIDs s = bs ! k" using inv unfolding run_inv_def by blast+
      then show "applied base bs L0 w1 s"
        using inv assms(3) unfolding run_inv_def applied_def by (metis order.strict_trans2)
    qed
    obtain ok w2 where rb: "rollbackSteps job ?c True w1 = (ok, w2)" by force
    have "log_ok base bs L0 w2" by (rule rollbackSteps_ok [OF rb run_inv_log_ok [OF inv] ap])
    then show ?thesis
      using assms(1) g Inr rb srs [of job JPaused w1 job' w'] srs [of job JRolledBack w2 job' w']
        srs [of job JFailed w2 job' w'] lf [OF run_inv_log_ok [OF inv], of w'] lf [of base bs L0 w2 w']
      by (auto simp: rollbackAppliedSteps_def Let_def split: if_splits)
  qed
qed

lemma handleFailedStep_ok:
  assumes "handleFailedStep job s failed w = (job', w')" "run_inv (JobID job) base bs L0 i w" "i \<le> length bs"
  shows "log_ok base bs L0 w' \<and> JobStatus job' \<in> {JFailed, JPaused, JRolledBack}"
proof -
  obtain e w1 where u: "UpdateBatchStep (JobID job) (s\<lparr>StepStatus := SFailed, FailedIDs := failed\<rparr>) w = (e, w1)"
    by force
  have inv: "run_inv (JobID job) base bs L0 i w1"
    using run_inv_step [OF assms(2) u, of i] by (auto split: if_splits)
  obtain e2 w2 where p: "UpdateBatchJobStatus (JobID job) JPaused w1 = (e2, w2)" by force
  show ?thesis
    using assms(1,3) u p rollbackAppliedSteps_ok [OF _ inv, of job' w'] UpdateBatchJobStatus_frame [OF p]
      log_ok_frame [OF run_inv_log_ok [OF inv], of w2]
    by (auto simp: handleFailedStep_def split: if_splits)
qed

lemma dispatch_forward_ok:
  assumes inv: "run_inv j base bs L0 i w" and i: "channels w = base + i" "i < length bs"
    and d: "dispatch None (bs ! i) w = (r, w')" and dist: "distinct (bs ! i)"
  shows "run_inv j base bs L0 i w' \<and> channels w' = base + Suc i \<and>
    (r = Inr [] \<longrightarrow> (\<exists>ext. log w' = L0 @ ext \<and> (\<forall>x \<in> set (bs ! i). answered (base + i) x ext)))"
proof -
  have ok: "pub_ok w" using inv by (simp add: run_inv_def)
  obtain ext1 where e1: "log w = L0 @ ext1" "rolling base bs ext1"
    "\<forall>j<i. \<forall>x \<in> set (bs ! j). answered (base + j) x ext1"
    using inv unfolding run_inv_def by blast
  from dispatch_ok [OF ok d] obtain ext where ext: "db_steps w' = db_steps w" "channels w' = Suc (channels w)"
    "pub_ok w'" "log w' = log w @ ext" "\<forall>e \<in> set ext. entry_of (channels w) None (bs ! i) e"
    "r = Inr [] \<Longrightarrow> distinct (bs ! i) \<Longrightarrow> \<forall>x \<in> set (bs ! i). answered (channels w) x ext"
    by metis
  have "entry_allowed base bs ext1 e" if "e \<in> set ext" for e
    using ext(5) that i e1(3) unfolding entry_of_def by fastforce
  then have "rolling base bs (ext1 @ ext)" using rolling_append [OF e1(2)] by blast
  moreover have "\<forall>j<i. \<forall>x \<in> set (bs ! j). answered (base + j) x (ext1 @ ext)"
    using e1(3) by simp
  ultimately have "\<exists>e. log w' = L0 @ e \<and> rolling base bs e \<and> (\<forall>j<i. \<forall>x \<in> set (bs ! j). answered (base + j) x e)"
    using ext(4) e1(1) by (intro exI [of _ "ext1 @ ext"]) simp
  then have "run_inv j base bs L0 i w'" using inv ext(1,3) unfolding run_inv_def by simp
  moreover have "\<exists>e. log w' = L0 @ e \<and> (\<forall>x \<in> set (bs ! i). answered (base + i) x e)" if r: "r = Inr []"
    using ext(6) [OF r dist] ext(4) e1(1) i(1)
    by (intro exI [of _ "ext1 @ ext"]) auto
  ultimately show ?thesis using ext(2) i(1) by simp
qed

lemma runBatchStep_ok:
  assumes run: "runBatchStep job i (bs ! i) w = (r, job', w')"
    and inv: "run_inv (JobID job) base bs L0 i w" and i: "channels w = base + i" "i < length bs"
    and dist: "distinct (bs ! i)" and st: "JobStatus job = JRunning"
  shows "if r = Inr False then run_inv (JobID job) base bs L0 (Suc i) w' \<and> channels w' = base + Suc i \<and> job' = job
    else log_ok base bs L0 w' \<and> JobStatus job' \<noteq> JCompleted"
proof -
  obtain t w1 where n1: "now w = (t, w1)" by force
  define s1 where "s1 = \<lparr>Index = i, StewardIDs = bs ! i, StepStatus = SRunning, StartedAt = Some t,
    CompletedAt = None, FailedIDs = [], RollbackJobID = []\<rparr>"
  obtain e w2 where u: "UpdateBatchStep (JobID job) s1 w1 = (e, w2)" by force
  obtain q w3 where d: "dispatch None (bs ! i) w2 = (q, w3)" by force
  obtain t' w4 where n2: "now w3 = (t', w4)" by force
  define s2 where "s2 = s1\<lparr>CompletedAt := Some t'\<rparr>"
  obtain e' w5 where u2: "UpdateBatchStep (JobID job) (s2\<lparr>StepStatus := SCompleted\<rparr>) w4 = (e', w5)" by force
  have I1: "run_inv (JobID job) base bs L0 i w1" using run_inv_frame [OF inv] inputs_frame(1) [OF n1] by blast
  have I2: "run_inv (JobID job) base bs L0 i w2"
    using run_inv_step [OF I1 u, of i] by (auto simp: s1_def split: if_splits)
  have c2: "channels w2 = base + i"
    using UpdateBatchStep_frame(1) [OF u] inputs_frame(1) [OF n1] i(1) by (simp add: side_eq)
  note D = dispatch_forward_ok [OF I2 c2 i(2) d dist]
  have I4: "run_inv (JobID job) base bs L0 i w4" and c4: "channels w4 = base + Suc i" and l4: "log w4 = log w3"
    using run_inv_frame [of _ _ _ _ _ w3 w4] D inputs_frame(1) [OF n2] by (auto simp: side_eq)
  show ?thesis
  proof (cases e)
    case (Some x)
    then have "r = Inl x" "job' = job" "w' = w2"
      using run n1 u by (auto simp: runBatchStep_def Let_def s1_def)
    then show ?thesis using run_inv_log_ok [OF I2] st by simp
  next
    case None
    show ?thesis
    proof (cases q)
      case (Inl x)
      then have "r = Inl x" "job' = job" "w' = w3"
        using run n1 u d None by (auto simp: runBatchStep_def Let_def s1_def dispatchBatch_def)
      then show ?thesis using run_inv_log_ok [of _ _ _ _ _ w3] D st by auto
    next
      case (Inr failed)
      show ?thesis
      proof (cases "failed = []")
        case False
        then have h: "r = Inr True" "handleFailedStep job s2 failed w4 = (job', w')"
          using run n1 u d n2 None Inr by (auto simp: runBatchStep_def Let_def s1_def s2_def dispatchBatch_def split: prod.splits)
        then show ?thesis using handleFailedStep_ok [OF h(2) I4] i(2) by auto
      next
        case True
        then have r: "if e' = None then r = Inr False else r = Inl (the e')" "job' = job" "w' = w5"
          using run n1 u d n2 u2 None Inr
          by (auto simp: runBatchStep_def Let_def s1_def s2_def dispatchBatch_def split: option.splits prod.splits)
        have "run_inv (JobID job) base bs L0 (if e' = None then Suc i else i) w5"
          by (rule run_inv_step [OF I4 u2]) (use D True Inr l4 in \<open>auto simp: s1_def s2_def\<close>)
        moreover have "channels w5 = base + Suc i" using UpdateBatchStep_frame(1) [OF u2] c4 by (simp add: side_eq)
        ultimately show ?thesis using r st run_inv_log_ok by (auto split: if_splits)
      qed
    qed
  qed
qed

lemma run_batches_ok:
  assumes "run_batches job i (drop i bs) w = (r, job', w')" "i \<le> length bs"
    "run_inv (JobID job) base bs L0 i w" "channels w = base + i" "list_all distinct bs" "JobStatus job = JRunning"
  shows "if r = Inr False then run_inv (JobID job) base bs L0 (length bs) w' \<and> job' = job
    else log_ok base bs L0 w' \<and> JobStatus job' \<noteq> JCompleted"
  using assms
proof (induction "length bs - i" arbitrary: i w)
  case 0
  then show ?case by simp
next
  case (Suc n)
  then have i: "i < length bs" by simp
  then have e: "drop i bs = bs ! i # drop (Suc i) bs" by (simp add: Cons_nth_drop_Suc)
  obtain c w1 where x: "ctx_Err w = (c, w1)" by force
  have I1: "run_inv (JobID job) base bs L0 i w1" "channels w1 = base + i"
    using run_inv_frame [OF Suc.prems(3)] inputs_frame(3) [OF x] Suc.prems(4) by (auto simp: side_eq)
  obtain q job1 w2 where b: "runBatchStep job i (bs ! i) w1 = (q, job1, w2)" by (cases "runBatchStep job i (bs ! i) w1")
  have dist: "distinct (bs ! i)" using Suc.prems(5) i by (simp add: list_all_length)
  note B = runBatchStep_ok [OF b I1 i dist Suc.prems(6)]
  show ?case
  proof (cases c)
    case True
    then have "r = Inl Cancelled" "job' = job" "w' = w1" using Suc.prems(1) e x by auto
    then show ?thesis using run_inv_log_ok [OF I1(1)] Suc.prems(6) by simp
  next
    case c: False
    show ?thesis
    proof (cases "q = Inr False")
      case True
      then have "run_batches job (Suc i) (drop (Suc i) bs) w2 = (r, job', w')"
        using Suc.prems(1) e x c b B by simp
      then show ?thesis using Suc.hyps(1) [of "Suc i" w2] Suc.hyps(2) Suc.prems(5,6) B True i by simp
    next
      case False
      then have "r = q" "job' = job1" "w' = w2"
        using Suc.prems(1) e x c b by (auto split: sum.splits bool.splits)
      then show ?thesis using B False by simp
    qed
  qed
qed

lemma partitionTargets_ok:
  assumes "partitionTargets qc Lookup job = Inr bs" "qc = None \<or> qc = Some Partition"
  shows "mset (concat bs) = mset (dedupeIDs (Targets job))" "list_all distinct bs" "[] \<notin> set bs"
proof -
  let ?ids = "dedupeIDs (Targets job)" and ?k = "BatchSize (JobConfig job)"
  have naive: "naivePartition ?ids ?k = naive_checker (map (\<lambda>i. \<lparr>ID = i, DNAAttributes = Map.empty\<rparr>) ?ids) ?k"
    by (simp add: naive_checker_def comp_def)
  have "mset (concat bs) = mset ?ids \<and> [] \<notin> set bs"
  proof (cases "?ids = []")
    case True
    then show ?thesis using assms(1) by (simp add: partitionTargets_def)
  next
    case False
    show ?thesis
    proof (cases qc)
      case None
      then have "bs = naivePartition ?ids ?k" using assms(1) False by (simp add: partitionTargets_def Let_def)
      then show ?thesis
        using nv.part_conserves [of "map (\<lambda>i. \<lparr>ID = i, DNAAttributes = Map.empty\<rparr>) ?ids" ?k]
          nv.part_nonempty [of "map (\<lambda>i. \<lparr>ID = i, DNAAttributes = Map.empty\<rparr>) ?ids" ?k]
        by (simp only: naive) (simp add: comp_def)
    next
      case (Some part)
      then obtain found where "bs = Partition (orderedMeta ?ids found) ?k"
        using assms False by (auto simp: partitionTargets_def Let_def split: option.splits)
      then show ?thesis
        using dna.part_conserves [of "orderedMeta ?ids found" ?k] dna.part_nonempty [of "orderedMeta ?ids found" ?k]
        by (simp only: ID_orderedMeta) simp
    qed
  qed
  then have m: "mset (concat bs) = mset ?ids" and n: "[] \<notin> set bs" by blast+
  then have "distinct (concat bs)" using mset_eq_imp_distinct_iff distinct_dedupeIDs by metis
  then show "mset (concat bs) = mset ?ids" "list_all distinct bs" "[] \<notin> set bs"
    using m n by (auto simp: list_all_iff distinct_concat_iff)
qed

text \<open>A job that has not run: the store holds no completed step of it.\<close>

definition fresh_job :: "BatchJob \<Rightarrow> World \<Rightarrow> bool" where
  "fresh_job job w \<longleftrightarrow>
     pub_ok w \<and> distinct (keys (db_steps w)) \<and>
     list_all (\<lambda>((j, _), s). j = JobID job \<longrightarrow> StepStatus s \<noteq> SCompleted) (db_steps w)"

lemma fresh_run_inv: "fresh_job job w \<Longrightarrow> run_inv (JobID job) base bs (log w) 0 w"
  by (auto simp: fresh_job_def run_inv_def list_all_iff rolling_Nil)

lemma execute_ok:
  assumes x: "Execute qc Lookup job w = (err, job', w')" and part: "partitionTargets qc Lookup job = Inr bs"
    and d: "list_all distinct bs" and f: "fresh_job job w"
  shows "\<exists>ext. log w' = log w @ ext \<and> rolling (channels w) bs ext \<and>
    (err = None \<and> JobStatus job' = JCompleted \<longrightarrow>
       (\<forall>k<length bs. \<forall>i \<in> set (bs ! k). answered (channels w + k) i ext))"
proof -
  obtain e1 w1 where u: "UpdateBatchJobStatus (JobID job) JRunning w = (e1, w1)" by force
  obtain r j2 w2 where rb: "run_batches (job\<lparr>JobStatus := JRunning\<rparr>) 0 bs w1 = (r, j2, w2)"
    by (cases "run_batches (job\<lparr>JobStatus := JRunning\<rparr>) 0 bs w1")
  obtain e3 w3 where u3: "UpdateBatchJobStatus (JobID j2) JCompleted w2 = (e3, w3)" by force
  note F1 = UpdateBatchJobStatus_frame [OF u] and F3 = UpdateBatchJobStatus_frame [OF u3]
  show ?thesis
  proof (cases e1)
    case (Some e)
    then have "w' = w1" "err = Some e" using x part u by (simp_all add: Execute_def)
    then show ?thesis using F1 rolling_Nil by (auto simp: side_eq)
  next
    case None
    have I: "run_inv (JobID job) (channels w) bs (log w) 0 w1"
      using run_inv_frame [OF fresh_run_inv [OF f]] F1 by blast
    have R: "if r = Inr False then run_inv (JobID job) (channels w) bs (log w) (length bs) w2 \<and> j2 = job\<lparr>JobStatus := JRunning\<rparr>
      else log_ok (channels w) bs (log w) w2 \<and> JobStatus j2 \<noteq> JCompleted"
      using run_batches_ok [of "job\<lparr>JobStatus := JRunning\<rparr>" 0 bs w1 r j2 w2 "channels w" "log w"] rb I d F1 by (simp add: side_eq split: if_splits)
    show ?thesis
    proof (cases "r = Inr False")
      case True
      then have "w' = w3" using x part u rb u3 None by (auto simp: Execute_def split: option.splits)
      then show ?thesis using R True F3 unfolding run_inv_def side_eq by auto
    next
      case False
      then have "w' = w2" "job' = j2" using x part u rb None
        by (auto simp: Execute_def split: sum.splits bool.splits)
      then show ?thesis using R False unfolding log_ok_def by auto
    qed
  qed
qed

section \<open>Properties\<close>

text \<open>C4: rolling execution. Whatever the stewards answer, the database fails and the context is
  cancelled: the batches hold exactly the authorized targets, once each; a sync command goes
  only to a member of batch \<open>k\<close>, and only after every member of the earlier batches has reported
  completion or was refused as locked down; a rollback command goes only to a member of a batch
  all of whose members had answered; and the job is reported as completed only when every
  member of every batch has.\<close>

theorem Execute_rolling:
  assumes "Execute quorumCheck Lookup job w = (err, job', w')"
    and "quorumCheck = None \<or> quorumCheck = Some Partition"
    and "partitionTargets quorumCheck Lookup job = Inr bs" and "fresh_job job w"
  shows "mset (concat bs) = mset (dedupeIDs (Targets job)) \<and>
    (\<exists>ext. log w' = log w @ ext \<and> rolling (channels w) bs ext \<and>
       (err = None \<and> JobStatus job' = JCompleted \<longrightarrow>
          (\<forall>k<length bs. \<forall>i \<in> set (bs ! k). answered (channels w + k) i ext)))"
  using execute_ok [OF assms(1,3) partitionTargets_ok(2) [OF assms(3,2)] assms(4)]
    partitionTargets_ok(1) [OF assms(3,2)] by simp

definition demo_job :: BatchJob where
  "demo_job =
     \<lparr>JobID = ''j'', TenantID = ''t'', JobSelector = ''all'',
      JobConfig = \<lparr>BatchSize = 1, PreviousConfigRef = ''v1''\<rparr>, Targets = [''a'', ''b''],
      JobStatus = JPending, Steps = [], CreatedAt = 0, UpdatedAt = 0, InitiatedBy = ''op''\<rparr>"

definition demo_world :: "(send_result \<times> arrival list) list \<Rightarrow> World" where
  "demo_world answers =
     \<lparr>db_jobs = [(''j'', demo_job)], db_steps = [], publisher = \<lparr>pending = [], nextCommandID = 0\<rparr>,
      channels = 0, faults = [], clock = [], cancels = [], sends = answers, log = []\<rparr>"

lemma demo_fresh: "fresh_job demo_job (demo_world answers)"
  by (simp add: fresh_job_def demo_world_def pub_ok_def)

lemma demo_partition: "partitionTargets None Lookup demo_job = Inr [[''a''], [''b'']]"
  by (simp add: partitionTargets_def demo_job_def dedupeIDs_def naivePartition_def effective_size_def slices.simps)

theorem Execute_rolling_witness:
  "\<exists>err job' w' ext.
     Execute None (\<lambda>_. None) demo_job (demo_world [(Sent, [Event 0 CommandCompleted])]) = (err, job', w') \<and>
     log w' = ext \<and> rolling 0 [[''a''], [''b'']] ext"
proof -
  obtain err job' w' where x:
    "Execute None (\<lambda>_. None) demo_job (demo_world [(Sent, [Event 0 CommandCompleted])]) = (err, job', w')"
    by (cases "Execute None (\<lambda>_. None) demo_job (demo_world [(Sent, [Event 0 CommandCompleted])])")
  have "log (demo_world [(Sent, [Event 0 CommandCompleted])]) = []" "channels (demo_world [(Sent, [Event 0 CommandCompleted])]) = 0"
    by (simp_all add: demo_world_def)
  with Execute_rolling [OF x _ demo_partition demo_fresh] x show ?thesis by auto
qed


text \<open>The same answers without the acknowledgement complete the job.\<close>

lemma completed_event_completes_job:
  "let job = demo_job\<lparr>Targets := [''a'']\<rparr>;
       (err, job', w') = Execute None (\<lambda>_. None) job (demo_world [(Sent, [Event 0 CommandCompleted])])
   in err = None \<and> JobStatus job' = JCompleted"
  by code_simp

end
