(* ===== verification/Rbac_Store.thy ===== *)
theory Rbac_Store
  imports Cfgms_Prelude
begin

text \<open>
  The in-memory store of access control, \<open>features/rbac/memory/store.go\<close>, with the records of
  \<open>api/proto/common/rbac.proto\<close>: permissions, roles, subjects and role assignments, and the
  parent links between roles. Shown are the invariant every operation keeps (an entry is filed
  under its own id, once) and what the parent chain of a role is, with a correct and
  terminating cycle check.
\<close>

section \<open>Data\<close>

record Permission =
  perm_Id :: string
  perm_Name :: string
  perm_Description :: string
  perm_ResourceType :: string
  perm_Actions :: "string list"

datatype RoleInheritanceType =
  INHERITANCE_NONE | INHERITANCE_ADDITIVE | INHERITANCE_OVERRIDE | INHERITANCE_RESTRICTIVE

record Role =
  role_Id :: string
  role_Name :: string
  role_Description :: string
  role_PermissionIds :: "string list"
  role_IsSystemRole :: bool
  role_TenantId :: string
  role_CreatedAt :: int
  role_UpdatedAt :: int
  role_ParentRoleId :: string
  role_ChildRoleIds :: "string list"
  role_InheritanceType :: RoleInheritanceType

datatype SubjectType =
  SUBJECT_UNSPECIFIED | SUBJECT_USER | SUBJECT_SERVICE | SUBJECT_STEWARD | SUBJECT_API_CLIENT

record Subject =
  subj_Id :: string
  subj_Type :: SubjectType
  subj_DisplayName :: string
  subj_TenantId :: string
  subj_RoleIds :: "string list"
  subj_Attributes :: "(string \<times> string) list"
  subj_IsActive :: bool
  subj_CreatedAt :: int
  subj_UpdatedAt :: int

record RoleAssignment =
  asg_Id :: string
  asg_SubjectId :: string
  asg_RoleId :: string
  asg_TenantId :: string
  asg_Conditions :: "string list"
  asg_ExpiresAt :: int
  asg_AssignedAt :: int
  asg_AssignedBy :: string

text \<open>
  The errors of the package: a constructor for those of the store and of the cycle checks,
  \<open>Errorf\<close> for the other messages, and \<open>Wrapped\<close> for a message followed by the wrapped error.
  \<open>Error\<close> is the text, which some callers inspect.
\<close>

datatype (plugins only: code size) rbac_error =
    PermissionExists string | PermissionNotFound string
  | RoleExists string | RoleNotFound string | RoleTenantFixed string | RoleSystemFixed string
  | SystemRoleDelete string
  | SubjectExists string | SubjectNotFound string
  | AssignmentMissing | AssignmentNotFound string
  | RoleHasNoParent string | ParentRoleNotFound string
  | CircularHierarchy string | CircularInvolving string | CircularAncestor string string
  | Errorf string
  | Wrapped string rbac_error

definition quoted :: "string \<Rightarrow> string" where
  "quoted s = CHR 0x27 # s @ [CHR 0x27]"

primrec Error :: "rbac_error \<Rightarrow> string" where
  "Error (PermissionExists i) = ''permission '' @ i @ '' already exists''"
| "Error (PermissionNotFound i) = ''permission '' @ i @ '' not found''"
| "Error (RoleExists i) = ''role '' @ i @ '' already exists''"
| "Error (RoleNotFound i) = ''role '' @ i @ '' not found''"
| "Error (RoleTenantFixed i) = ''role '' @ i @ '' tenant cannot be changed''"
| "Error (RoleSystemFixed i) = ''role '' @ i @ '' system-role status cannot be changed''"
| "Error (SystemRoleDelete i) = ''cannot delete system role '' @ i"
| "Error (SubjectExists i) = ''subject '' @ i @ '' already exists''"
| "Error (SubjectNotFound i) = ''subject '' @ i @ '' not found''"
| "Error AssignmentMissing = ''role assignment not found''"
| "Error (AssignmentNotFound i) = ''assignment '' @ i @ '' not found''"
| "Error (RoleHasNoParent i) = ''role '' @ i @ '' has no parent''"
| "Error (ParentRoleNotFound i) = ''parent role '' @ i @ '' not found''"
| "Error (CircularHierarchy i) = ''circular dependency detected in role hierarchy for role '' @ i"
| "Error (CircularInvolving i) = ''circular dependency detected involving role '' @ i"
| "Error (CircularAncestor t i) =
     ''circular dependency detected: role '' @ t @ '' is already an ancestor of role '' @ i"
| "Error (Errorf m) = m"
| "Error (Wrapped m e) = m @ '': '' @ Error e"

section \<open>The store\<close>

text \<open>
  \<open>Store\<close> holds pointers; each is filed under one key, so changing the pointee is changing the
  entry of that key. Every method runs under the store's lock and is one step; those that fail
  change nothing. \<open>now\<close> is \<open>time.Now().Unix()\<close>, read once per call.
\<close>

record Store =
  s_permissions :: "(string \<times> Permission) list"
  s_roles :: "(string \<times> Role) list"
  s_subjects :: "(string \<times> Subject) list"
  s_assignments :: "(string \<times> RoleAssignment) list"
  s_initialized :: bool

definition NewStore :: Store where
  "NewStore = \<lparr>s_permissions = [], s_roles = [], s_subjects = [], s_assignments = [],
     s_initialized = False\<rparr>"

definition Initialize :: "Store \<Rightarrow> Store" where
  "Initialize s = (if s_initialized s then s else s\<lparr>s_initialized := True\<rparr>)"

definition LoadPermissions :: "Permission list \<Rightarrow> Store \<Rightarrow> Store" where
  "LoadPermissions permissions s =
     s\<lparr>s_permissions := foldl (\<lambda>m p. put (perm_Id p) p m) (s_permissions s) permissions\<rparr>"

text \<open>Writing through the pointer stored under \<open>k\<close>, when there is one.\<close>

definition update_entry :: "string \<Rightarrow> ('v \<Rightarrow> 'v) \<Rightarrow> (string \<times> 'v) list \<Rightarrow> (string \<times> 'v) list" where
  "update_entry k f m = (case map_of m k of None \<Rightarrow> m | Some v \<Rightarrow> put k (f v) m)"

definition add_child :: "string \<Rightarrow> Role \<Rightarrow> Role" where
  "add_child c r = (if c \<in> set (role_ChildRoleIds r) then r
     else r\<lparr>role_ChildRoleIds := role_ChildRoleIds r @ [c]\<rparr>)"

definition LoadRoles :: "int \<Rightarrow> Role list \<Rightarrow> Store \<Rightarrow> Store" where
  "LoadRoles now roles s =
     (let copied = foldl (\<lambda>m r. put (role_Id r) (r\<lparr>role_CreatedAt := now, role_UpdatedAt := now\<rparr>) m)
            (s_roles s) roles;
          linked = foldl (\<lambda>m r. if role_ParentRoleId r \<noteq> []
            then update_entry (role_ParentRoleId r) (add_child (role_Id r)) m else m) copied roles
      in s\<lparr>s_roles := linked\<rparr>)"

subsection \<open>Permissions\<close>

definition CreatePermission :: "Permission \<Rightarrow> Store \<Rightarrow> rbac_error + Store" where
  "CreatePermission p s =
     (if map_of (s_permissions s) (perm_Id p) \<noteq> None then Inl (PermissionExists (perm_Id p))
      else Inr (s\<lparr>s_permissions := put (perm_Id p) p (s_permissions s)\<rparr>))"

definition GetPermission :: "string \<Rightarrow> Store \<Rightarrow> rbac_error + Permission" where
  "GetPermission i s = (case map_of (s_permissions s) i of
     None \<Rightarrow> Inl (PermissionNotFound i) | Some p \<Rightarrow> Inr p)"

definition ListPermissions ::
    "((string \<times> Permission) list \<Rightarrow> (string \<times> Permission) list) \<Rightarrow> string \<Rightarrow> Store \<Rightarrow> Permission list" where
  "ListPermissions rng resourceType s =
     filter (\<lambda>p. resourceType = [] \<or> perm_ResourceType p = resourceType)
       (map snd (rng (s_permissions s)))"

definition UpdatePermission :: "Permission \<Rightarrow> Store \<Rightarrow> rbac_error + Store" where
  "UpdatePermission p s =
     (if map_of (s_permissions s) (perm_Id p) = None then Inl (PermissionNotFound (perm_Id p))
      else Inr (s\<lparr>s_permissions := put (perm_Id p) p (s_permissions s)\<rparr>))"

definition DeletePermission :: "string \<Rightarrow> Store \<Rightarrow> rbac_error + Store" where
  "DeletePermission i s =
     (if map_of (s_permissions s) i = None then Inl (PermissionNotFound i)
      else Inr (s\<lparr>s_permissions := del i (s_permissions s)\<rparr>))"

subsection \<open>Roles\<close>

definition CreateRole :: "int \<Rightarrow> Role \<Rightarrow> Store \<Rightarrow> rbac_error + Store" where
  "CreateRole now r s =
     (if map_of (s_roles s) (role_Id r) \<noteq> None then Inl (RoleExists (role_Id r))
      else Inr (s\<lparr>s_roles := put (role_Id r)
        (r\<lparr>role_CreatedAt := now, role_UpdatedAt := now\<rparr>) (s_roles s)\<rparr>))"

definition GetRole :: "string \<Rightarrow> Store \<Rightarrow> rbac_error + Role" where
  "GetRole i s = (case map_of (s_roles s) i of None \<Rightarrow> Inl (RoleNotFound i) | Some r \<Rightarrow> Inr r)"

definition ListRoles ::
    "((string \<times> Role) list \<Rightarrow> (string \<times> Role) list) \<Rightarrow> string \<Rightarrow> Store \<Rightarrow> Role list" where
  "ListRoles rng tenantID s =
     filter (\<lambda>r. role_IsSystemRole r \<or> role_TenantId r = tenantID) (map snd (rng (s_roles s)))"

definition UpdateRole :: "int \<Rightarrow> Role \<Rightarrow> Store \<Rightarrow> rbac_error + Store" where
  "UpdateRole now r s =
     (case map_of (s_roles s) (role_Id r) of
        None \<Rightarrow> Inl (RoleNotFound (role_Id r))
      | Some existing \<Rightarrow>
          if role_TenantId r \<noteq> role_TenantId existing then Inl (RoleTenantFixed (role_Id r))
          else if role_IsSystemRole r \<noteq> role_IsSystemRole existing then Inl (RoleSystemFixed (role_Id r))
          else
            (let created = (if role_CreatedAt r = 0 then role_CreatedAt existing else role_CreatedAt r)
             in Inr (s\<lparr>s_roles := put (role_Id r)
                  (r\<lparr>role_CreatedAt := created, role_UpdatedAt := now\<rparr>) (s_roles s)\<rparr>)))"

definition DeleteRole :: "string \<Rightarrow> Store \<Rightarrow> rbac_error + Store" where
  "DeleteRole i s =
     (case map_of (s_roles s) i of
        None \<Rightarrow> Inl (RoleNotFound i)
      | Some r \<Rightarrow> if role_IsSystemRole r then Inl (SystemRoleDelete i)
                  else Inr (s\<lparr>s_roles := del i (s_roles s)\<rparr>))"

definition GetRolePermissions :: "string \<Rightarrow> Store \<Rightarrow> rbac_error + Permission list" where
  "GetRolePermissions i s =
     (case map_of (s_roles s) i of
        None \<Rightarrow> Inl (RoleNotFound i)
      | Some r \<Rightarrow> Inr (List.map_filter (map_of (s_permissions s)) (role_PermissionIds r)))"

subsection \<open>Subjects\<close>

definition CreateSubject :: "int \<Rightarrow> Subject \<Rightarrow> Store \<Rightarrow> rbac_error + Store" where
  "CreateSubject now u s =
     (if map_of (s_subjects s) (subj_Id u) \<noteq> None then Inl (SubjectExists (subj_Id u))
      else Inr (s\<lparr>s_subjects := put (subj_Id u)
        (u\<lparr>subj_CreatedAt := now, subj_UpdatedAt := now\<rparr>) (s_subjects s)\<rparr>))"

definition GetSubject :: "string \<Rightarrow> Store \<Rightarrow> rbac_error + Subject" where
  "GetSubject i s = (case map_of (s_subjects s) i of None \<Rightarrow> Inl (SubjectNotFound i) | Some u \<Rightarrow> Inr u)"

definition ListSubjects ::
    "((string \<times> Subject) list \<Rightarrow> (string \<times> Subject) list) \<Rightarrow> string \<Rightarrow> SubjectType \<Rightarrow> Store \<Rightarrow> Subject list" where
  "ListSubjects rng tenantID subjectType s =
     filter (\<lambda>u. (tenantID = [] \<or> subj_TenantId u = tenantID) \<and>
         (subjectType = SUBJECT_UNSPECIFIED \<or> subj_Type u = subjectType))
       (map snd (rng (s_subjects s)))"

definition UpdateSubject :: "int \<Rightarrow> Subject \<Rightarrow> Store \<Rightarrow> rbac_error + Store" where
  "UpdateSubject now u s =
     (if map_of (s_subjects s) (subj_Id u) = None then Inl (SubjectNotFound (subj_Id u))
      else Inr (s\<lparr>s_subjects := put (subj_Id u) (u\<lparr>subj_UpdatedAt := now\<rparr>) (s_subjects s)\<rparr>))"

definition DeleteSubject :: "string \<Rightarrow> Store \<Rightarrow> rbac_error + Store" where
  "DeleteSubject i s =
     (if map_of (s_subjects s) i = None then Inl (SubjectNotFound i)
      else Inr (s\<lparr>s_subjects := del i (s_subjects s)\<rparr>))"

definition GetSubjectRoles :: "string \<Rightarrow> string \<Rightarrow> Store \<Rightarrow> rbac_error + Role list" where
  "GetSubjectRoles subjectID tenantID s =
     (case map_of (s_subjects s) subjectID of
        None \<Rightarrow> Inl (SubjectNotFound subjectID)
      | Some u \<Rightarrow> Inr (filter (\<lambda>r. role_IsSystemRole r \<or> role_TenantId r = tenantID)
          (List.map_filter (map_of (s_roles s)) (subj_RoleIds u))))"

subsection \<open>Assignments\<close>

text \<open>
  \<open>uuid\<close> is the id drawn for an assignment without one. \<open>AssignRole\<close> completes the
  assignment it was given, which the caller goes on to use.
\<close>

definition AssignRole ::
    "string \<Rightarrow> int \<Rightarrow> RoleAssignment \<Rightarrow> Store \<Rightarrow> rbac_error + RoleAssignment \<times> Store" where
  "AssignRole uuid now a s =
     (if map_of (s_subjects s) (asg_SubjectId a) = None then Inl (SubjectNotFound (asg_SubjectId a))
      else if map_of (s_roles s) (asg_RoleId a) = None then Inl (RoleNotFound (asg_RoleId a))
      else
        (let a' = a\<lparr>asg_Id := (if asg_Id a = [] then uuid else asg_Id a), asg_AssignedAt := now\<rparr>
         in Inr (a', s\<lparr>s_assignments := put (asg_Id a') a' (s_assignments s),
              s_subjects := update_entry (asg_SubjectId a)
                (\<lambda>u. u\<lparr>subj_RoleIds := subj_RoleIds u @ [asg_RoleId a], subj_UpdatedAt := now\<rparr>)
                (s_subjects s)\<rparr>)))"

definition matching_assignment :: "string \<Rightarrow> string \<Rightarrow> string \<Rightarrow> RoleAssignment \<Rightarrow> bool" where
  "matching_assignment subjectID roleID tenantID a \<longleftrightarrow>
     asg_SubjectId a = subjectID \<and> asg_RoleId a = roleID \<and> asg_TenantId a = tenantID"

definition RevokeRole ::
    "((string \<times> RoleAssignment) list \<Rightarrow> (string \<times> RoleAssignment) list) \<Rightarrow> int \<Rightarrow>
     string \<Rightarrow> string \<Rightarrow> string \<Rightarrow> Store \<Rightarrow> rbac_error + Store" where
  "RevokeRole rng now subjectID roleID tenantID s =
     (let assignmentID =
        (case find (\<lambda>(_, a). matching_assignment subjectID roleID tenantID a) (rng (s_assignments s)) of
           None \<Rightarrow> [] | Some (i, _) \<Rightarrow> i)
      in if assignmentID = [] then Inl AssignmentMissing
         else Inr (s\<lparr>s_assignments := del assignmentID (s_assignments s),
                s_subjects := update_entry subjectID
                  (\<lambda>u. u\<lparr>subj_RoleIds := filter (\<lambda>i. i \<noteq> roleID) (subj_RoleIds u), subj_UpdatedAt := now\<rparr>)
                  (s_subjects s)\<rparr>))"

definition GetAssignment :: "string \<Rightarrow> Store \<Rightarrow> rbac_error + RoleAssignment" where
  "GetAssignment i s =
     (case map_of (s_assignments s) i of None \<Rightarrow> Inl (AssignmentNotFound i) | Some a \<Rightarrow> Inr a)"

definition ListAssignments ::
    "((string \<times> RoleAssignment) list \<Rightarrow> (string \<times> RoleAssignment) list) \<Rightarrow>
     string \<Rightarrow> string \<Rightarrow> string \<Rightarrow> Store \<Rightarrow> RoleAssignment list" where
  "ListAssignments rng subjectID roleID tenantID s =
     filter (\<lambda>a. (subjectID = [] \<or> asg_SubjectId a = subjectID) \<and>
         (roleID = [] \<or> asg_RoleId a = roleID) \<and> (tenantID = [] \<or> asg_TenantId a = tenantID))
       (map snd (rng (s_assignments s)))"

definition valid_assignment :: "int \<Rightarrow> RoleAssignment \<Rightarrow> bool" where
  "valid_assignment now a \<longleftrightarrow> asg_ExpiresAt a = 0 \<or> asg_ExpiresAt a > now"

definition GetSubjectAssignments ::
    "((string \<times> RoleAssignment) list \<Rightarrow> (string \<times> RoleAssignment) list) \<Rightarrow> int \<Rightarrow>
     string \<Rightarrow> string \<Rightarrow> Store \<Rightarrow> RoleAssignment list" where
  "GetSubjectAssignments rng now subjectID tenantID s =
     filter (\<lambda>a. asg_SubjectId a = subjectID \<and> asg_TenantId a = tenantID \<and> valid_assignment now a)
       (map snd (rng (s_assignments s)))"

subsection \<open>The role hierarchy\<close>

datatype RoleHierarchy =
  RoleHierarchy (rh_Role: Role) (rh_Parent: "RoleHierarchy option")
    (rh_Children: "RoleHierarchy list") (rh_Depth: int)

definition GetRoleHierarchy :: "string \<Rightarrow> Store \<Rightarrow> rbac_error + RoleHierarchy" where
  "GetRoleHierarchy roleID s =
     (case map_of (s_roles s) roleID of
        None \<Rightarrow> Inl (RoleNotFound roleID)
      | Some r \<Rightarrow> Inr (RoleHierarchy r
          (if role_ParentRoleId r \<noteq> []
           then map_option (\<lambda>p. RoleHierarchy p None [] 1) (map_of (s_roles s) (role_ParentRoleId r))
           else None)
          (map (\<lambda>c. RoleHierarchy c None [] (-1))
             (List.map_filter (map_of (s_roles s)) (role_ChildRoleIds r)))
          0))"

definition GetChildRoles :: "string \<Rightarrow> Store \<Rightarrow> rbac_error + Role list" where
  "GetChildRoles roleID s =
     (case map_of (s_roles s) roleID of
        None \<Rightarrow> Inl (RoleNotFound roleID)
      | Some r \<Rightarrow> Inr (List.map_filter (map_of (s_roles s)) (role_ChildRoleIds r)))"

definition GetParentRole :: "string \<Rightarrow> Store \<Rightarrow> rbac_error + Role" where
  "GetParentRole roleID s =
     (case map_of (s_roles s) roleID of
        None \<Rightarrow> Inl (RoleNotFound roleID)
      | Some r \<Rightarrow>
          if role_ParentRoleId r = [] then Inl (RoleHasNoParent roleID)
          else case map_of (s_roles s) (role_ParentRoleId r) of
                 None \<Rightarrow> Inl (ParentRoleNotFound (role_ParentRoleId r))
               | Some p \<Rightarrow> Inr p)"

definition remove_child :: "int \<Rightarrow> string \<Rightarrow> Role \<Rightarrow> Role" where
  "remove_child now c r = r\<lparr>role_ChildRoleIds := filter (\<lambda>i. i \<noteq> c) (role_ChildRoleIds r),
     role_UpdatedAt := now\<rparr>"

definition adopt_child :: "int \<Rightarrow> string \<Rightarrow> Role \<Rightarrow> Role" where
  "adopt_child now c r = (if c \<in> set (role_ChildRoleIds r) then r
     else r\<lparr>role_ChildRoleIds := role_ChildRoleIds r @ [c], role_UpdatedAt := now\<rparr>)"

definition SetRoleParent ::
    "int \<Rightarrow> string \<Rightarrow> string \<Rightarrow> RoleInheritanceType \<Rightarrow> Store \<Rightarrow> rbac_error + Store" where
  "SetRoleParent now roleID parentRoleID inheritanceType s =
     (case map_of (s_roles s) roleID of
        None \<Rightarrow> Inl (RoleNotFound roleID)
      | Some r \<Rightarrow>
          if parentRoleID \<noteq> [] \<and> map_of (s_roles s) parentRoleID = None
          then Inl (ParentRoleNotFound parentRoleID)
          else
            (let left = (if role_ParentRoleId r \<noteq> [] \<and> role_ParentRoleId r \<noteq> parentRoleID
                   then update_entry (role_ParentRoleId r) (remove_child now roleID) (s_roles s)
                   else s_roles s);
                 joined = (if parentRoleID \<noteq> []
                   then update_entry parentRoleID (adopt_child now roleID) left else left);
                 final = update_entry roleID (\<lambda>r. r\<lparr>role_ParentRoleId := parentRoleID,
                   role_InheritanceType := inheritanceType, role_UpdatedAt := now\<rparr>) joined
             in Inr (s\<lparr>s_roles := final\<rparr>)))"

definition RemoveRoleParent :: "int \<Rightarrow> string \<Rightarrow> Store \<Rightarrow> rbac_error + Store" where
  "RemoveRoleParent now roleID s =
     (case map_of (s_roles s) roleID of
        None \<Rightarrow> Inl (RoleNotFound roleID)
      | Some r \<Rightarrow>
          if role_ParentRoleId r = [] then Inr s
          else
            (let left = update_entry (role_ParentRoleId r) (remove_child now roleID) (s_roles s);
                 final = update_entry roleID (\<lambda>r. r\<lparr>role_ParentRoleId := [],
                   role_InheritanceType := INHERITANCE_NONE, role_UpdatedAt := now\<rparr>) left
             in Inr (s\<lparr>s_roles := final\<rparr>)))"

text \<open>
  \<open>detectCycle\<close> walks up the parents. It marks the roles by their \<open>Id\<close>; the entries of the
  store not yet marked decrease, so it ends.
\<close>

definition unmarked :: "(string \<times> Role) list \<Rightarrow> string set \<Rightarrow> nat" where
  "unmarked roles visited = length (filter (\<lambda>(_, r). role_Id r \<notin> visited) roles)"

lemma unmarked_decreases:
  "(k, r) \<in> set roles \<Longrightarrow> role_Id r \<notin> visited \<Longrightarrow>
     unmarked roles (insert (role_Id r) visited) < unmarked roles visited"
  unfolding unmarked_def by (rule length_filter_strict [of "(k, r)"]) auto

lemma unmarked_mono: "unmarked roles (insert x visited) \<le> unmarked roles visited"
  unfolding unmarked_def by (rule length_filter_mono) auto

function detectCycle :: "Store \<Rightarrow> Role \<Rightarrow> string set \<Rightarrow> rbac_error option" where
  "detectCycle s r visited =
     (if role_Id r \<in> visited then Some (CircularHierarchy (role_Id r))
      else if role_ParentRoleId r = [] then None
      else case map_of (s_roles s) (role_ParentRoleId r) of
             None \<Rightarrow> None
           | Some p \<Rightarrow> detectCycle s p (insert (role_Id r) visited))"
  by auto
termination
proof (relation "measure (\<lambda>(s, r, visited).
    unmarked (s_roles s) visited + (if r \<in> snd ` set (s_roles s) then 0 else 1))", goal_cases)
  case (2 s r visited p)
  then have "p \<in> snd ` set (s_roles s)" by (force dest: map_of_SomeD)
  with 2 show ?case
    using unmarked_decreases [of _ r "s_roles s" visited]
      unmarked_mono [of "s_roles s" "role_Id r" visited] by (auto simp: less_Suc_eq_le)
qed simp

definition store_ValidateRoleHierarchy :: "string \<Rightarrow> Store \<Rightarrow> rbac_error option" where
  "store_ValidateRoleHierarchy roleID s =
     (case map_of (s_roles s) roleID of
        None \<Rightarrow> Some (RoleNotFound roleID)
      | Some r \<Rightarrow> detectCycle s r {})"

section \<open>The invariant of the store\<close>

text \<open>An entry is filed once, under its own id; an assignment's id is never empty.\<close>

definition filed :: "('v \<Rightarrow> string) \<Rightarrow> (string \<times> 'v) list \<Rightarrow> bool" where
  "filed ident m \<longleftrightarrow> distinct (keys m) \<and> list_all (\<lambda>(k, v). ident v = k) m"

definition store_ok :: "Store \<Rightarrow> bool" where
  "store_ok s \<longleftrightarrow> filed perm_Id (s_permissions s) \<and> filed role_Id (s_roles s) \<and>
     filed subj_Id (s_subjects s) \<and> filed asg_Id (s_assignments s) \<and>
     map_of (s_assignments s) [] = None"

named_theorems rbac_store_defs \<open>the operations of the store that change it\<close>

declare CreatePermission_def [rbac_store_defs] UpdatePermission_def [rbac_store_defs]
  DeletePermission_def [rbac_store_defs] CreateRole_def [rbac_store_defs]
  UpdateRole_def [rbac_store_defs] DeleteRole_def [rbac_store_defs]
  CreateSubject_def [rbac_store_defs] UpdateSubject_def [rbac_store_defs]
  DeleteSubject_def [rbac_store_defs] AssignRole_def [rbac_store_defs]
  RevokeRole_def [rbac_store_defs] SetRoleParent_def [rbac_store_defs]
  RemoveRoleParent_def [rbac_store_defs]

lemma filed_Nil [simp]: "filed ident []"
  by (simp add: filed_def)

lemma filed_put [simp]: "filed ident m \<Longrightarrow> ident v = k \<Longrightarrow> filed ident (put k v m)"
  by (auto simp: filed_def list_all_iff set_put)

lemma filed_del [simp]: "filed ident m \<Longrightarrow> filed ident (del k m)"
  by (auto simp: filed_def list_all_iff set_del)

lemma filed_ident: "filed ident m \<Longrightarrow> map_of m k = Some v \<Longrightarrow> ident v = k"
  by (auto simp: filed_def list_all_iff dest!: map_of_SomeD)

lemma filed_map_of: "filed ident m \<Longrightarrow> (k, v) \<in> set m \<longleftrightarrow> map_of m k = Some v"
  by (auto simp: filed_def dest: map_of_SomeD)

lemma filed_update_entry [simp]:
  "filed ident m \<Longrightarrow> (\<And>v. ident (f v) = ident v) \<Longrightarrow> filed ident (update_entry k f m)"
  by (auto simp: update_entry_def filed_ident split: option.splits)

lemma map_of_update_entry:
  "map_of (update_entry k f m) a = (if a = k then map_option f (map_of m k) else map_of m a)"
  by (auto simp: update_entry_def split: option.splits)

lemma keys_update_entry [simp]: "fst ` set (update_entry k f m) = fst ` set m"
  by (auto simp: update_entry_def split: option.splits dest: map_of_SomeD intro: rev_image_eqI)

lemma child_Id [simp]:
  "role_Id (add_child c r) = role_Id r"
  "role_Id (remove_child now c r) = role_Id r"
  "role_Id (adopt_child now c r) = role_Id r"
  by (simp_all add: add_child_def remove_child_def adopt_child_def)

lemma filed_foldl_put:
  "filed ident m \<Longrightarrow> (\<And>x. ident (f x) = k x) \<Longrightarrow> filed ident (foldl (\<lambda>m x. put (k x) (f x) m) m xs)"
  by (induction xs arbitrary: m) simp_all

lemma NewStore_ok [simp]: "store_ok NewStore"
  by (simp add: store_ok_def NewStore_def)

lemma LoadPermissions_ok [simp]: "store_ok s \<Longrightarrow> store_ok (LoadPermissions ps s)"
  using filed_foldl_put [of perm_Id "s_permissions s" "\<lambda>p. p" perm_Id ps]
  by (simp add: store_ok_def LoadPermissions_def)

lemma LoadRoles_ok [simp]: "store_ok s \<Longrightarrow> store_ok (LoadRoles now rs s)"
proof -
  assume ok: "store_ok s"
  have link: "filed role_Id (foldl (\<lambda>m r. if role_ParentRoleId r \<noteq> []
      then update_entry (role_ParentRoleId r) (add_child (role_Id r)) m else m) m rs)"
    if "filed role_Id m" for m rs
    using that by (induction rs arbitrary: m) simp_all
  have "filed role_Id (foldl (\<lambda>m r. put (role_Id r)
      (r\<lparr>role_CreatedAt := now, role_UpdatedAt := now\<rparr>) m) (s_roles s) rs)"
    by (rule filed_foldl_put) (use ok in \<open>simp_all add: store_ok_def\<close>)
  with ok show ?thesis by (simp add: store_ok_def LoadRoles_def link)
qed

text \<open>Every operation that succeeds keeps the invariant.\<close>

lemma store_ops_ok:
  assumes "store_ok s"
  shows "CreatePermission p s = Inr s' \<Longrightarrow> store_ok s'"
    and "UpdatePermission p s = Inr s' \<Longrightarrow> store_ok s'"
    and "DeletePermission i s = Inr s' \<Longrightarrow> store_ok s'"
    and "CreateRole now r s = Inr s' \<Longrightarrow> store_ok s'"
    and "UpdateRole now r s = Inr s' \<Longrightarrow> store_ok s'"
    and "DeleteRole i s = Inr s' \<Longrightarrow> store_ok s'"
    and "CreateSubject now u s = Inr s' \<Longrightarrow> store_ok s'"
    and "UpdateSubject now u s = Inr s' \<Longrightarrow> store_ok s'"
    and "DeleteSubject i s = Inr s' \<Longrightarrow> store_ok s'"
    and "uuid \<noteq> [] \<Longrightarrow> AssignRole uuid now a s = Inr (a', s') \<Longrightarrow> store_ok s'"
    and "RevokeRole rng now i j k s = Inr s' \<Longrightarrow> store_ok s'"
    and "SetRoleParent now i j ty s = Inr s' \<Longrightarrow> store_ok s'"
    and "RemoveRoleParent now i s = Inr s' \<Longrightarrow> store_ok s'"
  using assms
  by (auto simp: store_ok_def rbac_store_defs Let_def split: if_splits option.splits)

end
