(* ===== verification/Rbac_Defaults.thy ===== *)
theory Rbac_Defaults
  imports Rbac_Store
begin

text \<open>
  The built-in permissions and roles, \<open>features/rbac/defaults.go\<close>, and the roles made for a
  tenant from the templates among them.
\<close>

definition new_permission :: "string \<Rightarrow> string \<Rightarrow> string \<Rightarrow> string \<Rightarrow> string list \<Rightarrow> Permission" where
  "new_permission i n d ty acts = \<lparr>perm_Id = i, perm_Name = n, perm_Description = d,
     perm_ResourceType = ty, perm_Actions = acts\<rparr>"

text \<open>Fields that a composite literal leaves out have their zero value.\<close>

definition new_role :: "string \<Rightarrow> string \<Rightarrow> string \<Rightarrow> string list \<Rightarrow> bool \<Rightarrow> Role" where
  "new_role i n d ps system = \<lparr>role_Id = i, role_Name = n, role_Description = d, role_PermissionIds = ps,
     role_IsSystemRole = system, role_TenantId = [], role_CreatedAt = 0, role_UpdatedAt = 0,
     role_ParentRoleId = [], role_ChildRoleIds = [], role_InheritanceType = INHERITANCE_NONE\<rparr>"

definition DefaultPermissions :: "Permission list" where
  "DefaultPermissions = [
    new_permission ''steward.register'' ''Register Steward'' ''Allow steward to register with the controller'' ''steward'' [''create''],
    new_permission ''steward.heartbeat'' ''Send Heartbeat'' ''Allow steward to send heartbeat to controller'' ''steward'' [''update''],
    new_permission ''steward.dna.sync'' ''Sync DNA'' ''Allow steward to sync DNA with controller'' ''steward'' [''create'', ''update''],
    new_permission ''steward.read'' ''Read Steward'' ''Read steward information and status'' ''steward'' [''read''],
    new_permission ''steward.manage'' ''Manage Steward'' ''Full management of steward instances'' ''steward'' [''create'', ''read'', ''update'', ''delete''],
    new_permission ''steward.decommission'' ''Decommission Steward'' ''Permanently decommission a steward from the fleet (tombstones the record; requires mTLS)'' ''steward'' [''delete''],
    new_permission ''steward.rotate-credentials'' ''Rotate Steward Credentials'' (''Revoke a steward'' @ [CHR 0x27] @ ''s client certificates and archive it so the next refresh needs approval (ADR-034 '' @ [CHR 0xC2, CHR 0xA7] @ ''5)'') ''steward'' [''rotate-credentials''],
    new_permission ''steward.move-identity'' ''Move Steward Identity'' (''Move a steward identity to a queued copy on another machine and revoke the previous certificates (ADR-034 '' @ [CHR 0xC2, CHR 0xA7] @ ''5)'') ''steward'' [''move-identity''],
    new_permission ''steward.tamper-restore'' ''Restore Tampered Steward'' ''Return a tampered steward to trusted once it no longer reports a fault'' ''steward'' [''tamper-restore''],
    new_permission ''steward.tamper-ban'' ''Ban Tampered Steward'' ''Revoke the identity of a tampered steward so it is refused from then on'' ''steward'' [''tamper-ban''],
    new_permission ''steward.tamper-repair'' ''Repair Tampered Steward'' ''Repair and restore a tampered steward, approving any local data it would lose'' ''steward'' [''tamper-repair''],
    new_permission ''config.read'' ''Read Configuration'' ''Read configuration data'' ''configuration'' [''read''],
    new_permission ''config.validate'' ''Validate Configuration'' ''Validate configuration data'' ''configuration'' [''read''],
    new_permission ''config.create'' ''Create Configuration'' ''Create new configuration data'' ''configuration'' [''create''],
    new_permission ''config.update'' ''Update Configuration'' ''Update existing configuration data'' ''configuration'' [''update''],
    new_permission ''config.delete'' ''Delete Configuration'' ''Delete configuration data'' ''configuration'' [''delete''],
    new_permission ''config.status.report'' ''Report Configuration Status'' ''Report configuration execution status'' ''configuration'' [''create'', ''update''],
    new_permission ''steward.event.log'' ''Emit Steward Event Log'' ''Allow steward to stream event log entries to the controller; grants emit-only access with no read capability'' ''steward'' [''create''],
    new_permission ''tenant.read'' ''Read Tenant'' ''Read tenant information'' ''tenant'' [''read''],
    new_permission ''tenant.create'' ''Create Tenant'' ''Create new tenant'' ''tenant'' [''create''],
    new_permission ''tenant.manage'' ''Manage Tenant'' ''Full tenant management'' ''tenant'' [''create'', ''read'', ''update'', ''delete''],
    new_permission ''tenant.delete'' ''Request Tenant Deletion'' ''Request deletion of a fully-suspended tenant subtree and cancel an in-flight deletion request (ADR-027 Decisions 3-4)'' ''tenant'' [''delete''],
    new_permission ''tenant.approve-delete'' ''Approve Tenant Deletion'' ''Dual-control approval of a tenant deletion after the hold period elapses (ADR-027 Decision 4); requires user-presence proof'' ''tenant'' [''delete''],
    new_permission ''notification.configure'' ''Configure Email Delivery'' ''Read email delivery settings, set the SMTP credential and send a test message (controller-wide, root-scoped, AssuranceStrong)'' ''notification'' [''configure''],
    new_permission ''rbac.role.read'' ''Read Roles'' ''Read role information'' ''rbac'' [''read''],
    new_permission ''rbac.role.manage'' ''Manage Roles'' ''Create, update, and delete roles'' ''rbac'' [''create'', ''read'', ''update'', ''delete''],
    new_permission ''rbac.permission.read'' ''Read Permissions'' ''Read permission information'' ''rbac'' [''read''],
    new_permission ''rbac.assignment.manage'' ''Manage Role Assignments'' ''Assign and revoke roles'' ''rbac'' [''create'', ''read'', ''update'', ''delete''],
    new_permission ''module.execute'' ''Execute Module'' ''Execute configuration modules'' ''module'' [''execute''],
    new_permission ''module.read'' ''Read Module'' ''Read module information and status'' ''module'' [''read''],
    new_permission ''terminal.session.create'' ''Create Terminal Session'' ''Create new terminal sessions'' ''terminal'' [''create''],
    new_permission ''terminal.session.read'' ''Read Terminal Sessions'' ''View terminal session information and status'' ''terminal'' [''read''],
    new_permission ''terminal.session.terminate'' ''Terminate Terminal Sessions'' ''Terminate active terminal sessions'' ''terminal'' [''delete''],
    new_permission ''terminal.session.monitor'' ''Monitor Terminal Sessions'' ''Real-time monitoring of terminal sessions'' ''terminal'' [''read''],
    new_permission ''terminal.recording.read'' ''Read Terminal Recordings'' ''Access terminal session recordings'' ''terminal'' [''read''],
    new_permission ''terminal.admin'' ''Terminal Administration'' ''Full terminal system administration'' ''terminal'' [''create'', ''read'', ''update'', ''delete'', ''execute''],
    new_permission ''system.admin'' ''System Administration'' ''Full system administration access'' ''system'' [''create'', ''read'', ''update'', ''delete'', ''execute''],
    new_permission ''emergency.break-glass'' ''Emergency Break-Glass Access'' ''Authorises emergency break-glass access on system resources only. Must never be granted to non-emergency roles.'' ''system'' [''emergency.access''],
    new_permission ''tenant.crossing-break-glass'' ''Tenant-Crossing Break-Glass Access'' ''Authorises a justified, time-boxed break-glass elevation across the ADR-025 root<->MSP tenant boundary. Must never be granted to non-emergency roles.'' ''tenant'' [''crossing.break-glass''],
    new_permission ''tenant.crossing-approve-break-glass'' ''Tenant-Crossing Break-Glass Approval'' (''Authorises approving another root-scoped operator'' @ [CHR 0x27] @ ''s pending break-glass invocation across the ADR-025 root<->MSP tenant boundary.'') ''tenant'' [''crossing.approve-break-glass''],
    new_permission ''reboot_window.read'' ''Read Reboot Window'' ''Read reboot_window configuration and the resolved next occurrence for a tenant or steward'' ''reboot_window'' [''read''],
    new_permission ''reboot_window.override'' ''Override Reboot Window'' ''Create or update reboot_window configuration at tenant or device level; intentionally distinct from config.update (ADR-026 decision 3)'' ''reboot_window'' [''create'', ''update''],
    new_permission ''rollback.emergency'' ''Emergency Rollback'' ''Perform emergency configuration rollback without the normal approval flow'' ''rollback'' [''emergency''],
    new_permission ''rollback.msp'' ''MSP-Level Rollback'' ''Perform configuration rollback at MSP scope'' ''rollback'' [''rollback'']
  ]"

definition DefaultRoles :: "Role list" where
  "DefaultRoles = [
    new_role ''system.admin'' ''System Administrator'' ''Full system administration privileges''
      [''system.admin'', ''tenant.manage'', ''rbac.role.manage'', ''rbac.permission.read'', ''rbac.assignment.manage'']
      True,
    new_role ''steward.service'' ''Steward Service Account'' ''Permissions for steward instances to operate''
      [''steward.register'', ''steward.heartbeat'', ''steward.dna.sync'', ''config.read'', ''config.validate'', ''config.status.report'', ''steward.event.log'', ''module.execute'']
      True,
    new_role ''agent.dev'' ''Agent Developer'' ''Least-privilege read-only role for dev agent containers bound to agent-test sub-tenants; includes config.validate but no write or admin permissions''
      [''steward.read'', ''config.read'', ''module.read'', ''tenant.read'', ''config.validate'']
      True,
    new_role ''tenant.admin'' ''Tenant Administrator'' ''Full administration within tenant scope''
      [''steward.read'', ''steward.manage'', ''config.create'', ''config.read'', ''config.update'', ''config.delete'', ''config.validate'', ''module.read'', ''rbac.role.read'', ''rbac.assignment.manage'', ''tenant.read'', ''terminal.session.create'', ''terminal.session.read'', ''terminal.session.terminate'', ''terminal.session.monitor'', ''terminal.recording.read'', ''terminal.admin'']
      False,
    new_role ''tenant.operator'' ''Tenant Operator'' ''Operations and monitoring within tenant scope''
      [''steward.read'', ''config.read'', ''config.validate'', ''config.status.report'', ''module.read'', ''tenant.read'', ''terminal.session.create'', ''terminal.session.read'', ''terminal.session.monitor'', ''terminal.recording.read'']
      False,
    new_role ''tenant.viewer'' ''Tenant Viewer'' ''Read-only access within tenant scope''
      [''steward.read'', ''config.read'', ''module.read'', ''tenant.read'', ''rbac.role.read'', ''terminal.session.read'', ''terminal.recording.read'']
      False
  ]"

definition GetSystemRoles :: "Role list" where
  "GetSystemRoles = filter role_IsSystemRole DefaultRoles"

definition GetTenantRoleTemplates :: "Role list" where
  "GetTenantRoleTemplates = filter (\<lambda>r. \<not> role_IsSystemRole r) DefaultRoles"

definition CreateTenantRole :: "Role \<Rightarrow> string \<Rightarrow> Role" where
  "CreateTenantRole template tenantID =
     (new_role (tenantID @ ''.'' @ role_Id template) (role_Name template) (role_Description template)
       (role_PermissionIds template) False)\<lparr>role_TenantId := tenantID\<rparr>"

end
