(* ===== verification/Rbac_Hierarchy.thy ===== *)
theory Rbac_Hierarchy
  imports Rbac_Defaults
begin

text \<open>
  The hierarchy engine, \<open>features/rbac/hierarchy.go\<close>: the parent chain of a role, the
  permissions that flow down it, the resolution of conflicts, and the cycle check. Shown are
  that the checks decide whether a chain ends at a root, and which permissions a role
  receives from which ancestor.
\<close>

section \<open>Building the chain\<close>

text \<open>\<open>depth\<close> is cut at 10, so the recursion is at most ten deep.\<close>

function buildRoleHierarchyWithVisited ::
    "Store \<Rightarrow> string \<Rightarrow> nat \<Rightarrow> string set \<Rightarrow> rbac_error + RoleHierarchy" where
  "buildRoleHierarchyWithVisited s roleID depth visited =
     (if roleID \<in> visited then Inl (CircularHierarchy roleID)
      else case GetRole roleID s of
             Inl e \<Rightarrow> Inl (Wrapped (''failed to get role '' @ roleID) e)
           | Inr r \<Rightarrow>
               if role_ParentRoleId r \<noteq> [] \<and> depth < 10 then
                 (case buildRoleHierarchyWithVisited s (role_ParentRoleId r) (depth + 1)
                         (insert roleID visited) of
                    Inl e \<Rightarrow> Inl (Wrapped ''failed to build parent hierarchy'' e)
                  | Inr p \<Rightarrow> Inr (RoleHierarchy r (Some p) [] (int depth)))
               else Inr (RoleHierarchy r None [] (int depth)))"
  by auto
termination by (relation "measure (\<lambda>(s, k, depth, visited). 10 - depth)") auto

declare buildRoleHierarchyWithVisited.simps [simp del]

definition buildRoleHierarchy :: "string \<Rightarrow> Store \<Rightarrow> rbac_error + RoleHierarchy" where
  "buildRoleHierarchy roleID s = buildRoleHierarchyWithVisited s roleID 0 {}"

section \<open>Collecting permissions\<close>

definition intersectPermissions :: "Permission list \<Rightarrow> Permission list \<Rightarrow> Permission list" where
  "intersectPermissions set1 set2 = filter (\<lambda>p. perm_Id p \<in> perm_Id ` set set1) set2"

type_synonym inherited = "(string \<times> Permission list) list"

text \<open>
  The inherited permissions by the role they come from. The entries of the grandparents are
  copied one key at a time, so the order in which the map is walked does not matter.
\<close>

fun collectHierarchyPermissions :: "Store \<Rightarrow> RoleHierarchy \<Rightarrow> rbac_error + Permission list \<times> inherited" where
  "collectHierarchyPermissions s (RoleHierarchy r parent ch d) =
     (case GetRolePermissions (role_Id r) s of
        Inl e \<Rightarrow> Inl (Wrapped ''failed to get role permissions'' e)
      | Inr direct \<Rightarrow>
          (case parent of
             None \<Rightarrow> Inr (direct, [])
           | Some p \<Rightarrow>
               (case GetRolePermissions (role_Id (rh_Role p)) s of
                  Inl e \<Rightarrow> Inl (Wrapped ''failed to get parent permissions'' e)
                | Inr pperms \<Rightarrow>
                    (case role_InheritanceType r of
                       INHERITANCE_ADDITIVE \<Rightarrow>
                         (let inh = put (role_Id (rh_Role p)) pperms []
                          in if rh_Parent p \<noteq> None then
                               (case collectHierarchyPermissions s p of
                                  Inl e \<Rightarrow> Inl e
                                | Inr (_, grand) \<Rightarrow>
                                    Inr (direct, foldl (\<lambda>m (k, ps). put k ps m) inh grand))
                             else Inr (direct, inh))
                     | INHERITANCE_OVERRIDE \<Rightarrow> Inr (direct, put (role_Id (rh_Role p)) pperms [])
                     | INHERITANCE_RESTRICTIVE \<Rightarrow>
                         (let both = intersectPermissions direct pperms
                          in Inr (both, put (role_Id (rh_Role p)) both []))
                     | INHERITANCE_NONE \<Rightarrow> Inr (direct, [])))))"

section \<open>Conflicts\<close>

text \<open>
  \<open>rngI\<close> is the order in which the map of inherited permissions is walked, \<open>rngA\<close> that of a
  set of actions. A conflict is a permission both direct and inherited.
\<close>

definition detectPermissionConflicts ::
    "(inherited \<Rightarrow> inherited) \<Rightarrow> Permission list \<Rightarrow> inherited \<Rightarrow> inherited" where
  "detectPermissionConflicts rngI direct inherited =
     foldl (\<lambda>conflicts p. if perm_Id p \<in> perm_Id ` set direct
              then put (perm_Id p)
                ((case map_of conflicts (perm_Id p) of None \<Rightarrow> [] | Some ps \<Rightarrow> ps) @ [p]) conflicts
              else conflicts)
       [] (concat (map snd (rngI inherited)))"

definition mergePermissions ::
    "(string list \<Rightarrow> string list) \<Rightarrow> Permission \<Rightarrow> Permission list \<Rightarrow> Permission" where
  "mergePermissions rngA direct inherited =
     direct\<lparr>perm_Actions := rngA (remdups (perm_Actions direct @ concat (map perm_Actions inherited)))\<rparr>"

definition restrictPermissions ::
    "(string list \<Rightarrow> string list) \<Rightarrow> Permission \<Rightarrow> Permission list \<Rightarrow> Permission" where
  "restrictPermissions rngA direct inherited =
     (if inherited = [] then direct
      else direct\<lparr>perm_Actions := rngA (foldl (\<lambda>acts p. filter (\<lambda>a. a \<in> set (perm_Actions p)) acts)
             (remdups (perm_Actions direct)) inherited)\<rparr>)"

datatype resolution_kind = Merge | Override | Restrict

record ConflictResult =
  cr_Permission :: Permission
  cr_SourceRoleID :: string
  cr_Resolution :: resolution_kind
  cr_ConflictedWith :: "string list"

definition resolve_conflict ::
    "(string list \<Rightarrow> string list) \<Rightarrow> RoleInheritanceType \<Rightarrow> string \<Rightarrow> Permission \<Rightarrow> Permission list \<Rightarrow> ConflictResult" where
  "resolve_conflict rngA ty roleID directPerm conflicting =
     (let (p, how) = (case ty of
            INHERITANCE_ADDITIVE \<Rightarrow> (mergePermissions rngA directPerm conflicting, Merge)
          | INHERITANCE_OVERRIDE \<Rightarrow> (directPerm, Override)
          | INHERITANCE_RESTRICTIVE \<Rightarrow> (restrictPermissions rngA directPerm conflicting, Restrict)
          | INHERITANCE_NONE \<Rightarrow> (directPerm, Override))
      in \<lparr>cr_Permission = p, cr_SourceRoleID = roleID, cr_Resolution = how,
          cr_ConflictedWith = map perm_Id conflicting\<rparr>)"

fun resolveConflicts ::
    "(string list \<Rightarrow> string list) \<Rightarrow> Store \<Rightarrow> string \<Rightarrow> RoleHierarchy \<Rightarrow> inherited
     \<Rightarrow> (string \<times> ConflictResult) list \<Rightarrow> rbac_error + (string \<times> ConflictResult) list" where
  "resolveConflicts rngA s roleID h [] res = Inr res"
| "resolveConflicts rngA s roleID h ((pid, conflicting) # rest) res =
     (case GetRolePermissions roleID s of
        Inl e \<Rightarrow> Inl (Wrapped ''failed to get direct permissions'' e)
      | Inr direct \<Rightarrow>
          (case find (\<lambda>p. perm_Id p = pid) direct of
             None \<Rightarrow> resolveConflicts rngA s roleID h rest res
           | Some d \<Rightarrow> resolveConflicts rngA s roleID h rest
               (put pid (resolve_conflict rngA (role_InheritanceType (rh_Role h)) roleID d conflicting) res)))"

record EffectivePermissions =
  ep_RoleID :: string
  ep_DirectPermissions :: "Permission list"
  ep_InheritedPermissions :: inherited
  ep_ConflictResolution :: "(string \<times> ConflictResult) list"
  ep_ComputedAt :: instant

text \<open>
  Nothing else runs between the reads of one computation here; the engine takes the store's
  lock once per read.
\<close>

definition ComputeEffectivePermissions ::
    "(inherited \<Rightarrow> inherited) \<Rightarrow> (string list \<Rightarrow> string list) \<Rightarrow> instant \<Rightarrow> string \<Rightarrow> Store
     \<Rightarrow> rbac_error + EffectivePermissions" where
  "ComputeEffectivePermissions rngI rngA now roleID s =
     (case buildRoleHierarchy roleID s of
        Inl e \<Rightarrow> Inl (Wrapped ''failed to build role hierarchy'' e)
      | Inr h \<Rightarrow>
          (case collectHierarchyPermissions s h of
             Inl e \<Rightarrow> Inl (Wrapped ''failed to collect hierarchy permissions'' e)
           | Inr (direct, inherited) \<Rightarrow>
               (let result = (\<lambda>res. \<lparr>ep_RoleID = roleID, ep_DirectPermissions = direct,
                      ep_InheritedPermissions = inherited, ep_ConflictResolution = res,
                      ep_ComputedAt = now\<rparr>)
                in if role_InheritanceType (rh_Role h) \<noteq> INHERITANCE_RESTRICTIVE then
                     (case resolveConflicts rngA s roleID h
                             (rngI (detectPermissionConflicts rngI direct inherited)) [] of
                        Inl e \<Rightarrow> Inl (Wrapped ''failed to resolve conflicts'' e)
                      | Inr res \<Rightarrow> Inr (result res))
                   else Inr (result []))))"

section \<open>The cycle check\<close>

text \<open>
  The walk marks the ids it looks up, and stops at an id that is not stored: the stored ids
  not yet marked decrease.
\<close>

definition unvisited :: "Store \<Rightarrow> string set \<Rightarrow> nat" where
  "unvisited s visited = length (filter (\<lambda>k. k \<notin> visited) (keys (s_roles s)))"

lemma unvisited_decreases:
  "GetRole k s = Inr r \<Longrightarrow> k \<notin> visited \<Longrightarrow> unvisited s (insert k visited) < unvisited s visited"
  unfolding unvisited_def
  by (rule length_filter_strict [of k])
    (auto simp: GetRole_def split: option.splits dest: map_of_SomeD intro: rev_image_eqI)

function detectCycles :: "Store \<Rightarrow> string \<Rightarrow> string set \<Rightarrow> string set \<Rightarrow> rbac_error option" where
  "detectCycles s roleID visited inPath =
     (if roleID \<in> inPath then Some (CircularInvolving roleID)
      else if roleID \<in> visited then None
      else case GetRole roleID s of
             Inl e \<Rightarrow> Some (Wrapped (''failed to get role '' @ roleID) e)
           | Inr r \<Rightarrow>
               if role_ParentRoleId r \<noteq> []
               then detectCycles s (role_ParentRoleId r) (insert roleID visited) (insert roleID inPath)
               else None)"
  by auto
termination
  by (relation "measure (\<lambda>(s, k, visited, inPath). unvisited s visited)") (auto intro: unvisited_decreases)

declare detectCycles.simps [simp del]

definition ValidateHierarchy :: "string \<Rightarrow> Store \<Rightarrow> rbac_error option" where
  "ValidateHierarchy roleID s = detectCycles s roleID {} {}"

section \<open>Parent chains\<close>

text \<open>
  The links from roles to their parents form a graph in which every node has at most one
  successor. A chain either ends, at a node without a parent, or runs into a cycle.
\<close>

definition role_up :: "Store \<Rightarrow> string \<Rightarrow> string option" where
  "role_up s k = (case map_of (s_roles s) k of
     None \<Rightarrow> None | Some r \<Rightarrow> if role_ParentRoleId r = [] then None else Some (role_ParentRoleId r))"

definition links :: "Store \<Rightarrow> (string \<times> string) set" where
  "links s = {(k, p). role_up s k = Some p}"

definition climbs :: "Store \<Rightarrow> string \<Rightarrow> string \<Rightarrow> bool" where
  "climbs s k x \<longleftrightarrow> (k, x) \<in> (links s)\<^sup>* \<and> role_up s x = None"

definition rooted :: "Store \<Rightarrow> string \<Rightarrow> bool" where
  "rooted s k \<longleftrightarrow> (\<exists>x. climbs s k x \<and> map_of (s_roles s) x \<noteq> None)"

definition runs_into_cycle :: "Store \<Rightarrow> string \<Rightarrow> bool" where
  "runs_into_cycle s k \<longleftrightarrow> (\<exists>x. (k, x) \<in> (links s)\<^sup>* \<and> (x, x) \<in> (links s)\<^sup>+)"

lemma links_iff [simp]: "(k, p) \<in> links s \<longleftrightarrow> role_up s k = Some p"
  by (simp add: links_def)

lemma links_from_top: "role_up s x = None \<Longrightarrow> (x, y) \<in> (links s)\<^sup>* \<longleftrightarrow> y = x"
  by (auto elim: converse_rtranclE)

lemma links_step: "role_up s k = Some p \<Longrightarrow> (k, y) \<in> (links s)\<^sup>+ \<longleftrightarrow> (p, y) \<in> (links s)\<^sup>*"
proof
  assume up: "role_up s k = Some p" and "(k, y) \<in> (links s)\<^sup>+"
  from this(2) show "(p, y) \<in> (links s)\<^sup>*"
    by (rule converse_tranclE) (use up in \<open>auto intro: trancl_into_rtrancl\<close>)
qed (auto intro: rtrancl_into_trancl2)

lemma climbs_step: "role_up s k = Some p \<Longrightarrow> climbs s k x \<longleftrightarrow> climbs s p x"
  by (auto simp: climbs_def rtrancl_eq_or_trancl [of k] links_step)

lemma climbs_top: "role_up s k = None \<Longrightarrow> climbs s k x \<longleftrightarrow> x = k"
  by (auto simp: climbs_def links_from_top)

lemma climbs_unique: "climbs s k x \<Longrightarrow> climbs s k y \<Longrightarrow> x = y"
proof -
  assume "climbs s k x" and y: "climbs s k y"
  then have "(k, x) \<in> (links s)\<^sup>*" "role_up s x = None" by (auto simp: climbs_def)
  then show ?thesis using y
    by (induction rule: converse_rtrancl_induct) (auto simp: climbs_top climbs_step)
qed

lemma runs_into_cycle_step:
  assumes up: "role_up s k = Some p"
  shows "runs_into_cycle s k \<longleftrightarrow> runs_into_cycle s p"
proof
  assume "runs_into_cycle s p"
  then obtain x where "(p, x) \<in> (links s)\<^sup>*" "(x, x) \<in> (links s)\<^sup>+" by (auto simp: runs_into_cycle_def)
  moreover from this have "(k, x) \<in> (links s)\<^sup>*" using up by (simp add: links_step trancl_into_rtrancl)
  ultimately show "runs_into_cycle s k" by (auto simp: runs_into_cycle_def)
next
  assume "runs_into_cycle s k"
  then obtain x where x: "(k, x) \<in> (links s)\<^sup>*" "(x, x) \<in> (links s)\<^sup>+" by (auto simp: runs_into_cycle_def)
  show "runs_into_cycle s p"
  proof (cases "k = x")
    case True
    then have "(p, k) \<in> (links s)\<^sup>*" "(k, k) \<in> (links s)\<^sup>+" using x(2) up by (simp_all add: links_step)
    then show ?thesis by (auto simp: runs_into_cycle_def)
  next
    case False
    then have "(p, x) \<in> (links s)\<^sup>*" using x(1) up by (simp add: rtrancl_eq_or_trancl [of k] links_step)
    then show ?thesis using x(2) by (auto simp: runs_into_cycle_def)
  qed
qed

lemma top_no_cycle: "role_up s k = None \<Longrightarrow> \<not> runs_into_cycle s k"
  by (auto simp: runs_into_cycle_def links_from_top elim: converse_tranclE)

lemma climbs_no_cycle: "climbs s k x \<Longrightarrow> \<not> runs_into_cycle s k"
proof -
  assume "climbs s k x"
  then have "(k, x) \<in> (links s)\<^sup>*" "role_up s x = None" by (auto simp: climbs_def)
  then show ?thesis
    by (induction rule: converse_rtrancl_induct) (auto simp: top_no_cycle runs_into_cycle_step)
qed

lemma acyclic_links: "acyclic (links s) \<longleftrightarrow> (\<forall>k. \<not> runs_into_cycle s k)"
  by (auto simp: acyclic_def runs_into_cycle_def)

lemma GetRole_up:
  "GetRole k s = Inr r \<Longrightarrow> role_ParentRoleId r \<noteq> [] \<Longrightarrow> role_up s k = Some (role_ParentRoleId r)"
  "GetRole k s = Inr r \<Longrightarrow> role_ParentRoleId r = [] \<Longrightarrow> role_up s k = None"
  "GetRole k s = Inl e \<Longrightarrow> role_up s k = None"
  by (auto simp: GetRole_def role_up_def split: option.splits)

lemma GetRole_stored:
  "GetRole k s = Inr r \<longleftrightarrow> map_of (s_roles s) k = Some r"
  "GetRole k s = Inl e \<longleftrightarrow> map_of (s_roles s) k = None \<and> e = RoleNotFound k"
  by (auto simp: GetRole_def split: option.splits)

section \<open>What the cycle check decides\<close>

text \<open>The walk with the same marks for \<open>visited\<close> and \<open>inPath\<close>, as \<open>ValidateHierarchy\<close> starts it.\<close>

definition walk_result :: "Store \<Rightarrow> string \<Rightarrow> string set \<Rightarrow> rbac_error option \<Rightarrow> bool" where
  "walk_result s k visited res \<longleftrightarrow>
     (case res of
        None \<Rightarrow> \<exists>x. climbs s k x \<and> map_of (s_roles s) x \<noteq> None
      | Some (CircularInvolving x) \<Rightarrow> (k, x) \<in> (links s)\<^sup>* \<and> (x \<in> visited \<or> (x, x) \<in> (links s)\<^sup>+)
      | Some _ \<Rightarrow> \<exists>x. climbs s k x \<and> map_of (s_roles s) x = None)"

lemma walk_result_step:
  assumes up: "role_up s k = Some p" and p: "walk_result s p (insert k visited) res"
  shows "walk_result s k visited res"
proof -
  have "(k, x) \<in> (links s)\<^sup>* \<and> (x \<in> visited \<or> (x, x) \<in> (links s)\<^sup>+)"
    if "(p, x) \<in> (links s)\<^sup>*" "x = k \<or> x \<in> visited \<or> (x, x) \<in> (links s)\<^sup>+" for x
    using that up by (auto simp: links_step intro: converse_rtrancl_into_rtrancl)
  then show ?thesis using p up
    by (auto simp: walk_result_def climbs_step split: option.splits rbac_error.splits)
qed

lemma detectCycles_walk: "inPath = visited \<Longrightarrow> walk_result s k visited (detectCycles s k visited inPath)"
proof (induction s k visited inPath rule: detectCycles.induct)
  case (1 s k visited inPath)
  consider (seen) "k \<in> visited" | (gone) e where "k \<notin> visited" "GetRole k s = Inl e"
    | (root) r where "k \<notin> visited" "GetRole k s = Inr r" "role_ParentRoleId r = []"
    | (up) r where "k \<notin> visited" "GetRole k s = Inr r" "role_ParentRoleId r \<noteq> []"
    by (cases "GetRole k s") auto
  then show ?case
  proof cases
    case seen
    then show ?thesis by (simp add: walk_result_def "1.prems" detectCycles.simps)
  next
    case gone
    then have "climbs s k k" "map_of (s_roles s) k = None"
      by (simp_all add: GetRole_up climbs_top GetRole_stored)
    with gone show ?thesis by (auto simp: walk_result_def "1.prems" detectCycles.simps)
  next
    case root
    then have "climbs s k k" "map_of (s_roles s) k = Some r"
      by (simp_all add: GetRole_up climbs_top GetRole_stored)
    with root show ?thesis by (auto simp: walk_result_def "1.prems" detectCycles.simps)
  next
    case up
    then have "walk_result s (role_ParentRoleId r) (insert k visited)
        (detectCycles s (role_ParentRoleId r) (insert k visited) (insert k visited))"
      using 1 by blast
    with up show ?thesis
      by (simp add: "1.prems" detectCycles.simps [of s k] walk_result_step [OF GetRole_up(1)])
  qed
qed

lemma acyclicI:
  assumes "list_all (\<lambda>k. ValidateHierarchy k s = None) (keys (s_roles s))"
  shows "acyclic (links s)"
  unfolding acyclic_links
proof
  fix k
  show "\<not> runs_into_cycle s k"
  proof (cases "map_of (s_roles s) k")
    case None
    then show ?thesis by (intro top_no_cycle) (simp add: role_up_def)
  next
    case (Some r)
    then have "k \<in> set (keys (s_roles s))" by (metis domI dom_map_of_conv_image_fst list.set_map)
    then have "ValidateHierarchy k s = None" using assms by (auto simp: list_all_iff)
    then show ?thesis using detectCycles_walk [of "{}" "{}" s k]
      by (auto simp: ValidateHierarchy_def walk_result_def dest: climbs_no_cycle)
  qed
qed

text \<open>C24: \<open>ValidateHierarchy\<close> accepts a role exactly when its parent chain ends at a stored role
  without a parent, and reports a circular dependency exactly when the chain runs into a
  cycle.\<close>

theorem ValidateHierarchy_decides:
  "(ValidateHierarchy roleID s = None \<longleftrightarrow> rooted s roleID) \<and>
   ((\<exists>x. ValidateHierarchy roleID s = Some (CircularInvolving x)) \<longleftrightarrow> runs_into_cycle s roleID)"
proof -
  have w: "walk_result s roleID {} (ValidateHierarchy roleID s)"
    unfolding ValidateHierarchy_def by (rule detectCycles_walk) simp
  consider (ok) "ValidateHierarchy roleID s = None"
    | (cycle) x where "ValidateHierarchy roleID s = Some (CircularInvolving x)"
    | (gone) e where "ValidateHierarchy roleID s = Some e" "\<And>x. e \<noteq> CircularInvolving x"
    by (cases "ValidateHierarchy roleID s") blast+
  then show ?thesis
  proof cases
    case ok
    with w show ?thesis by (auto simp: walk_result_def rooted_def dest: climbs_no_cycle)
  next
    case cycle
    then have "runs_into_cycle s roleID" using w by (auto simp: walk_result_def runs_into_cycle_def)
    then show ?thesis using cycle by (auto simp: rooted_def dest: climbs_no_cycle)
  next
    case gone
    then obtain x where "climbs s roleID x" "map_of (s_roles s) x = None"
      using w by (cases e) (auto simp: walk_result_def)
    then show ?thesis using gone by (auto simp: rooted_def dest: climbs_unique climbs_no_cycle)
  qed
qed

section \<open>Which permissions a role receives\<close>

text \<open>
  The specification: a role receives the permissions of its parent when it is additive or
  overriding, and what the parent receives in turn when it is additive.
\<close>

inductive receives :: "Store \<Rightarrow> string \<Rightarrow> string \<Rightarrow> bool" for s where
  parent: "map_of (s_roles s) k = Some r \<Longrightarrow> role_up s k = Some p \<Longrightarrow>
    role_InheritanceType r = INHERITANCE_ADDITIVE \<or> role_InheritanceType r = INHERITANCE_OVERRIDE \<Longrightarrow>
    receives s k p"
| further: "map_of (s_roles s) k = Some r \<Longrightarrow> role_up s k = Some p \<Longrightarrow>
    role_InheritanceType r = INHERITANCE_ADDITIVE \<Longrightarrow> receives s p a \<Longrightarrow> receives s k a"

definition unrestricted :: "Store \<Rightarrow> string \<Rightarrow> bool" where
  "unrestricted s k \<longleftrightarrow> (\<forall>a r. (k, a) \<in> (links s)\<^sup>* \<longrightarrow> map_of (s_roles s) a = Some r \<longrightarrow>
     role_InheritanceType r \<noteq> INHERITANCE_RESTRICTIVE)"

lemma unrestricted_up: "unrestricted s k \<Longrightarrow> role_up s k = Some p \<Longrightarrow> unrestricted s p"
  unfolding unrestricted_def by (meson converse_rtrancl_into_rtrancl links_iff)

lemma unrestricted_self:
  "unrestricted s k \<Longrightarrow> map_of (s_roles s) k = Some r \<Longrightarrow> role_InheritanceType r \<noteq> INHERITANCE_RESTRICTIVE"
  by (auto simp: unrestricted_def)

lemma receives_iff:
  assumes "map_of (s_roles s) k = Some r" "role_up s k = Some p"
  shows "receives s k a \<longleftrightarrow>
    (a = p \<and> role_InheritanceType r \<in> {INHERITANCE_ADDITIVE, INHERITANCE_OVERRIDE}) \<or>
    (role_InheritanceType r = INHERITANCE_ADDITIVE \<and> receives s p a)"
  by (subst receives.simps) (use assms in auto)

lemma receives_top: "role_up s k = None \<Longrightarrow> \<not> receives s k a"
  by (subst receives.simps) auto

lemma role_up_Some:
  "role_up s k = Some p \<longleftrightarrow>
     (\<exists>r. map_of (s_roles s) k = Some r \<and> role_ParentRoleId r = p \<and> p \<noteq> [])"
  by (auto simp: role_up_def split: option.splits)

text \<open>A chain of at most \<open>n\<close> links that ends at a stored role, as the engine builds it.\<close>

definition chain_top :: "Store \<Rightarrow> string \<Rightarrow> nat \<Rightarrow> string \<Rightarrow> bool" where
  "chain_top s k n x \<longleftrightarrow> (k, x) \<in> links s ^^ n \<and> role_up s x = None \<and> map_of (s_roles s) x \<noteq> None"

lemma chain_top_0: "chain_top s k 0 x \<longleftrightarrow> k = x \<and> role_up s k = None \<and> map_of (s_roles s) k \<noteq> None"
  by (auto simp: chain_top_def)

lemma chain_top_Suc: "chain_top s k (Suc n) x \<longleftrightarrow> (\<exists>p. role_up s k = Some p \<and> chain_top s p n x)"
  by (auto simp: chain_top_def relpow_commute [symmetric] dest!: relpow_Suc_D2 intro: relpow_Suc_I2)

lemma chain_top_climbs: "chain_top s k n x \<Longrightarrow> climbs s k x"
  by (auto simp: chain_top_def climbs_def intro: relpow_imp_rtrancl)

definition no_way_back :: "Store \<Rightarrow> string \<Rightarrow> string set \<Rightarrow> bool" where
  "no_way_back s k visited \<longleftrightarrow> (\<forall>v \<in> visited. (k, v) \<notin> (links s)\<^sup>*)"

lemma no_way_back_up:
  assumes up: "role_up s k = Some p" and c: "climbs s k x" and n: "no_way_back s k visited"
  shows "no_way_back s p (insert k visited)"
proof -
  have "(p, k) \<notin> (links s)\<^sup>*"
  proof
    assume "(p, k) \<in> (links s)\<^sup>*"
    then have "runs_into_cycle s k" using up by (auto simp: runs_into_cycle_def links_step)
    then show False using climbs_no_cycle [OF c] by simp
  qed
  moreover have "(p, v) \<notin> (links s)\<^sup>*" if "v \<in> visited" for v
    using n that up unfolding no_way_back_def by (metis converse_rtrancl_into_rtrancl links_iff)
  ultimately show ?thesis by (auto simp: no_way_back_def)
qed

text \<open>What the builder returns for such a chain, by the number of its links.\<close>

fun hierarchy_of :: "Store \<Rightarrow> string \<Rightarrow> nat \<Rightarrow> RoleHierarchy \<Rightarrow> bool" where
  "hierarchy_of s k 0 h \<longleftrightarrow> map_of (s_roles s) k = Some (rh_Role h) \<and> rh_Parent h = None"
| "hierarchy_of s k (Suc n) h \<longleftrightarrow> map_of (s_roles s) k = Some (rh_Role h) \<and>
     (\<exists>p q. rh_Parent h = Some q \<and> role_up s k = Some p \<and> hierarchy_of s p n q)"

lemma build_chain:
  "chain_top s k n x \<Longrightarrow> n + d \<le> 10 \<Longrightarrow> no_way_back s k visited \<Longrightarrow>
     \<exists>h. buildRoleHierarchyWithVisited s k d visited = Inr h \<and> hierarchy_of s k n h"
proof (induction n arbitrary: k d visited)
  case 0
  then obtain r where r: "map_of (s_roles s) k = Some r" "role_ParentRoleId r = []" "k \<notin> visited"
    by (auto simp: chain_top_0 role_up_def no_way_back_def split: if_splits)
  then show ?case by (simp add: buildRoleHierarchyWithVisited.simps GetRole_def)
next
  case (Suc n)
  obtain p where p: "role_up s k = Some p" "chain_top s p n x"
    using Suc.prems(1) by (auto simp: chain_top_Suc)
  then obtain r where r: "map_of (s_roles s) k = Some r" "role_ParentRoleId r = p" "p \<noteq> []"
    by (auto simp: role_up_Some)
  have k: "k \<notin> visited" using Suc.prems(3) by (auto simp: no_way_back_def)
  have "no_way_back s p (insert k visited)"
    by (rule no_way_back_up [OF p(1) chain_top_climbs [OF Suc.prems(1)] Suc.prems(3)])
  with Suc.IH [OF p(2), of "Suc d" "insert k visited"] Suc.prems(2)
  obtain q where q: "buildRoleHierarchyWithVisited s p (Suc d) (insert k visited) = Inr q"
    "hierarchy_of s p n q" by auto
  then show ?case using r k p(1) Suc.prems(2)
    by (subst buildRoleHierarchyWithVisited.simps) (auto simp: GetRole_def)
qed

lemma map_of_foldl_put:
  "distinct (keys g) \<Longrightarrow> map_of (foldl (\<lambda>m (k, v). put k v m) m g) = map_of m ++ map_of g"
proof (induction g arbitrary: m)
  case (Cons kv g)
  obtain a b where kv: "kv = (a, b)" by (cases kv)
  with Cons.prems have "a \<notin> dom (map_of g)" by (simp add: dom_map_of_conv_image_fst)
  with Cons kv show ?case by (auto simp: map_add_upd_left map_add_def fun_eq_iff split: option.splits)
qed simp

lemma distinct_foldl_put:
  "distinct (keys m) \<Longrightarrow> distinct (keys (foldl (\<lambda>m (k, v). put k v m) m g))"
  by (induction g arbitrary: m) auto

lemma GetRolePermissions_stored:
  "map_of (s_roles s) k = Some r \<Longrightarrow> \<exists>ps. GetRolePermissions k s = Inr ps"
  by (simp add: GetRolePermissions_def)

lemma hierarchy_of_role: "hierarchy_of s k n h \<Longrightarrow> map_of (s_roles s) k = Some (rh_Role h)"
  by (cases n) auto

lemma hierarchy_of_top: "hierarchy_of s k n h \<Longrightarrow> rh_Parent h = None \<longleftrightarrow> n = 0"
  by (cases n) auto

text \<open>The collected permissions of an unrestricted chain, inherited ones by their role.\<close>

definition collected :: "Store \<Rightarrow> string \<Rightarrow> rbac_error + Permission list \<times> inherited \<Rightarrow> bool" where
  "collected s k res \<longleftrightarrow> (\<exists>direct inh. res = Inr (direct, inh) \<and> GetRolePermissions k s = Inr direct \<and>
     distinct (keys inh) \<and>
     (\<forall>a ps. map_of inh a = Some ps \<longleftrightarrow> receives s k a \<and> GetRolePermissions a s = Inr ps))"

lemma collect_chain:
  assumes ok: "filed role_Id (s_roles s)"
  shows "chain_top s k n x \<Longrightarrow> hierarchy_of s k n h \<Longrightarrow> unrestricted s k \<Longrightarrow>
     collected s k (collectHierarchyPermissions s h)"
proof (induction n arbitrary: k h)
  case 0
  obtain r ch d where h: "h = RoleHierarchy r None ch d" using 0(2) by (cases h) auto
  have r: "map_of (s_roles s) k = Some r" "role_Id r = k" "role_up s k = None"
    using 0 h filed_ident [OF ok] by (auto simp: chain_top_0)
  then obtain direct where "GetRolePermissions k s = Inr direct" using GetRolePermissions_stored by blast
  then show ?case using r h by (simp add: collected_def receives_top)
next
  case (Suc n)
  obtain r q ch d where h: "h = RoleHierarchy r (Some q) ch d" using Suc.prems(2) by (cases h) auto
  obtain p where p: "role_up s k = Some p" "hierarchy_of s p n q" using Suc.prems(2) h by auto
  have t: "chain_top s p n x" using Suc.prems(1) p(1) by (auto simp: chain_top_Suc)
  have r: "map_of (s_roles s) k = Some r" "role_Id r = k" using Suc.prems(2) h filed_ident [OF ok] by auto
  have q: "map_of (s_roles s) p = Some (rh_Role q)" "role_Id (rh_Role q) = p"
    using hierarchy_of_role [OF p(2)] filed_ident [OF ok] by auto
  obtain direct where direct: "GetRolePermissions k s = Inr direct" using GetRolePermissions_stored r(1) by blast
  obtain pperms where pperms: "GetRolePermissions p s = Inr pperms" using GetRolePermissions_stored q(1) by blast
  have IH: "collected s p (collectHierarchyPermissions s q)"
    by (rule Suc.IH [OF t p(2) unrestricted_up [OF Suc.prems(3) p(1)]])
  note rec = receives_iff [OF r(1) p(1)]
  have nr: "role_InheritanceType r \<noteq> INHERITANCE_RESTRICTIVE"
    by (rule unrestricted_self [OF Suc.prems(3) r(1)])
  show ?case
  proof (cases "role_InheritanceType r = INHERITANCE_ADDITIVE \<and> n \<noteq> 0")
    case True
    from IH obtain pd grand where g: "collectHierarchyPermissions s q = Inr (pd, grand)"
      "distinct (keys grand)"
      "\<And>a ps. map_of grand a = Some ps \<longleftrightarrow> receives s p a \<and> GetRolePermissions a s = Inr ps"
      by (auto simp: collected_def)
    have "collectHierarchyPermissions s h = Inr (direct, foldl (\<lambda>m (k, ps). put k ps m) [(p, pperms)] grand)"
      using h direct pperms r q True g(1) hierarchy_of_top [OF p(2)] by simp
    moreover have "map_of (foldl (\<lambda>m (k, ps). put k ps m) [(p, pperms)] grand) a = Some ps \<longleftrightarrow>
        receives s k a \<and> GetRolePermissions a s = Inr ps" for a ps
      using True g(2,3) pperms by (auto simp: map_of_foldl_put rec map_add_Some_iff)
    moreover have "distinct (keys (foldl (\<lambda>m (k, ps). put k ps m) [(p, pperms)] grand))"
      by (rule distinct_foldl_put) simp
    ultimately show ?thesis using direct by (auto simp: collected_def)
  next
    case False
    moreover have "\<not> receives s p a" if "n = 0" for a
      using t that by (intro receives_top) (auto simp: chain_top_0)
    ultimately show ?thesis using h direct pperms r q nr hierarchy_of_top [OF p(2)]
      by (cases "role_InheritanceType r") (auto simp: collected_def rec)
  qed
qed

lemma resolveConflicts_total:
  "GetRolePermissions k s = Inr ps \<Longrightarrow> \<exists>res'. resolveConflicts rngA s k h cs res = Inr res'"
  by (induction cs arbitrary: res) (auto split: option.splits)

text \<open>C23: for a role whose parent chain ends within ten links and holds no restrictive role,
  computing the effective permissions succeeds: the direct permissions are the role's own, and
  the inherited ones are those of exactly the ancestors it receives from, all of them, each
  under its role.\<close>

theorem ComputeEffectivePermissions_exact:
  assumes "store_ok s" and "chain_top s roleID n x" and "n \<le> 10" and "unrestricted s roleID"
  shows "\<exists>ep. ComputeEffectivePermissions rngI rngA now roleID s = Inr ep \<and>
    GetRolePermissions roleID s = Inr (ep_DirectPermissions ep) \<and>
    (\<forall>a ps. map_of (ep_InheritedPermissions ep) a = Some ps \<longleftrightarrow>
       receives s roleID a \<and> GetRolePermissions a s = Inr ps)"
proof -
  have ok: "filed role_Id (s_roles s)" using assms(1) by (simp add: store_ok_def)
  obtain h where h: "buildRoleHierarchy roleID s = Inr h" "hierarchy_of s roleID n h"
    using build_chain [OF assms(2), of 0 "{}"] assms(3)
    by (auto simp: buildRoleHierarchy_def no_way_back_def)
  from collect_chain [OF ok assms(2) h(2) assms(4)] obtain direct inh where
    c: "collectHierarchyPermissions s h = Inr (direct, inh)" "GetRolePermissions roleID s = Inr direct"
      "\<And>a ps. map_of inh a = Some ps \<longleftrightarrow> receives s roleID a \<and> GetRolePermissions a s = Inr ps"
    by (auto simp: collected_def)
  obtain res where
    "resolveConflicts rngA s roleID h (rngI (detectPermissionConflicts rngI direct inh)) [] = Inr res"
    using resolveConflicts_total [OF c(2)] by blast
  then show ?thesis using h(1) c by (simp add: ComputeEffectivePermissions_def Let_def)
qed

text \<open>A small organisation: three roles in a chain, and a subject who is operator in one tenant.\<close>

definition sample_role :: "string \<Rightarrow> string \<Rightarrow> string \<Rightarrow> Role" where
  "sample_role i parent perm = (new_role i i [] [perm] False)\<lparr>role_TenantId := ''acme'',
     role_ParentRoleId := parent, role_InheritanceType := INHERITANCE_ADDITIVE\<rparr>"

definition sample_permission :: "string \<Rightarrow> Permission" where
  "sample_permission i = new_permission i i [] ''config'' [''read'']"

definition sample_assignment :: "string \<Rightarrow> string \<Rightarrow> RoleAssignment" where
  "sample_assignment i role = \<lparr>asg_Id = i, asg_SubjectId = ''alice'', asg_RoleId = role, asg_TenantId = ''acme'',
     asg_Conditions = [], asg_ExpiresAt = 0, asg_AssignedAt = 1, asg_AssignedBy = []\<rparr>"

definition sample_subject :: "string list \<Rightarrow> Subject" where
  "sample_subject roles = \<lparr>subj_Id = ''alice'', subj_Type = SUBJECT_USER, subj_DisplayName = ''Alice'',
     subj_TenantId = ''acme'', subj_RoleIds = roles, subj_Attributes = [], subj_IsActive = True,
     subj_CreatedAt = 1, subj_UpdatedAt = 1\<rparr>"

definition sample_store :: Store where
  "sample_store = \<lparr>
     s_permissions = [(''c.read'', sample_permission ''c.read''), (''c.write'', sample_permission ''c.write''),
       (''c.admin'', sample_permission ''c.admin'')],
     s_roles = [(''viewer'', sample_role ''viewer'' [] ''c.read''),
       (''operator'', sample_role ''operator'' ''viewer'' ''c.write''),
       (''manager'', sample_role ''manager'' ''operator'' ''c.admin'')],
     s_subjects = [(''alice'', sample_subject [''operator''])],
     s_assignments = [(''a1'', sample_assignment ''a1'' ''operator'')], s_initialized = True\<rparr>"

lemma sample_store_ok: "store_ok sample_store"
  by code_simp

lemma unrestrictedI:
  "list_all (\<lambda>(k, r). role_InheritanceType r \<noteq> INHERITANCE_RESTRICTIVE) (s_roles s) \<Longrightarrow> unrestricted s k"
  by (auto simp: unrestricted_def list_all_iff dest!: map_of_SomeD)

lemma sample_chain: "chain_top sample_store ''manager'' 2 ''viewer''"
  by (simp add: numeral_2_eq_2 chain_top_Suc chain_top_0 role_up_def sample_store_def sample_role_def new_role_def)

theorem ComputeEffectivePermissions_exact_witness:
  "\<exists>ep. ComputeEffectivePermissions (\<lambda>x. x) (\<lambda>x. x) 0 ''manager'' sample_store = Inr ep \<and>
     GetRolePermissions ''manager'' sample_store = Inr (ep_DirectPermissions ep) \<and>
     map_of (ep_InheritedPermissions ep) ''operator'' = Some [sample_permission ''c.write'']"
proof -
  have "list_all (\<lambda>(k, r). role_InheritanceType r \<noteq> INHERITANCE_RESTRICTIVE) (s_roles sample_store)"
    by code_simp
  then have "unrestricted sample_store ''manager''" by (rule unrestrictedI)
  from ComputeEffectivePermissions_exact [OF sample_store_ok sample_chain _ this, of "\<lambda>x. x" "\<lambda>x. x" 0]
  obtain ep where ep: "ComputeEffectivePermissions (\<lambda>x. x) (\<lambda>x. x) 0 ''manager'' sample_store = Inr ep"
    "GetRolePermissions ''manager'' sample_store = Inr (ep_DirectPermissions ep)"
    "\<And>a ps. map_of (ep_InheritedPermissions ep) a = Some ps \<longleftrightarrow>
       receives sample_store ''manager'' a \<and> GetRolePermissions a sample_store = Inr ps" by auto
  have "receives sample_store ''manager'' ''operator''"
    by (rule receives.parent [of _ _ "sample_role ''manager'' ''operator'' ''c.admin''"])
      (simp_all add: role_up_def sample_store_def sample_role_def new_role_def)
  moreover have "GetRolePermissions ''operator'' sample_store = Inr [sample_permission ''c.write'']"
    by (simp add: GetRolePermissions_def sample_store_def sample_role_def new_role_def List.map_filter_def)
  ultimately show ?thesis using ep by blast
qed

end
