(* ===== verification/Rbac_Engine.thy ===== *)
theory Rbac_Engine
  imports Rbac_Hierarchy
begin

text \<open>
  The authorization engine, \<open>features/rbac/engine.go\<close>: whether a subject may do something,
  and which permissions it is said to have. Shown are exactly when access is granted, what a
  revocation takes away, and that a restrictive role is granted more than its effective
  permissions.
\<close>

section \<open>The engine\<close>

record AccessRequest =
  rq_SubjectId :: string
  rq_PermissionId :: string
  rq_ResourceId :: string
  rq_TenantId :: string
  rq_Context :: "(string \<times> string) list"

record AccessResponse =
  rs_Granted :: bool
  rs_Reason :: string
  rs_AppliedRoles :: "string list"
  rs_AppliedPermissions :: "string list"

definition denied :: "string \<Rightarrow> AccessResponse" where
  "denied reason = \<lparr>rs_Granted = False, rs_Reason = reason, rs_AppliedRoles = [],
     rs_AppliedPermissions = []\<rparr>"

definition isNotFoundError :: "rbac_error \<Rightarrow> bool" where
  "isNotFoundError e \<longleftrightarrow> Contains (Error e) ''not found''"

definition permissionMatches :: "Permission \<Rightarrow> string \<Rightarrow> bool" where
  "permissionMatches permission requested =
     (if perm_Id permission = ''*'' then False
      else if perm_Id permission = requested then True
      else if HasSuffix (perm_Id permission) ''.*''
        then HasPrefix requested (TrimSuffix (perm_Id permission) ''.*'' @ ''.'')
      else perm_Id permission = ''system.admin'')"

fun check_roles ::
    "Store \<Rightarrow> string set \<Rightarrow> AccessRequest \<Rightarrow> string list \<Rightarrow> Role list \<Rightarrow> rbac_error + AccessResponse" where
  "check_roles s validRoles request appliedRoles [] =
     Inr (denied (''No role grants permission '' @ quoted (rq_PermissionId request) @
       '' for tenant '' @ quoted (rq_TenantId request)))"
| "check_roles s validRoles request appliedRoles (role # roles) =
     (if role_Id role \<notin> validRoles then check_roles s validRoles request appliedRoles roles
      else
        (let appliedRoles = appliedRoles @ [role_Name role]
         in case GetRolePermissions (role_Id role) s of
              Inl e \<Rightarrow>
                if isNotFoundError e then check_roles s validRoles request appliedRoles roles
                else Inl (Wrapped (''failed to get permissions for role '' @ role_Id role) e)
            | Inr permissions \<Rightarrow>
                (case find (\<lambda>p. permissionMatches p (rq_PermissionId request)) permissions of
                   Some perm \<Rightarrow> Inr \<lparr>rs_Granted = True,
                     rs_Reason = ''Access granted via role '' @ quoted (role_Name role) @
                       '' with permission '' @ quoted (perm_Name perm),
                     rs_AppliedRoles = appliedRoles, rs_AppliedPermissions = [perm_Name perm]\<rparr>
                 | None \<Rightarrow> check_roles s validRoles request appliedRoles roles)))"

type_synonym assignment_order =
  "(string \<times> RoleAssignment) list \<Rightarrow> (string \<times> RoleAssignment) list"

text \<open>The memory store's \<open>GetSubjectAssignments\<close> never fails, so that branch has no counterpart.\<close>

definition CheckPermission ::
    "assignment_order \<Rightarrow> int \<Rightarrow> AccessRequest \<Rightarrow> Store \<Rightarrow> rbac_error + AccessResponse" where
  "CheckPermission rng now request s =
     (case GetSubject (rq_SubjectId request) s of
        Inl e \<Rightarrow> Inr (denied (''Subject not found: '' @ Error e))
      | Inr subject \<Rightarrow>
          if \<not> subj_IsActive subject then Inr (denied ''Subject is inactive'')
          else
            (let valid = GetSubjectAssignments rng now (rq_SubjectId request) (rq_TenantId request) s
             in case GetSubjectRoles (rq_SubjectId request) (rq_TenantId request) s of
                  Inl e \<Rightarrow> Inr (denied (''Failed to get subject roles: '' @ Error e))
                | Inr roles \<Rightarrow> check_roles s (asg_RoleId ` set valid) request [] roles))"

record AuthorizationContext =
  ac_TenantId :: string
  ac_SubjectId :: string
  ac_Environment :: "(string \<times> string) list"
  ac_ResourceAttributes :: "(string \<times> string) list"

definition ValidateAccess ::
    "assignment_order \<Rightarrow> int \<Rightarrow> AuthorizationContext \<Rightarrow> string \<Rightarrow> Store \<Rightarrow> rbac_error + AccessResponse" where
  "ValidateAccess rng now ctx required s =
     CheckPermission rng now
       \<lparr>rq_SubjectId = ac_SubjectId ctx, rq_PermissionId = required, rq_ResourceId = [],
        rq_TenantId = ac_TenantId ctx,
        rq_Context = foldl (\<lambda>m (k, v). put (''resource.'' @ k) v m) (ac_Environment ctx)
          (ac_ResourceAttributes ctx)\<rparr> s"

text \<open>
  The permissions of the roles, by id; a later role's entry replaces an earlier one. \<open>rngP\<close>
  is the order in which the resulting map is listed.
\<close>

fun gather ::
    "('r \<Rightarrow> rbac_error + Permission list) \<Rightarrow> 'r list \<Rightarrow> (string \<times> Permission) list
     \<Rightarrow> rbac_error + (string \<times> Permission) list" where
  "gather perms [] acc = Inr acc"
| "gather perms (r # rs) acc =
     (case perms r of
        Inl e \<Rightarrow> Inl e
      | Inr ps \<Rightarrow> gather perms rs (foldl (\<lambda>m p. put (perm_Id p) p m) acc ps))"

definition GetSubjectPermissions ::
    "((string \<times> Permission) list \<Rightarrow> (string \<times> Permission) list) \<Rightarrow> string \<Rightarrow> string \<Rightarrow> Store
     \<Rightarrow> rbac_error + Permission list" where
  "GetSubjectPermissions rngP subjectID tenantID s =
     (case GetSubjectRoles subjectID tenantID s of
        Inl e \<Rightarrow> Inl (Wrapped ''failed to get subject roles'' e)
      | Inr roles \<Rightarrow>
          (case gather (\<lambda>role. case GetRolePermissions (role_Id role) s of
                  Inl e \<Rightarrow> if isNotFoundError e then Inr []
                    else Inl (Wrapped (''failed to get permissions for role '' @ role_Id role) e)
                | Inr ps \<Rightarrow> Inr ps) roles [] of
             Inl e \<Rightarrow> Inl e
           | Inr m \<Rightarrow> Inr (map snd (rngP m))))"

text \<open>
  A role whose effective permissions cannot be computed is skipped. The engine is wired with a
  hierarchy engine by \<open>NewManagerWithStorage\<close>; without one it falls back.
\<close>

definition GetEffectivePermissions ::
    "bool \<Rightarrow> ((string \<times> Permission) list \<Rightarrow> (string \<times> Permission) list) \<Rightarrow> (inherited \<Rightarrow> inherited)
     \<Rightarrow> (string list \<Rightarrow> string list) \<Rightarrow> instant \<Rightarrow> string \<Rightarrow> string \<Rightarrow> Store \<Rightarrow> rbac_error + Permission list" where
  "GetEffectivePermissions hierarchyEngine rngP rngI rngA now subjectID tenantID s =
     (if \<not> hierarchyEngine then GetSubjectPermissions rngP subjectID tenantID s
      else case GetSubjectRoles subjectID tenantID s of
        Inl e \<Rightarrow> Inl (Wrapped ''failed to get subject roles'' e)
      | Inr roles \<Rightarrow>
          (case gather (\<lambda>role. case ComputeEffectivePermissions rngI rngA now (role_Id role) s of
                  Inl e \<Rightarrow> Inr []
                | Inr ep \<Rightarrow> Inr (ep_DirectPermissions ep @
                    concat (map snd (rngI (ep_InheritedPermissions ep))))) roles [] of
             Inl e \<Rightarrow> Inl e
           | Inr m \<Rightarrow> Inr (map snd (rngP m))))"

section \<open>When access is granted\<close>

text \<open>
  The specification: an active subject holds a role, of the tenant or of the system, through
  an assignment in the tenant that has not expired, and one of the role's permissions matches.
\<close>

definition role_perms :: "Store \<Rightarrow> Role \<Rightarrow> Permission set" where
  "role_perms s r = {p. \<exists>i \<in> set (role_PermissionIds r). map_of (s_permissions s) i = Some p}"

definition grants_via :: "Store \<Rightarrow> int \<Rightarrow> string \<Rightarrow> string \<Rightarrow> string \<Rightarrow> string \<Rightarrow> bool" where
  "grants_via s now subject tenant permission roleID \<longleftrightarrow>
     (\<exists>u r i a p. map_of (s_subjects s) subject = Some u \<and> subj_IsActive u \<and> roleID \<in> set (subj_RoleIds u) \<and>
        map_of (s_roles s) roleID = Some r \<and> (role_IsSystemRole r \<or> role_TenantId r = tenant) \<and>
        map_of (s_assignments s) i = Some a \<and> matching_assignment subject roleID tenant a \<and>
        valid_assignment now a \<and>
        p \<in> role_perms s r \<and>
        permissionMatches p permission)"

lemma set_map_filter': "set (List.map_filter f xs) = {y. \<exists>x \<in> set xs. f x = Some y}"
  by (auto simp: List.map_filter_def intro: rev_image_eqI)

lemma check_roles_correct:
  assumes stored: "\<And>r. r \<in> set roles \<Longrightarrow> map_of (s_roles s) (role_Id r) = Some r"
  shows "\<exists>resp. check_roles s valid request applied roles = Inr resp \<and>
    (rs_Granted resp \<longleftrightarrow> (\<exists>r \<in> set roles. role_Id r \<in> valid \<and>
       (\<exists>p \<in> role_perms s r.
          permissionMatches p (rq_PermissionId request))))"
  using stored
proof (induction roles arbitrary: applied)
  case (Cons role roles)
  have r: "map_of (s_roles s) (role_Id role) = Some role" using Cons.prems by simp
  note IH = Cons.IH [OF Cons.prems, simplified]
  let ?ps = "List.map_filter (map_of (s_permissions s)) (role_PermissionIds role)"
  show ?case
  proof (cases "role_Id role \<in> valid")
    case False
    then show ?thesis using IH by simp
  next
    case valid: True
    have ps: "GetRolePermissions (role_Id role) s = Inr ?ps" using r by (simp add: GetRolePermissions_def)
    have mem: "set ?ps = role_perms s role" by (simp add: set_map_filter' role_perms_def)
    show ?thesis
    proof (cases "find (\<lambda>p. permissionMatches p (rq_PermissionId request)) ?ps")
      case None
      then have "\<not> (\<exists>p \<in> role_perms s role. permissionMatches p (rq_PermissionId request))"
        by (simp add: find_None_iff mem)
      then show ?thesis using IH [of "applied @ [role_Name role]"] valid None ps by auto
    next
      case (Some p)
      then have "p \<in> role_perms s role" "permissionMatches p (rq_PermissionId request)"
        by (auto simp: find_Some_iff simp flip: mem)
      then show ?thesis using valid Some ps by auto
    qed
  qed
qed (simp add: denied_def)

lemma valid_roles:
  assumes "filed asg_Id (s_assignments s)" "map_order rng"
  shows "roleID \<in> asg_RoleId ` set (GetSubjectAssignments rng now subject tenant s) \<longleftrightarrow>
    (\<exists>i a. map_of (s_assignments s) i = Some a \<and> matching_assignment subject roleID tenant a \<and>
       valid_assignment now a)"
proof -
  have "set (rng (s_assignments s)) = set (s_assignments s)" by (rule map_orderD(2) [OF assms(2)])
  then have "a \<in> set (GetSubjectAssignments rng now subject tenant s) \<longleftrightarrow>
      (\<exists>i. map_of (s_assignments s) i = Some a) \<and> asg_SubjectId a = subject \<and>
      asg_TenantId a = tenant \<and> valid_assignment now a" for a
    unfolding GetSubjectAssignments_def filed_map_of [OF assms(1), symmetric] by force
  then show ?thesis unfolding image_iff matching_assignment_def Bex_def by blast
qed

definition held_roles :: "Store \<Rightarrow> Subject \<Rightarrow> string \<Rightarrow> Role list" where
  "held_roles s u tenant = filter (\<lambda>r. role_IsSystemRole r \<or> role_TenantId r = tenant)
     (List.map_filter (map_of (s_roles s)) (subj_RoleIds u))"

lemma held_roles_iff:
  assumes "filed role_Id (s_roles s)"
  shows "r \<in> set (held_roles s u tenant) \<longleftrightarrow> role_Id r \<in> set (subj_RoleIds u) \<and>
    map_of (s_roles s) (role_Id r) = Some r \<and> (role_IsSystemRole r \<or> role_TenantId r = tenant)"
  using filed_ident [OF assms] by (auto simp: held_roles_def set_map_filter')

lemma CheckPermission_cases:
  "map_of (s_subjects s) (rq_SubjectId request) = None \<Longrightarrow>
     \<exists>m. CheckPermission rng now request s = Inr (denied m)"
  "map_of (s_subjects s) (rq_SubjectId request) = Some u \<Longrightarrow> \<not> subj_IsActive u \<Longrightarrow>
     \<exists>m. CheckPermission rng now request s = Inr (denied m)"
  "map_of (s_subjects s) (rq_SubjectId request) = Some u \<Longrightarrow> subj_IsActive u \<Longrightarrow>
     CheckPermission rng now request s =
       check_roles s (asg_RoleId ` set (GetSubjectAssignments rng now (rq_SubjectId request) (rq_TenantId request) s))
         request [] (held_roles s u (rq_TenantId request))"
  by (auto simp: CheckPermission_def GetSubject_def GetSubjectRoles_def held_roles_def)

lemma grants_via_active:
  assumes "filed role_Id (s_roles s)" "filed asg_Id (s_assignments s)" "map_order rng"
    and "map_of (s_subjects s) subject = Some u" "subj_IsActive u"
  shows "grants_via s now subject tenant permission roleID \<longleftrightarrow>
    (\<exists>r \<in> set (held_roles s u tenant). role_Id r = roleID \<and>
       roleID \<in> asg_RoleId ` set (GetSubjectAssignments rng now subject tenant s) \<and>
       (\<exists>p \<in> role_perms s r. permissionMatches p permission))"
  unfolding Bex_def held_roles_iff [OF assms(1)] valid_roles [OF assms(2,3)]
  using assms(4,5) filed_ident [OF assms(1), of roleID] unfolding grants_via_def by auto

lemma CheckPermission_grants:
  assumes "store_ok s" and "map_order rng"
  shows "\<exists>resp. CheckPermission rng now request s = Inr resp \<and>
    (rs_Granted resp \<longleftrightarrow> (\<exists>roleID. grants_via s now (rq_SubjectId request) (rq_TenantId request)
       (rq_PermissionId request) roleID))"
proof -
  have f: "filed role_Id (s_roles s)" "filed asg_Id (s_assignments s)"
    using assms(1) by (simp_all add: store_ok_def)
  consider (none) "map_of (s_subjects s) (rq_SubjectId request) = None"
    | (inactive) u where "map_of (s_subjects s) (rq_SubjectId request) = Some u" "\<not> subj_IsActive u"
    | (active) u where "map_of (s_subjects s) (rq_SubjectId request) = Some u" "subj_IsActive u"
    by fastforce
  then show ?thesis
  proof cases
    case none
    then show ?thesis using CheckPermission_cases(1) [OF none, of rng now]
      by (auto simp: denied_def grants_via_def)
  next
    case inactive
    then show ?thesis using CheckPermission_cases(2) [OF inactive, of rng now]
      by (auto simp: denied_def grants_via_def)
  next
    case active
    have stored: "map_of (s_roles s) (role_Id r) = Some r"
      if "r \<in> set (held_roles s u (rq_TenantId request))" for r
      using that by (simp add: held_roles_iff [OF f(1)])
    define V where "V = asg_RoleId ` set (GetSubjectAssignments rng now (rq_SubjectId request) (rq_TenantId request) s)"
    from check_roles_correct [OF stored, of "held_roles s u (rq_TenantId request)" V request "[]"]
    obtain resp where "CheckPermission rng now request s = Inr resp"
      "rs_Granted resp \<longleftrightarrow> (\<exists>r \<in> set (held_roles s u (rq_TenantId request)). role_Id r \<in> V \<and>
         (\<exists>p \<in> role_perms s r. permissionMatches p (rq_PermissionId request)))"
      unfolding CheckPermission_cases(3) [OF active] V_def by auto
    moreover from this(2) have "rs_Granted resp \<longleftrightarrow> (\<exists>roleID. grants_via s now (rq_SubjectId request)
        (rq_TenantId request) (rq_PermissionId request) roleID)"
      unfolding grants_via_active [OF f assms(2) active] V_def by metis
    ultimately show ?thesis by blast
  qed
qed

text \<open>C2: \<open>CheckPermission\<close> always decides, and grants access exactly when an active subject
  holds, through an unexpired assignment in the tenant, a role of that tenant or of the system
  with a matching permission.\<close>

theorem CheckPermission_decides:
  assumes "store_ok s" and "map_order rng"
  shows "\<exists>resp. CheckPermission rng now request s = Inr resp \<and>
    (rs_Granted resp \<longleftrightarrow> (\<exists>roleID. grants_via s now (rq_SubjectId request) (rq_TenantId request)
       (rq_PermissionId request) roleID))"
  by (rule CheckPermission_grants [OF assms])

lemma sample_grant: "grants_via sample_store 5 ''alice'' ''acme'' ''c.write'' ''operator''"
  unfolding grants_via_def
  by (intro exI [of _ "sample_subject [''operator'']"]
      exI [of _ "sample_role ''operator'' ''viewer'' ''c.write''"] exI [of _ "''a1''"]
      exI [of _ "sample_assignment ''a1'' ''operator''"] exI [of _ "sample_permission ''c.write''"])
    (simp add: sample_store_def sample_subject_def sample_role_def new_role_def sample_assignment_def
      sample_permission_def new_permission_def matching_assignment_def valid_assignment_def role_perms_def
      permissionMatches_def)

theorem CheckPermission_decides_witness:
  "\<exists>resp. CheckPermission (\<lambda>x. x) 5 \<lparr>rq_SubjectId = ''alice'', rq_PermissionId = ''c.write'',
       rq_ResourceId = [], rq_TenantId = ''acme'', rq_Context = []\<rparr> sample_store = Inr resp \<and> rs_Granted resp"
  using sample_grant
    CheckPermission_decides [OF sample_store_ok map_order_id, of 5 "\<lparr>rq_SubjectId = ''alice'',
      rq_PermissionId = ''c.write'', rq_ResourceId = [], rq_TenantId = ''acme'', rq_Context = []\<rparr>"]
  by auto

section \<open>What a revocation takes away\<close>

lemma RevokeRole_Inr:
  assumes "RevokeRole rng now subject role tenant s = Inr s'" and "map_order rng"
    and "filed asg_Id (s_assignments s)"
  obtains i a where "map_of (s_assignments s) i = Some a" "matching_assignment subject role tenant a"
    "s' = s\<lparr>s_assignments := del i (s_assignments s),
       s_subjects := update_entry subject
         (\<lambda>u. u\<lparr>subj_RoleIds := filter (\<lambda>i. i \<noteq> role) (subj_RoleIds u), subj_UpdatedAt := now\<rparr>)
         (s_subjects s)\<rparr>"
proof -
  obtain i a where f: "find (\<lambda>(_, a). matching_assignment subject role tenant a) (rng (s_assignments s)) = Some (i, a)"
    and s': "s' = s\<lparr>s_assignments := del i (s_assignments s),
       s_subjects := update_entry subject
         (\<lambda>u. u\<lparr>subj_RoleIds := filter (\<lambda>i. i \<noteq> role) (subj_RoleIds u), subj_UpdatedAt := now\<rparr>)
         (s_subjects s)\<rparr>"
    using assms(1) by (auto simp: RevokeRole_def Let_def split: option.splits if_splits)
  from f have "(i, a) \<in> set (rng (s_assignments s))" "matching_assignment subject role tenant a"
    by (auto simp: find_Some_iff) (metis nth_mem)
  then have "map_of (s_assignments s) i = Some a"
    using map_orderD(2) [OF assms(2)] filed_map_of [OF assms(3)] by blast
  with \<open>matching_assignment subject role tenant a\<close> s' show ?thesis using that by blast
qed

lemma RevokeRole_grants:
  assumes "store_ok s" and "map_order rng" and "RevokeRole rng now subject role tenant s = Inr s'"
  shows "grants_via s' later who tn permission r \<longleftrightarrow>
    grants_via s later who tn permission r \<and> \<not> (who = subject \<and> r = role)"
proof -
  have "filed asg_Id (s_assignments s)" using assms(1) by (simp add: store_ok_def)
  from RevokeRole_Inr [OF assms(3,2) this] obtain i a where
    ia: "map_of (s_assignments s) i = Some a" "matching_assignment subject role tenant a" and
    s': "s' = s\<lparr>s_assignments := del i (s_assignments s),
       s_subjects := update_entry subject
         (\<lambda>u. u\<lparr>subj_RoleIds := filter (\<lambda>i. i \<noteq> role) (subj_RoleIds u), subj_UpdatedAt := now\<rparr>)
         (s_subjects s)\<rparr>" .
  have asg: "(\<exists>j b. map_of (s_assignments s') j = Some b \<and> matching_assignment who r tn b \<and> valid_assignment later b) \<longleftrightarrow>
      (\<exists>j b. map_of (s_assignments s) j = Some b \<and> matching_assignment who r tn b \<and> valid_assignment later b)"
    if "\<not> (who = subject \<and> r = role)"
  proof -
    have "\<not> matching_assignment who r tn a" using ia(2) that by (auto simp: matching_assignment_def)
    moreover have "map_of (s_assignments s') j = (if j = i then None else map_of (s_assignments s) j)" for j
      by (simp add: s')
    ultimately show ?thesis using ia(1) by (metis option.distinct(1) option.inject)
  qed
  have subj: "(\<exists>u. map_of (s_subjects s') who = Some u \<and> subj_IsActive u \<and> r \<in> set (subj_RoleIds u)) \<longleftrightarrow>
      (\<exists>u. map_of (s_subjects s) who = Some u \<and> subj_IsActive u \<and> r \<in> set (subj_RoleIds u)) \<and>
      \<not> (who = subject \<and> r = role)"
    by (auto simp: s' map_of_update_entry)
  have rest: "s_roles s' = s_roles s" "s_permissions s' = s_permissions s" by (simp_all add: s')
  have split: "grants_via t later who tn permission r \<longleftrightarrow>
      (\<exists>u. map_of (s_subjects t) who = Some u \<and> subj_IsActive u \<and> r \<in> set (subj_RoleIds u)) \<and>
      (\<exists>j b. map_of (s_assignments t) j = Some b \<and> matching_assignment who r tn b \<and> valid_assignment later b) \<and>
      (\<exists>q p. map_of (s_roles t) r = Some q \<and> (role_IsSystemRole q \<or> role_TenantId q = tn) \<and>
         p \<in> role_perms t q \<and> permissionMatches p permission)" for t
    unfolding grants_via_def by blast
  show ?thesis unfolding split subj role_perms_def rest using asg by blast
qed

lemma RevokeRole_finds:
  assumes "store_ok s" and "map_order rng" and "map_of (s_assignments s) i = Some a"
    and "matching_assignment subject role tenant a"
  shows "\<exists>s'. RevokeRole rng now subject role tenant s = Inr s'"
proof -
  have f: "filed asg_Id (s_assignments s)" "map_of (s_assignments s) [] = None"
    using assms(1) by (simp_all add: store_ok_def)
  have mem: "x \<in> set (rng (s_assignments s)) \<longleftrightarrow> x \<in> set (s_assignments s)" for x
    using map_orderD(2) [OF assms(2)] by blast
  have "(i, a) \<in> set (rng (s_assignments s))" using assms(3) by (simp add: mem map_of_SomeD)
  then have "find (\<lambda>(_, a). matching_assignment subject role tenant a) (rng (s_assignments s)) \<noteq> None"
    using assms(4) by (auto simp: find_None_iff)
  then obtain j b where j: "find (\<lambda>(_, a). matching_assignment subject role tenant a) (rng (s_assignments s)) = Some (j, b)"
    by auto
  then have "(j, b) \<in> set (s_assignments s)" by (auto simp: find_Some_iff simp flip: mem) (metis nth_mem)
  then have "j \<noteq> []" using f(2) by (auto simp: map_of_eq_None_iff intro: rev_image_eqI)
  then show ?thesis using j by (simp add: RevokeRole_def)
qed

text \<open>C25: after a revocation the role grants the subject nothing any more, in any tenant and
  through whatever other assignment of it is left; what the subject is granted through its
  other roles, and what any other subject is granted, is unchanged.\<close>

theorem RevokeRole_effect:
  assumes "store_ok s" and "map_order rng" and "RevokeRole rng now subject role tenant s = Inr s'"
  shows "grants_via s' later who tn permission r \<longleftrightarrow>
    grants_via s later who tn permission r \<and> \<not> (who = subject \<and> r = role)"
  by (rule RevokeRole_grants [OF assms])

theorem RevokeRole_effect_witness:
  "\<exists>s'. RevokeRole (\<lambda>x. x) 9 ''alice'' ''operator'' ''acme'' sample_store = Inr s' \<and>
     \<not> grants_via s' 10 ''alice'' ''acme'' ''c.write'' ''operator''"
proof -
  obtain s' where "RevokeRole (\<lambda>x. x) 9 ''alice'' ''operator'' ''acme'' sample_store = Inr s'"
    by (auto simp: RevokeRole_def Let_def sample_store_def sample_assignment_def matching_assignment_def)
  then show ?thesis using RevokeRole_effect [OF sample_store_ok map_order_id] by blast
qed

section \<open>Restrictive roles\<close>

text \<open>A restrictive role that names a permission its parent does not have.\<close>

definition restrictive_store :: Store where
  "restrictive_store = sample_store\<lparr>s_roles := [(''viewer'', sample_role ''viewer'' [] ''c.read''),
     (''operator'', (sample_role ''operator'' ''viewer'' ''c.write'')
        \<lparr>role_InheritanceType := INHERITANCE_RESTRICTIVE\<rparr>)]\<rparr>"

text \<open>A subject whose only role is restrictive has no effective permission outside the parent's,
  and yet \<open>CheckPermission\<close> grants it the role's own permission.\<close>

theorem restrictive_role_grants_more:
  "GetEffectivePermissions True (\<lambda>x. x) (\<lambda>x. x) (\<lambda>x. x) 5 ''alice'' ''acme'' restrictive_store = Inr [] \<and>
   (\<exists>resp. CheckPermission (\<lambda>x. x) 5 \<lparr>rq_SubjectId = ''alice'', rq_PermissionId = ''c.write'',
      rq_ResourceId = [], rq_TenantId = ''acme'', rq_Context = []\<rparr> restrictive_store = Inr resp \<and> rs_Granted resp)"
proof
  show "GetEffectivePermissions True (\<lambda>x. x) (\<lambda>x. x) (\<lambda>x. x) 5 ''alice'' ''acme'' restrictive_store = Inr []"
    by code_simp
  show "\<exists>resp. CheckPermission (\<lambda>x. x) 5 \<lparr>rq_SubjectId = ''alice'', rq_PermissionId = ''c.write'',
      rq_ResourceId = [], rq_TenantId = ''acme'', rq_Context = []\<rparr> restrictive_store = Inr resp \<and> rs_Granted resp"
    by (simp add: CheckPermission_def GetSubject_def GetSubjectAssignments_def GetSubjectRoles_def
        GetRolePermissions_def restrictive_store_def sample_store_def sample_subject_def sample_role_def
        new_role_def sample_assignment_def sample_permission_def new_permission_def valid_assignment_def
        permissionMatches_def List.map_filter_def)
qed

end
