(* ===== verification/Rbac_Persist.thy ===== *)
theory Rbac_Persist
  imports Rbac_Store
begin

text \<open>
  The durable store of access control, \<open>pkg/storage/providers/sqlite/rbac_store.go\<close>: four
  tables with the id as primary key. The database itself is a parameter: whether a statement
  fails is decided by the environment (\<open>fault\<close>), and a statement that fails changes nothing.
  The JSON columns hold lists of strings and are read back as they were written.
\<close>

record Tables =
  t_permissions :: "(string \<times> Permission) list"
  t_roles :: "(string \<times> Role) list"
  t_subjects :: "(string \<times> Subject) list"
  t_assignments :: "(string \<times> RoleAssignment) list"

definition empty_tables :: Tables where
  "empty_tables = \<lparr>t_permissions = [], t_roles = [], t_subjects = [], t_assignments = []\<rparr>"

definition wrapErr :: "string \<Rightarrow> rbac_error \<Rightarrow> rbac_error" where
  "wrapErr op e = Wrapped (''sqlite rbac '' @ op) e"

definition exec :: "rbac_error option \<Rightarrow> string \<Rightarrow> 't \<Rightarrow> rbac_error + 't" where
  "exec fault op t = (case fault of Some e \<Rightarrow> Inl (wrapErr op e) | None \<Rightarrow> Inr t)"

text \<open>\<open>INSERT ... ON CONFLICT(id) DO UPDATE\<close>: the creation time of an existing row stays.\<close>

definition created :: "int \<Rightarrow> int option \<Rightarrow> int \<Rightarrow> int" where
  "created now existing given = (case existing of Some c \<Rightarrow> c | None \<Rightarrow> if given = 0 then now else given)"

definition upsert_permission :: "Permission \<Rightarrow> Tables \<Rightarrow> Tables" where
  "upsert_permission p t = t\<lparr>t_permissions := put (perm_Id p) p (t_permissions t)\<rparr>"

definition upsert_role :: "int \<Rightarrow> Role \<Rightarrow> Tables \<Rightarrow> Tables" where
  "upsert_role now r t = t\<lparr>t_roles := put (role_Id r)
     (r\<lparr>role_CreatedAt := created now (map_option role_CreatedAt (map_of (t_roles t) (role_Id r))) (role_CreatedAt r),
        role_UpdatedAt := now\<rparr>) (t_roles t)\<rparr>"

definition upsert_subject :: "int \<Rightarrow> Subject \<Rightarrow> Tables \<Rightarrow> Tables" where
  "upsert_subject now u t = t\<lparr>t_subjects := put (subj_Id u)
     (u\<lparr>subj_CreatedAt := created now (map_option subj_CreatedAt (map_of (t_subjects t) (subj_Id u))) (subj_CreatedAt u),
        subj_UpdatedAt := now\<rparr>) (t_subjects t)\<rparr>"

section \<open>Permissions\<close>

definition StorePermission :: "rbac_error option \<Rightarrow> Permission \<Rightarrow> Tables \<Rightarrow> rbac_error + Tables" where
  "StorePermission fault p t = exec fault ''store permission'' (upsert_permission p t)"

definition db_GetPermission :: "rbac_error option \<Rightarrow> string \<Rightarrow> Tables \<Rightarrow> rbac_error + Permission" where
  "db_GetPermission fault i t =
     (case fault of Some e \<Rightarrow> Inl (wrapErr ''get permission'' e)
      | None \<Rightarrow> (case map_of (t_permissions t) i of None \<Rightarrow> Inl (PermissionNotFound i) | Some p \<Rightarrow> Inr p))"

definition db_ListPermissions ::
    "rbac_error option \<Rightarrow> ((string \<times> Permission) list \<Rightarrow> (string \<times> Permission) list) \<Rightarrow> string \<Rightarrow> Tables
     \<Rightarrow> rbac_error + Permission list" where
  "db_ListPermissions fault rng resourceType t =
     exec fault ''list permissions''
       (filter (\<lambda>p. resourceType = [] \<or> perm_ResourceType p = resourceType) (map snd (rng (t_permissions t))))"

definition db_UpdatePermission :: "rbac_error option \<Rightarrow> Permission \<Rightarrow> Tables \<Rightarrow> rbac_error + Tables" where
  "db_UpdatePermission fault p t = StorePermission fault p t"

definition db_DeletePermission :: "rbac_error option \<Rightarrow> string \<Rightarrow> Tables \<Rightarrow> rbac_error + Tables" where
  "db_DeletePermission fault i t =
     (case fault of Some e \<Rightarrow> Inl (wrapErr ''delete permission'' e)
      | None \<Rightarrow> if map_of (t_permissions t) i = None then Inl (PermissionNotFound i)
               else Inr (t\<lparr>t_permissions := del i (t_permissions t)\<rparr>))"

section \<open>Roles\<close>

definition StoreRole :: "rbac_error option \<Rightarrow> int \<Rightarrow> Role \<Rightarrow> Tables \<Rightarrow> rbac_error + Tables" where
  "StoreRole fault now r t = exec fault ''store role'' (upsert_role now r t)"

definition db_GetRole :: "rbac_error option \<Rightarrow> string \<Rightarrow> Tables \<Rightarrow> rbac_error + Role" where
  "db_GetRole fault i t =
     (case fault of Some e \<Rightarrow> Inl (wrapErr ''scan role'' e)
      | None \<Rightarrow> (case map_of (t_roles t) i of None \<Rightarrow> Inl (Errorf ''role not found'') | Some r \<Rightarrow> Inr r))"

definition db_ListRoles ::
    "rbac_error option \<Rightarrow> ((string \<times> Role) list \<Rightarrow> (string \<times> Role) list) \<Rightarrow> string \<Rightarrow> Tables
     \<Rightarrow> rbac_error + Role list" where
  "db_ListRoles fault rng tenantID t =
     exec fault ''list roles''
       (filter (\<lambda>r. tenantID = [] \<or> role_TenantId r = tenantID \<or> role_IsSystemRole r) (map snd (rng (t_roles t))))"

definition db_UpdateRole :: "rbac_error option \<Rightarrow> int \<Rightarrow> Role \<Rightarrow> Tables \<Rightarrow> rbac_error + Tables" where
  "db_UpdateRole fault now r t = StoreRole fault now r t"

definition db_DeleteRole :: "rbac_error option \<Rightarrow> string \<Rightarrow> Tables \<Rightarrow> rbac_error + Tables" where
  "db_DeleteRole fault i t =
     (case fault of Some e \<Rightarrow> Inl (wrapErr ''delete role'' e)
      | None \<Rightarrow> if map_of (t_roles t) i = None then Inl (RoleNotFound i)
               else Inr (t\<lparr>t_roles := del i (t_roles t)\<rparr>))"

section \<open>Subjects\<close>

definition StoreSubject :: "rbac_error option \<Rightarrow> int \<Rightarrow> Subject \<Rightarrow> Tables \<Rightarrow> rbac_error + Tables" where
  "StoreSubject fault now u t = exec fault ''store subject'' (upsert_subject now u t)"

definition db_GetSubject :: "rbac_error option \<Rightarrow> string \<Rightarrow> Tables \<Rightarrow> rbac_error + Subject" where
  "db_GetSubject fault i t =
     (case fault of Some e \<Rightarrow> Inl (wrapErr ''scan subject'' e)
      | None \<Rightarrow> (case map_of (t_subjects t) i of None \<Rightarrow> Inl (Errorf ''subject not found'') | Some u \<Rightarrow> Inr u))"

definition db_ListSubjects ::
    "rbac_error option \<Rightarrow> ((string \<times> Subject) list \<Rightarrow> (string \<times> Subject) list) \<Rightarrow> string \<Rightarrow> SubjectType \<Rightarrow> Tables
     \<Rightarrow> rbac_error + Subject list" where
  "db_ListSubjects fault rng tenantID subjectType t =
     exec fault ''list subjects''
       (filter (\<lambda>u. (tenantID = [] \<or> subj_TenantId u = tenantID) \<and>
           (subjectType = SUBJECT_UNSPECIFIED \<or> subj_Type u = subjectType)) (map snd (rng (t_subjects t))))"

definition db_UpdateSubject :: "rbac_error option \<Rightarrow> int \<Rightarrow> Subject \<Rightarrow> Tables \<Rightarrow> rbac_error + Tables" where
  "db_UpdateSubject fault now u t = StoreSubject fault now u t"

definition db_DeleteSubject :: "rbac_error option \<Rightarrow> string \<Rightarrow> Tables \<Rightarrow> rbac_error + Tables" where
  "db_DeleteSubject fault i t =
     (case fault of Some e \<Rightarrow> Inl (wrapErr ''delete subject'' e)
      | None \<Rightarrow> if map_of (t_subjects t) i = None then Inl (SubjectNotFound i)
               else Inr (t\<lparr>t_subjects := del i (t_subjects t)\<rparr>))"

section \<open>Role assignments\<close>

text \<open>An expiry of zero is stored as \<open>NULL\<close> and read back as zero.\<close>

definition StoreRoleAssignment :: "rbac_error option \<Rightarrow> int \<Rightarrow> RoleAssignment \<Rightarrow> Tables \<Rightarrow> rbac_error + Tables" where
  "StoreRoleAssignment fault now a t =
     exec fault ''store role assignment''
       (t\<lparr>t_assignments := put (asg_Id a)
          (a\<lparr>asg_AssignedAt := (if asg_AssignedAt a = 0 then now else asg_AssignedAt a)\<rparr>) (t_assignments t)\<rparr>)"

definition db_GetRoleAssignment :: "rbac_error option \<Rightarrow> string \<Rightarrow> Tables \<Rightarrow> rbac_error + RoleAssignment" where
  "db_GetRoleAssignment fault i t =
     (case fault of Some e \<Rightarrow> Inl (wrapErr ''scan role assignment'' e)
      | None \<Rightarrow> (case map_of (t_assignments t) i of
                  None \<Rightarrow> Inl (Errorf ''role assignment not found'') | Some a \<Rightarrow> Inr a))"

definition db_ListRoleAssignments ::
    "rbac_error option \<Rightarrow> ((string \<times> RoleAssignment) list \<Rightarrow> (string \<times> RoleAssignment) list) \<Rightarrow>
     string \<Rightarrow> string \<Rightarrow> string \<Rightarrow> Tables \<Rightarrow> rbac_error + RoleAssignment list" where
  "db_ListRoleAssignments fault rng subjectID roleID tenantID t =
     exec fault ''list role assignments''
       (filter (\<lambda>a. (subjectID = [] \<or> asg_SubjectId a = subjectID) \<and>
           (roleID = [] \<or> asg_RoleId a = roleID) \<and> (tenantID = [] \<or> asg_TenantId a = tenantID))
         (map snd (rng (t_assignments t))))"

definition DeleteRoleAssignment ::
    "rbac_error option \<Rightarrow> string \<Rightarrow> string \<Rightarrow> string \<Rightarrow> Tables \<Rightarrow> rbac_error + Tables" where
  "DeleteRoleAssignment fault subjectID roleID tenantID t =
     exec fault ''delete role assignment''
       (t\<lparr>t_assignments := filter (\<lambda>(_, a). \<not> matching_assignment subjectID roleID tenantID a) (t_assignments t)\<rparr>)"

section \<open>Bulk operations\<close>

text \<open>One transaction: all rows, or none when a statement or the commit fails.\<close>

definition StoreBulkPermissions :: "rbac_error option \<Rightarrow> Permission list \<Rightarrow> Tables \<Rightarrow> rbac_error + Tables" where
  "StoreBulkPermissions fault ps t = exec fault ''bulk store permission'' (fold upsert_permission ps t)"

definition StoreBulkRoles :: "rbac_error option \<Rightarrow> int \<Rightarrow> Role list \<Rightarrow> Tables \<Rightarrow> rbac_error + Tables" where
  "StoreBulkRoles fault now rs t = exec fault ''bulk store role'' (fold (upsert_role now) rs t)"

definition StoreBulkSubjects :: "rbac_error option \<Rightarrow> int \<Rightarrow> Subject list \<Rightarrow> Tables \<Rightarrow> rbac_error + Tables" where
  "StoreBulkSubjects fault now us t = exec fault ''bulk store subject'' (fold (upsert_subject now) us t)"

section \<open>Queries\<close>

definition db_GetSubjectRoles ::
    "rbac_error option \<Rightarrow> ((string \<times> RoleAssignment) list \<Rightarrow> (string \<times> RoleAssignment) list) \<Rightarrow>
     string \<Rightarrow> string \<Rightarrow> Tables \<Rightarrow> rbac_error + Role list" where
  "db_GetSubjectRoles fault rng subjectID tenantID t =
     (case db_ListRoleAssignments fault rng subjectID [] tenantID t of
        Inl e \<Rightarrow> Inl e
      | Inr as \<Rightarrow> Inr (List.map_filter (\<lambda>a. map_of (t_roles t) (asg_RoleId a)) as))"

definition db_GetRolePermissions :: "rbac_error option \<Rightarrow> string \<Rightarrow> Tables \<Rightarrow> rbac_error + Permission list" where
  "db_GetRolePermissions fault i t =
     (case db_GetRole fault i t of
        Inl e \<Rightarrow> Inl e
      | Inr r \<Rightarrow> Inr (List.map_filter (map_of (t_permissions t)) (role_PermissionIds r)))"

definition db_GetSubjectAssignments ::
    "rbac_error option \<Rightarrow> ((string \<times> RoleAssignment) list \<Rightarrow> (string \<times> RoleAssignment) list) \<Rightarrow>
     string \<Rightarrow> string \<Rightarrow> Tables \<Rightarrow> rbac_error + RoleAssignment list" where
  "db_GetSubjectAssignments fault rng subjectID tenantID t =
     db_ListRoleAssignments fault rng subjectID [] tenantID t"

section \<open>The invariant of the tables\<close>

definition tables_ok :: "Tables \<Rightarrow> bool" where
  "tables_ok t \<longleftrightarrow> filed perm_Id (t_permissions t) \<and> filed role_Id (t_roles t) \<and>
     filed subj_Id (t_subjects t) \<and> filed asg_Id (t_assignments t) \<and> map_of (t_assignments t) [] = None"

lemma filed_filter [simp]: "filed ident m \<Longrightarrow> filed ident (filter P m)"
  by (auto simp: filed_def list_all_iff distinct_map_filter)

lemma map_of_filter_None: "map_of m k = None \<Longrightarrow> map_of (filter P m) k = None"
  by (auto simp: map_of_eq_None_iff)

lemma exec_Inr [simp]: "exec fault op t = Inr t' \<longleftrightarrow> fault = None \<and> t' = t"
  by (auto simp: exec_def split: option.splits)

lemma upserts_ok [simp]:
  assumes "tables_ok t"
  shows "tables_ok (upsert_permission p t)" "tables_ok (upsert_role now r t)" "tables_ok (upsert_subject now u t)"
  using assms by (simp_all add: tables_ok_def upsert_permission_def upsert_role_def upsert_subject_def)

lemma tables_ops_ok:
  assumes "tables_ok t"
  shows "StorePermission f p t = Inr t' \<Longrightarrow> tables_ok t'"
    and "db_DeletePermission f i t = Inr t' \<Longrightarrow> tables_ok t'"
    and "StoreRole f now r t = Inr t' \<Longrightarrow> tables_ok t'"
    and "db_DeleteRole f i t = Inr t' \<Longrightarrow> tables_ok t'"
    and "StoreSubject f now u t = Inr t' \<Longrightarrow> tables_ok t'"
    and "db_DeleteSubject f i t = Inr t' \<Longrightarrow> tables_ok t'"
    and "asg_Id a \<noteq> [] \<Longrightarrow> StoreRoleAssignment f now a t = Inr t' \<Longrightarrow> tables_ok t'"
    and "DeleteRoleAssignment f i j k t = Inr t' \<Longrightarrow> tables_ok t'"
  using assms
  by (auto simp: StorePermission_def db_DeletePermission_def StoreRole_def db_DeleteRole_def
      StoreSubject_def db_DeleteSubject_def StoreRoleAssignment_def DeleteRoleAssignment_def
      split: option.splits if_splits)
    (auto simp: tables_ok_def map_of_filter_None)

end
