(* ===== verification/Rbac_Manager.thy ===== *)
theory Rbac_Manager
  imports Rbac_Engine Rbac_Persist Rbac_Defaults
begin

text \<open>
  The manager of access control: \<open>features/rbac/manager.go\<close>, with the justification gate of
  \<open>sensitive_operations.go\<close> and the escalation prevention of \<open>escalation_prevention.go\<close>. It
  works on the in-memory store and writes through to the durable one. Audit events and the
  authorization cache are not part of the model.
\<close>

section \<open>Sensitive operations\<close>

definition ValidateSensitiveOperation :: "string \<Rightarrow> string \<Rightarrow> rbac_error option" where
  "ValidateSensitiveOperation operation justification =
     (let trimmed = TrimSpace justification
      in if trimmed = [] then
           Some (Errorf (''justification required for sensitive operation: operation '' @ quoted operation @
             '' requires justification''))
         else if length trimmed < 10 then
           Some (Errorf (''justification too short (minimum 10 characters): operation '' @ quoted operation))
         else if length justification > 1000 then
           Some (Errorf (''justification too long (maximum 1000 characters): operation '' @ quoted operation))
         else None)"

section \<open>State\<close>

datatype EscalationOperationType =
  OpRoleAssignment | OpRoleRevocation | OpRoleParentSet | OpRoleParentRemove | OpPermissionCheck

text \<open>The record of an operation; its free-form context is left out.\<close>

record OperationRecord =
  op_ID :: string
  op_Type :: EscalationOperationType
  op_SubjectID :: string
  op_RoleID :: string
  op_ParentRoleID :: string
  op_TenantID :: string
  op_Timestamp :: instant
  op_Success :: bool
  op_Error :: string

datatype EscalationAlertType =
  CircularInheritance | ConcurrentModification | RapidEscalation | TimingAttack
| SuspiciousPattern | CrossTenantEscalation

datatype AlertSeverity = SeverityLow | SeverityMedium | SeverityHigh | SeverityCritical

datatype evidence =
  AttemptedParent string | AttemptedRole string | RoleChain "string list" | RoleCounts nat nat string

record EscalationAlert =
  al_Type :: EscalationAlertType
  al_Severity :: AlertSeverity
  al_SubjectID :: string
  al_RoleID :: string
  al_TenantID :: string
  al_DetectedAt :: instant
  al_Evidence :: evidence
  al_Blocked :: bool

text \<open>
  The manager's state: the in-memory store, the durable tables, and what the escalation
  prevention keeps. An operation runs as a whole and reads the clock, in nanoseconds, once;
  the stores get it in seconds. \<open>maxOperationsPerSecond\<close>, \<open>operationTimeWindow\<close> and
  \<open>maxConcurrentOps\<close> are only ever set by the constructor.
\<close>

record Manager =
  m_store :: Store
  m_tables :: Tables
  m_operationLog :: "OperationRecord list"
  m_recentOperations :: "(string \<times> instant list) list"
  m_escalationAlerts :: "EscalationAlert list"

definition NewManager :: "Tables \<Rightarrow> Manager" where
  "NewManager t = \<lparr>m_store = NewStore, m_tables = t, m_operationLog = [], m_recentOperations = [],
     m_escalationAlerts = []\<rparr>"

definition second :: duration where "second = 1000000000"
definition minute :: duration where "minute = 60 * second"
definition maxOperationsPerSecond :: nat where "maxOperationsPerSecond = 5"
definition operationTimeWindow :: duration where "operationTimeWindow = 10 * second"
definition maxConcurrentOps :: nat where "maxConcurrentOps = 3"

definition unix :: "instant \<Rightarrow> int" where "unix now = now div second"

definition recordOperation :: "OperationRecord \<Rightarrow> Manager \<Rightarrow> Manager" where
  "recordOperation op m =
     (let l = m_operationLog m @ [op]
      in m\<lparr>m_operationLog := (if length l > 10000 then drop 1000 l else l)\<rparr>)"

definition generateAlert ::
    "EscalationAlertType \<Rightarrow> AlertSeverity \<Rightarrow> string \<Rightarrow> string \<Rightarrow> string \<Rightarrow> instant \<Rightarrow> evidence \<Rightarrow> bool
     \<Rightarrow> Manager \<Rightarrow> Manager" where
  "generateAlert ty sev subject role tenant now ev blocked m =
     (let l = m_escalationAlerts m @ [\<lparr>al_Type = ty, al_Severity = sev, al_SubjectID = subject,
            al_RoleID = role, al_TenantID = tenant, al_DetectedAt = now, al_Evidence = ev,
            al_Blocked = blocked\<rparr>]
      in m\<lparr>m_escalationAlerts := (if length l > 1000 then drop 100 l else l)\<rparr>)"

section \<open>Checks on the role hierarchy\<close>

definition roleExists :: "string \<Rightarrow> Store \<Rightarrow> bool \<times> rbac_error option" where
  "roleExists roleID s =
     (case GetRole roleID s of
        Inl e \<Rightarrow> if Error e = ''role '' @ roleID @ '' not found'' then (False, None) else (False, Some e)
      | Inr _ \<Rightarrow> (True, None))"

function checkAncestorsForRole :: "Store \<Rightarrow> string \<Rightarrow> string \<Rightarrow> string set \<Rightarrow> rbac_error option" where
  "checkAncestorsForRole s startRoleID targetRoleID visited =
     (if startRoleID \<in> visited then None
      else if startRoleID = targetRoleID then Some (CircularAncestor targetRoleID startRoleID)
      else case GetRole startRoleID s of
             Inl e \<Rightarrow> Some e
           | Inr r \<Rightarrow>
               if role_ParentRoleId r \<noteq> []
               then checkAncestorsForRole s (role_ParentRoleId r) targetRoleID (insert startRoleID visited)
               else None)"
  by auto
termination
  by (relation "measure (\<lambda>(s, k, target, visited). unvisited s visited)") (auto intro: unvisited_decreases)

declare checkAncestorsForRole.simps [simp del]

definition checkForCircularDependency :: "string \<Rightarrow> string \<Rightarrow> Store \<Rightarrow> rbac_error option" where
  "checkForCircularDependency childRoleID parentRoleID s =
     checkAncestorsForRole s parentRoleID childRoleID {}"

definition ValidateHierarchyOperation :: "string \<Rightarrow> string \<Rightarrow> Store \<Rightarrow> rbac_error option" where
  "ValidateHierarchyOperation childRoleID parentRoleID s =
     (if childRoleID = parentRoleID then Some (Errorf ''role cannot be its own parent'')
      else if parentRoleID \<noteq> [] then
        (case GetRole parentRoleID s of
           Inl e \<Rightarrow> Some (Wrapped (''failed to get role '' @ parentRoleID) e)
         | Inr _ \<Rightarrow>
             if fst (roleExists childRoleID s) then
               (case checkForCircularDependency childRoleID parentRoleID s of
                  Some e \<Rightarrow> Some e
                | None \<Rightarrow> ValidateHierarchy childRoleID s)
             else None)
      else None)"

function calculateRoleChainLengthRecursive :: "Store \<Rightarrow> string \<Rightarrow> string set \<Rightarrow> nat" where
  "calculateRoleChainLengthRecursive s roleID visited =
     (if roleID \<in> visited then 0
      else case GetRole roleID s of
             Inl _ \<Rightarrow> 1
           | Inr r \<Rightarrow>
               if role_ParentRoleId r = [] then 1
               else 1 + calculateRoleChainLengthRecursive s (role_ParentRoleId r) (insert roleID visited))"
  by auto
termination
  by (relation "measure (\<lambda>(s, k, visited). unvisited s visited)") (auto intro: unvisited_decreases)

declare calculateRoleChainLengthRecursive.simps [simp del]

definition calculateRoleChainLength :: "string \<Rightarrow> Store \<Rightarrow> nat" where
  "calculateRoleChainLength roleID s = calculateRoleChainLengthRecursive s roleID {}"

text \<open>The loop of \<open>getRoleChain\<close>.\<close>

function role_chain_loop :: "Store \<Rightarrow> string \<Rightarrow> string set \<Rightarrow> string list \<Rightarrow> string list" where
  "role_chain_loop s current visited chain =
     (if current = [] \<or> current \<in> visited then chain
      else case GetRole current s of
             Inl _ \<Rightarrow> chain @ [current]
           | Inr r \<Rightarrow> role_chain_loop s (role_ParentRoleId r) (insert current visited) (chain @ [current]))"
  by auto
termination
  by (relation "measure (\<lambda>(s, k, visited, chain). unvisited s visited)") (auto intro: unvisited_decreases)

declare role_chain_loop.simps [simp del]

definition getRoleChain :: "string \<Rightarrow> Store \<Rightarrow> string list" where
  "getRoleChain roleID s = role_chain_loop s roleID {} []"

section \<open>Escalation prevention\<close>

definition checkConcurrentModificationProtection ::
    "instant \<Rightarrow> string \<Rightarrow> string \<Rightarrow> Manager \<Rightarrow> rbac_error option" where
  "checkConcurrentModificationProtection now subjectID roleID m =
     (let key = subjectID @ '':'' @ roleID
      in case map_of (m_recentOperations m) key of
           None \<Rightarrow> None
         | Some operations \<Rightarrow>
             (let recentCount = length (filter (\<lambda>t. t > now - 2 * second) operations)
              in if recentCount > maxConcurrentOps
                 then Some (Errorf (''too many concurrent operations detected for '' @ key @ '' (count: '' @
                        Itoa (int recentCount) @ '')''))
                 else None))"

definition checkTimingBasedProtection ::
    "instant \<Rightarrow> string \<Rightarrow> Manager \<Rightarrow> rbac_error option \<times> Manager" where
  "checkTimingBasedProtection now subjectID m =
     (let recorded = (case map_of (m_recentOperations m) subjectID of None \<Rightarrow> [] | Some ts \<Rightarrow> ts);
          validOperations = filter (\<lambda>t. t > now - operationTimeWindow) recorded
      in if length validOperations \<ge> maxOperationsPerSecond
         then (Some (Errorf (''operation rate limit exceeded for subject '' @ subjectID @ '' (operations: '' @
                 Itoa (int (length validOperations)) @ '' in 10s)'')), m)
         else (None, m\<lparr>m_recentOperations :=
                 put subjectID (validOperations @ [now]) (m_recentOperations m)\<rparr>))"

definition countRecentChainModifications :: "instant \<Rightarrow> string \<Rightarrow> Manager \<Rightarrow> nat" where
  "countRecentChainModifications now roleID m =
     length (filter (\<lambda>op. op_Type op = OpRoleParentSet \<and>
         (op_RoleID op = roleID \<or> op_ParentRoleID op = roleID) \<and> op_Timestamp op > now - 5 * minute)
       (m_operationLog m))"

definition enhancedCircularDependencyCheck ::
    "instant \<Rightarrow> string \<Rightarrow> string \<Rightarrow> Manager \<Rightarrow> rbac_error option" where
  "enhancedCircularDependencyCheck now roleID parentRoleID m =
     (case ValidateHierarchyOperation roleID parentRoleID (m_store m) of
        Some e \<Rightarrow> Some e
      | None \<Rightarrow>
          (let chainLength = calculateRoleChainLength parentRoleID (m_store m)
           in if chainLength > 10 then
                Some (Errorf (''role hierarchy chain too long ('' @ Itoa (int chainLength) @
                  '' levels) - potential circular dependency or complexity attack''))
              else
                (let recent = countRecentChainModifications now parentRoleID m
                 in if recent > 5 then
                      Some (Errorf (''too many recent modifications to role chain involving '' @
                        parentRoleID @ '' ('' @ Itoa (int recent) @ '' modifications)''))
                    else None)))"

definition detectSuspiciousHierarchyPattern :: "instant \<Rightarrow> string \<Rightarrow> string \<Rightarrow> Manager \<Rightarrow> bool" where
  "detectSuspiciousHierarchyPattern now roleID parentRoleID m \<longleftrightarrow>
     countRecentChainModifications now roleID m + countRecentChainModifications now parentRoleID m > 3"

definition detectEscalationPatterns ::
    "instant \<Rightarrow> string \<Rightarrow> string \<Rightarrow> string \<Rightarrow> Manager \<Rightarrow> Manager" where
  "detectEscalationPatterns now subjectID roleID parentRoleID m =
     (if detectSuspiciousHierarchyPattern now roleID parentRoleID m
      then generateAlert SuspiciousPattern SeverityMedium subjectID roleID [] now
             (RoleChain (getRoleChain roleID (m_store m))) False m
      else m)"

definition failed :: "rbac_error \<Rightarrow> OperationRecord \<Rightarrow> OperationRecord" where
  "failed e op = op\<lparr>op_Success := False, op_Error := Error e\<rparr>"

definition ValidateAndSetRoleParent ::
    "instant \<Rightarrow> string \<Rightarrow> string \<Rightarrow> RoleInheritanceType \<Rightarrow> string \<Rightarrow> Manager
     \<Rightarrow> rbac_error option \<times> Manager" where
  "ValidateAndSetRoleParent now roleID parentRoleID inheritanceType subjectID m =
     (let op = \<lparr>op_ID = ''set-parent-'' @ Itoa now, op_Type = OpRoleParentSet, op_SubjectID = subjectID,
            op_RoleID = roleID, op_ParentRoleID = parentRoleID, op_TenantID = [], op_Timestamp = now,
            op_Success = False, op_Error = []\<rparr>
      in case checkConcurrentModificationProtection now subjectID roleID m of
           Some e \<Rightarrow>
             (Some (Wrapped ''concurrent modification protection'' e),
              generateAlert ConcurrentModification SeverityHigh subjectID roleID [] now
                (AttemptedParent parentRoleID) True (recordOperation (failed e op) m))
         | None \<Rightarrow>
         (case checkTimingBasedProtection now subjectID m of
           (Some e, m1) \<Rightarrow>
             (Some (Wrapped ''timing-based protection'' e),
              generateAlert TimingAttack SeverityCritical subjectID roleID [] now
                (AttemptedParent parentRoleID) True (recordOperation (failed e op) m1))
         | (None, m1) \<Rightarrow>
         (case enhancedCircularDependencyCheck now roleID parentRoleID m1 of
           Some e \<Rightarrow>
             (Some (Wrapped ''circular inheritance prevention'' e),
              generateAlert CircularInheritance SeverityCritical subjectID roleID [] now
                (RoleChain (getRoleChain roleID (m_store m1))) True (recordOperation (failed e op) m1))
         | None \<Rightarrow>
         (case ValidateHierarchyOperation roleID parentRoleID (m_store m1) of
           Some e \<Rightarrow> (Some (Wrapped ''hierarchy validation failed'' e), recordOperation (failed e op) m1)
         | None \<Rightarrow>
         (case SetRoleParent (unix now) roleID parentRoleID inheritanceType (m_store m1) of
           Inl e \<Rightarrow> (Some e, recordOperation (failed e op) m1)
         | Inr s \<Rightarrow>
             (None, detectEscalationPatterns now subjectID roleID parentRoleID
                (recordOperation (op\<lparr>op_Success := True\<rparr>) (m1\<lparr>m_store := s\<rparr>))))))))"

definition countRecentRoleAssignments :: "instant \<Rightarrow> string \<Rightarrow> Manager \<Rightarrow> nat" where
  "countRecentRoleAssignments now subjectID m =
     length (filter (\<lambda>op. op_Type op = OpRoleAssignment \<and> op_SubjectID op = subjectID \<and>
         op_Timestamp op > now - 2 * minute \<and> op_Success op) (m_operationLog m))"

definition highPrivKeywords :: "string list" where
  "highPrivKeywords = [''admin'', ''super'', ''root'', ''system'', ''manager'', ''owner'']"

definition isHighPrivilegeRole :: "string \<Rightarrow> Store \<Rightarrow> bool" where
  "isHighPrivilegeRole roleID s =
     (case GetRole roleID s of
        Inl _ \<Rightarrow> False
      | Inr r \<Rightarrow> list_ex (\<lambda>k. Contains (ToLower (role_Name r)) (ToLower k) \<or>
          Contains (ToLower (role_Id r)) (ToLower k)) highPrivKeywords)"

definition countRecentHighPrivilegeAssignments :: "instant \<Rightarrow> string \<Rightarrow> Manager \<Rightarrow> nat" where
  "countRecentHighPrivilegeAssignments now subjectID m =
     length (filter (\<lambda>op. op_Type op = OpRoleAssignment \<and> op_SubjectID op = subjectID \<and>
         op_Timestamp op > now - 5 * minute \<and> op_Success op \<and>
         isHighPrivilegeRole (op_RoleID op) (m_store m)) (m_operationLog m))"

definition checkRapidEscalationProtection ::
    "instant \<Rightarrow> string \<Rightarrow> string \<Rightarrow> Manager \<Rightarrow> rbac_error option" where
  "checkRapidEscalationProtection now subjectID roleID m =
     (let recent = countRecentRoleAssignments now subjectID m
      in if recent > 3 then
           Some (Errorf (''rapid role assignment detected for subject '' @ subjectID @ '' ('' @
             Itoa (int recent) @ '' assignments)''))
         else if isHighPrivilegeRole roleID (m_store m) \<and> countRecentHighPrivilegeAssignments now subjectID m > 1
         then Some (Errorf (''rapid high-privilege role assignment detected for subject '' @ subjectID))
         else None)"

text \<open>The tenants of a subject's recent operations; the order of the list only shows in a message.\<close>

definition getRecentSubjectTenants :: "instant \<Rightarrow> string \<Rightarrow> Manager \<Rightarrow> string list" where
  "getRecentSubjectTenants now subjectID m =
     remdups (map op_TenantID (filter (\<lambda>op. op_SubjectID op = subjectID \<and>
       op_Timestamp op > now - 10 * minute \<and> op_TenantID op \<noteq> []) (m_operationLog m)))"

definition checkCrossTenantEscalationProtection ::
    "instant \<Rightarrow> string \<Rightarrow> string \<Rightarrow> Manager \<Rightarrow> rbac_error option" where
  "checkCrossTenantEscalationProtection now subjectID tenantID m =
     (let recentTenants = getRecentSubjectTenants now subjectID m
      in if length recentTenants > 1 then
           Some (Errorf (''cross-tenant activity detected for subject '' @ subjectID @
             '' across tenants: ['' @ join (CHR '' '') recentTenants @ '']''))
         else case GetSubject subjectID (m_store m) of
           Inl e \<Rightarrow> Some (Wrapped ''failed to validate subject tenant'' e)
         | Inr u \<Rightarrow>
             if subj_TenantId u \<noteq> tenantID then
               Some (Errorf (''cross-tenant escalation attempt: subject '' @ subjectID @ '' (tenant '' @
                 subj_TenantId u @ '') accessing tenant '' @ tenantID))
             else None)"

text \<open>\<open>getPreviousSubjectRoles\<close> returns an empty list whatever the log holds.\<close>

definition detectPrivilegeEscalation ::
    "instant \<Rightarrow> string \<Rightarrow> string \<Rightarrow> string \<Rightarrow> Manager \<Rightarrow> Manager" where
  "detectPrivilegeEscalation now subjectID roleID tenantID m =
     (case GetSubjectRoles subjectID tenantID (m_store m) of
        Inl _ \<Rightarrow> m
      | Inr currentRoles \<Rightarrow>
          if length currentRoles > 0 + 1
          then generateAlert RapidEscalation SeverityMedium subjectID roleID tenantID now
                 (RoleCounts 0 (length currentRoles) roleID) False m
          else m)"

text \<open>What the environment decides of a call: whether the durable write fails, the id drawn, the map order.\<close>

record env =
  e_fault :: "rbac_error option"
  e_uuid :: string
  e_rng :: assignment_order

definition ValidateAndAssignRole ::
    "env \<Rightarrow> instant \<Rightarrow> RoleAssignment \<Rightarrow> Manager \<Rightarrow> rbac_error option \<times> Manager" where
  "ValidateAndAssignRole env now a m =
     (let op = \<lparr>op_ID = ''assign-role-'' @ Itoa now, op_Type = OpRoleAssignment,
            op_SubjectID = asg_SubjectId a, op_RoleID = asg_RoleId a, op_ParentRoleID = [],
            op_TenantID = asg_TenantId a, op_Timestamp = now, op_Success = False, op_Error = []\<rparr>
      in case checkRapidEscalationProtection now (asg_SubjectId a) (asg_RoleId a) m of
           Some e \<Rightarrow>
             (Some (Wrapped ''rapid escalation protection'' e),
              generateAlert RapidEscalation SeverityHigh (asg_SubjectId a) (asg_RoleId a) (asg_TenantId a) now
                (AttemptedRole (asg_RoleId a)) True (recordOperation (failed e op) m))
         | None \<Rightarrow>
         (case checkCrossTenantEscalationProtection now (asg_SubjectId a) (asg_TenantId a) m of
           Some e \<Rightarrow>
             (Some (Wrapped ''cross-tenant escalation protection'' e),
              generateAlert CrossTenantEscalation SeverityCritical (asg_SubjectId a) (asg_RoleId a)
                (asg_TenantId a) now (AttemptedRole (asg_RoleId a)) True (recordOperation (failed e op) m))
         | None \<Rightarrow>
         (case AssignRole (e_uuid env) (unix now) a (m_store m) of
           Inl e \<Rightarrow> (Some (Wrapped ''failed to store role assignment in memory'' e), m)
         | Inr (a', s) \<Rightarrow>
         (case StoreRoleAssignment (e_fault env) now a' (m_tables m) of
           Inl e \<Rightarrow>
             (Some (Wrapped ''failed to persist role assignment'' e),
              m\<lparr>m_store := (case RevokeRole (e_rng env) (unix now) (asg_SubjectId a') (asg_RoleId a')
                    (asg_TenantId a') s of Inr s' \<Rightarrow> s' | Inl _ \<Rightarrow> s)\<rparr>)
         | Inr t \<Rightarrow>
             (None, detectPrivilegeEscalation now (asg_SubjectId a) (asg_RoleId a) (asg_TenantId a)
                (recordOperation (op\<lparr>op_Success := True\<rparr>) (m\<lparr>m_store := s, m_tables := t\<rparr>)))))))"

section \<open>The manager's operations\<close>

text \<open>
  Each writes to the in-memory store first, then through to the durable one. \<open>gated\<close> is the
  justification gate in front of an operation.
\<close>

definition gated ::
    "string \<Rightarrow> string \<Rightarrow> (Manager \<Rightarrow> rbac_error option \<times> Manager) \<Rightarrow> Manager \<Rightarrow> rbac_error option \<times> Manager" where
  "gated operation justification f m =
     (case ValidateSensitiveOperation operation justification of Some e \<Rightarrow> (Some e, m) | None \<Rightarrow> f m)"

text \<open>\<open>undo\<close> is what is done to the in-memory store when the durable write fails.\<close>

definition write_through ::
    "rbac_error + Store \<Rightarrow> (Tables \<Rightarrow> rbac_error + Tables) \<Rightarrow> string \<Rightarrow> (Store \<Rightarrow> Store) \<Rightarrow> Manager
     \<Rightarrow> rbac_error option \<times> Manager" where
  "write_through mem durable msg undo m =
     (case mem of
        Inl e \<Rightarrow> (Some e, m)
      | Inr s \<Rightarrow>
          (case durable (m_tables m) of
             Inl e \<Rightarrow> (Some (Wrapped msg e), m\<lparr>m_store := undo s\<rparr>)
           | Inr t \<Rightarrow> (None, m\<lparr>m_store := s, m_tables := t\<rparr>)))"

definition rolled_back :: "(Store \<Rightarrow> rbac_error + Store) \<Rightarrow> Store \<Rightarrow> Store" where
  "rolled_back delete s = (case delete s of Inr s' \<Rightarrow> s' | Inl _ \<Rightarrow> s)"

definition Manager_CreatePermission ::
    "env \<Rightarrow> string \<Rightarrow> Permission \<Rightarrow> Manager \<Rightarrow> rbac_error option \<times> Manager" where
  "Manager_CreatePermission env justification p =
     gated ''create_permission'' justification (\<lambda>m.
       write_through (CreatePermission p (m_store m)) (StorePermission (e_fault env) p)
         ''failed to persist permission'' (rolled_back (DeletePermission (perm_Id p))) m)"

definition Manager_UpdatePermission :: "env \<Rightarrow> Permission \<Rightarrow> Manager \<Rightarrow> rbac_error option \<times> Manager" where
  "Manager_UpdatePermission env p m =
     write_through (UpdatePermission p (m_store m)) (db_UpdatePermission (e_fault env) p)
       ''failed to persist permission update'' (\<lambda>s. s) m"

definition Manager_DeletePermission ::
    "env \<Rightarrow> string \<Rightarrow> string \<Rightarrow> Manager \<Rightarrow> rbac_error option \<times> Manager" where
  "Manager_DeletePermission env justification i =
     gated ''delete_permission'' justification (\<lambda>m.
       write_through (DeletePermission i (m_store m)) (db_DeletePermission (e_fault env) i)
         ''failed to persist permission deletion'' (\<lambda>s. s) m)"

text \<open>The parent named by a new role must exist and belong to the same tenant.\<close>

definition check_new_parent :: "Role \<Rightarrow> Store \<Rightarrow> rbac_error option" where
  "check_new_parent r s =
     (if role_ParentRoleId r = [] then None
      else case GetRole (role_ParentRoleId r) s of
        Inl e \<Rightarrow> Some (Wrapped (''parent role '' @ role_ParentRoleId r @ '' not found'') e)
      | Inr parent \<Rightarrow>
          if role_TenantId parent \<noteq> role_TenantId r then
            Some (Errorf (''cross-tenant role inheritance not allowed: parent tenant='' @
              role_TenantId parent @ '', child tenant='' @ role_TenantId r @
              '' (security finding M-TENANT-2)''))
          else None)"

definition Manager_CreateRole ::
    "env \<Rightarrow> instant \<Rightarrow> string \<Rightarrow> Role \<Rightarrow> Manager \<Rightarrow> rbac_error option \<times> Manager" where
  "Manager_CreateRole env now justification r =
     gated ''create_role'' justification (\<lambda>m.
       case check_new_parent r (m_store m) of
         Some e \<Rightarrow> (Some e, m)
       | None \<Rightarrow>
           write_through (CreateRole (unix now) r (m_store m))
             (StoreRole (e_fault env) now (r\<lparr>role_CreatedAt := unix now, role_UpdatedAt := unix now\<rparr>))
             ''failed to persist role'' (rolled_back (DeleteRole (role_Id r))) m)"

text \<open>The store completes the record it is given, and the completed one is persisted.\<close>

definition Manager_UpdateRole ::
    "env \<Rightarrow> instant \<Rightarrow> string \<Rightarrow> Role \<Rightarrow> Manager \<Rightarrow> rbac_error option \<times> Manager" where
  "Manager_UpdateRole env now justification r =
     gated ''modify_role'' justification (\<lambda>m.
       write_through (UpdateRole (unix now) r (m_store m))
         (db_UpdateRole (e_fault env) now
            (case UpdateRole (unix now) r (m_store m) of
               Inr s \<Rightarrow> (case map_of (s_roles s) (role_Id r) of Some stored \<Rightarrow> stored | None \<Rightarrow> r)
             | Inl _ \<Rightarrow> r))
         ''failed to persist role update'' (\<lambda>s. s) m)"

definition Manager_DeleteRole ::
    "env \<Rightarrow> string \<Rightarrow> string \<Rightarrow> Manager \<Rightarrow> rbac_error option \<times> Manager" where
  "Manager_DeleteRole env justification i =
     gated ''delete_role'' justification (\<lambda>m.
       write_through (DeleteRole i (m_store m)) (db_DeleteRole (e_fault env) i)
         ''failed to persist role deletion'' (\<lambda>s. s) m)"

definition Manager_CreateSubject ::
    "env \<Rightarrow> instant \<Rightarrow> Subject \<Rightarrow> Manager \<Rightarrow> rbac_error option \<times> Manager" where
  "Manager_CreateSubject env now u m =
     write_through (CreateSubject (unix now) u (m_store m))
       (StoreSubject (e_fault env) now (u\<lparr>subj_CreatedAt := unix now, subj_UpdatedAt := unix now\<rparr>))
       ''failed to persist subject'' (rolled_back (DeleteSubject (subj_Id u))) m"

text \<open>Updating and deleting a subject only reach the in-memory store.\<close>

definition in_memory :: "(Store \<Rightarrow> rbac_error + Store) \<Rightarrow> Manager \<Rightarrow> rbac_error option \<times> Manager" where
  "in_memory f m = (case f (m_store m) of Inl e \<Rightarrow> (Some e, m) | Inr s \<Rightarrow> (None, m\<lparr>m_store := s\<rparr>))"

definition Manager_UpdateSubject :: "instant \<Rightarrow> Subject \<Rightarrow> Manager \<Rightarrow> rbac_error option \<times> Manager" where
  "Manager_UpdateSubject now u = in_memory (UpdateSubject (unix now) u)"

definition Manager_DeleteSubject :: "string \<Rightarrow> Manager \<Rightarrow> rbac_error option \<times> Manager" where
  "Manager_DeleteSubject i = in_memory (DeleteSubject i)"

definition Manager_AssignRole ::
    "env \<Rightarrow> instant \<Rightarrow> string \<Rightarrow> RoleAssignment \<Rightarrow> Manager \<Rightarrow> rbac_error option \<times> Manager" where
  "Manager_AssignRole env now justification a =
     gated ''assign_role'' justification (ValidateAndAssignRole env now a)"

definition Manager_RevokeRole ::
    "env \<Rightarrow> instant \<Rightarrow> string \<Rightarrow> string \<Rightarrow> string \<Rightarrow> string \<Rightarrow> Manager \<Rightarrow> rbac_error option \<times> Manager" where
  "Manager_RevokeRole env now justification subjectID roleID tenantID =
     gated ''revoke_role'' justification (\<lambda>m.
       write_through (RevokeRole (e_rng env) (unix now) subjectID roleID tenantID (m_store m))
         (DeleteRoleAssignment (e_fault env) subjectID roleID tenantID)
         ''failed to persist role revocation'' (\<lambda>s. s) m)"

definition Manager_SetRoleParent ::
    "instant \<Rightarrow> string \<Rightarrow> string \<Rightarrow> RoleInheritanceType \<Rightarrow> Manager \<Rightarrow> rbac_error option \<times> Manager" where
  "Manager_SetRoleParent now roleID parentRoleID inheritanceType m =
     ValidateAndSetRoleParent now roleID parentRoleID inheritanceType ''system'' m"

definition Manager_RemoveRoleParent :: "instant \<Rightarrow> string \<Rightarrow> Manager \<Rightarrow> rbac_error option \<times> Manager" where
  "Manager_RemoveRoleParent now roleID = in_memory (RemoveRoleParent (unix now) roleID)"

definition CreateRoleWithParent ::
    "env \<Rightarrow> instant \<Rightarrow> string \<Rightarrow> Role \<Rightarrow> string \<Rightarrow> RoleInheritanceType \<Rightarrow> Manager
     \<Rightarrow> rbac_error option \<times> Manager" where
  "CreateRoleWithParent env now justification r parentRoleID inheritanceType m =
     (case (if parentRoleID \<noteq> [] then ValidateHierarchyOperation (role_Id r) parentRoleID (m_store m) else None) of
        Some e \<Rightarrow> (Some (Wrapped ''invalid hierarchy operation'' e), m)
      | None \<Rightarrow>
          (case Manager_CreateRole env now justification
                  (r\<lparr>role_ParentRoleId := parentRoleID, role_InheritanceType := inheritanceType\<rparr>) m of
             (Some e, m1) \<Rightarrow> (Some e, m1)
           | (None, m1) \<Rightarrow>
               if parentRoleID \<noteq> []
               then in_memory (SetRoleParent (unix now) (role_Id r) parentRoleID inheritanceType) m1
               else (None, m1)))"

text \<open>Removing what belongs to a tenant: each deletion on its own, failures only logged.\<close>

fun delete_each :: "('x \<Rightarrow> Manager \<Rightarrow> rbac_error option \<times> Manager) \<Rightarrow> 'x list \<Rightarrow> Manager \<Rightarrow> Manager" where
  "delete_each f [] m = m"
| "delete_each f (x # xs) m = delete_each f xs (snd (f x m))"

definition DeleteSubjectsByTenant ::
    "((string \<times> Subject) list \<Rightarrow> (string \<times> Subject) list) \<Rightarrow> string \<Rightarrow> Manager \<Rightarrow> rbac_error option \<times> Manager" where
  "DeleteSubjectsByTenant rng tenantID m =
     (if tenantID = [] then (Some (Errorf ''tenantID must not be empty''), m)
      else (None, delete_each Manager_DeleteSubject
              (map subj_Id (ListSubjects rng tenantID SUBJECT_UNSPECIFIED (m_store m))) m))"

definition DeleteRolesByTenant ::
    "env \<Rightarrow> ((string \<times> Role) list \<Rightarrow> (string \<times> Role) list) \<Rightarrow> string \<Rightarrow> Manager \<Rightarrow> rbac_error option \<times> Manager" where
  "DeleteRolesByTenant env rng tenantID m =
     (if tenantID = [] then (Some (Errorf ''tenantID must not be empty''), m)
      else (None, delete_each
              (Manager_DeleteRole env ''tenant deletion cascade: removing all roles scoped to deleted tenant'')
              (map role_Id (filter (\<lambda>r. \<not> (role_IsSystemRole r \<or> role_TenantId r \<noteq> tenantID))
                 (ListRoles rng tenantID (m_store m)))) m))"

definition assignment_for :: "string \<Rightarrow> string \<Rightarrow> string \<Rightarrow> RoleAssignment" where
  "assignment_for subjectID roleID tenantID =
     \<lparr>asg_Id = [], asg_SubjectId = subjectID, asg_RoleId = roleID, asg_TenantId = tenantID,
      asg_Conditions = [], asg_ExpiresAt = 0, asg_AssignedAt = 0, asg_AssignedBy = []\<rparr>"

definition CreateStewardSubject ::
    "env \<Rightarrow> instant \<Rightarrow> string \<Rightarrow> string \<Rightarrow> Manager \<Rightarrow> rbac_error option \<times> Manager" where
  "CreateStewardSubject env now stewardID tenantID m =
     (case Manager_CreateSubject env now
             \<lparr>subj_Id = stewardID, subj_Type = SUBJECT_STEWARD, subj_DisplayName = ''Steward '' @ stewardID,
              subj_TenantId = tenantID, subj_RoleIds = [], subj_Attributes = [(''steward_id'', stewardID)],
              subj_IsActive = True, subj_CreatedAt = 0, subj_UpdatedAt = 0\<rparr> m of
        (Some e, m1) \<Rightarrow> (Some e, m1)
      | (None, m1) \<Rightarrow>
          Manager_AssignRole env now
            ''system: steward service account automated role assignment during registration''
            (assignment_for stewardID ''steward.service'' tenantID) m1)"

text \<open>The environment decides anew for each assignment: \<open>envs\<close> has one entry per role.\<close>

fun assign_all ::
    "instant \<Rightarrow> string \<Rightarrow> string \<Rightarrow> (env \<times> string) list \<Rightarrow> Manager \<Rightarrow> rbac_error option \<times> Manager" where
  "assign_all now subjectID tenantID [] m = (None, m)"
| "assign_all now subjectID tenantID ((env, roleID) # rest) m =
     (case Manager_AssignRole env now
             ''system: service account automated role assignment during subject creation''
             (assignment_for subjectID roleID tenantID) m of
        (Some e, m1) \<Rightarrow> (Some e, m1)
      | (None, m1) \<Rightarrow> assign_all now subjectID tenantID rest m1)"

definition CreateServiceSubject ::
    "env \<Rightarrow> env list \<Rightarrow> instant \<Rightarrow> string \<Rightarrow> string \<Rightarrow> string \<Rightarrow> string list \<Rightarrow> Manager
     \<Rightarrow> rbac_error option \<times> Manager" where
  "CreateServiceSubject env envs now serviceID serviceName tenantID roleIDs m =
     (case Manager_CreateSubject env now
             \<lparr>subj_Id = serviceID, subj_Type = SUBJECT_SERVICE, subj_DisplayName = serviceName,
              subj_TenantId = tenantID, subj_RoleIds = roleIDs, subj_Attributes = [(''service_name'', serviceName)],
              subj_IsActive = True, subj_CreatedAt = 0, subj_UpdatedAt = 0\<rparr> m of
        (Some e, m1) \<Rightarrow> (Some e, m1)
      | (None, m1) \<Rightarrow> assign_all now serviceID tenantID (zip envs roleIDs) m1)"

section \<open>Starting up\<close>

text \<open>
  \<open>loadFromPersistentStorage\<close>: subjects and assignments that the in-memory store refuses are
  skipped. \<open>faults\<close> tells which of the statements fail; the ids of stored assignments are not
  empty, so none is drawn.
\<close>

definition load_subjects :: "int \<Rightarrow> Subject list \<Rightarrow> Store \<Rightarrow> Store" where
  "load_subjects now = fold (\<lambda>u s. case CreateSubject now u s of Inr s' \<Rightarrow> s' | Inl _ \<Rightarrow> s)"

definition load_assignments :: "string \<Rightarrow> int \<Rightarrow> RoleAssignment list \<Rightarrow> Store \<Rightarrow> Store" where
  "load_assignments uuid now = fold (\<lambda>a s. case AssignRole uuid now a s of Inr (_, s') \<Rightarrow> s' | Inl _ \<Rightarrow> s)"

record orders =
  o_permissions :: "(string \<times> Permission) list \<Rightarrow> (string \<times> Permission) list"
  o_roles :: "(string \<times> Role) list \<Rightarrow> (string \<times> Role) list"
  o_subjects :: "(string \<times> Subject) list \<Rightarrow> (string \<times> Subject) list"
  o_assignments :: assignment_order

definition loadFromPersistentStorage ::
    "(nat \<Rightarrow> rbac_error option) \<Rightarrow> orders \<Rightarrow> string \<Rightarrow> instant \<Rightarrow> Manager \<Rightarrow> rbac_error option \<times> Manager" where
  "loadFromPersistentStorage faults ord uuid now m =
     (case db_ListPermissions (faults 0) (o_permissions ord) [] (m_tables m) of
        Inl e \<Rightarrow> (Some (Wrapped ''failed to load permissions'' e), m)
      | Inr permissions \<Rightarrow>
     (let s1 = LoadPermissions permissions (m_store m)
      in case db_ListRoles (faults 1) (o_roles ord) [] (m_tables m) of
        Inl e \<Rightarrow> (Some (Wrapped ''failed to load roles'' e), m\<lparr>m_store := s1\<rparr>)
      | Inr roles \<Rightarrow>
     (let s2 = LoadRoles (unix now) roles s1
      in case db_ListSubjects (faults 2) (o_subjects ord) [] SUBJECT_UNSPECIFIED (m_tables m) of
        Inl e \<Rightarrow> (Some (Wrapped ''failed to load subjects'' e), m\<lparr>m_store := s2\<rparr>)
      | Inr subjects \<Rightarrow>
     (let s3 = load_subjects (unix now) subjects s2
      in case db_ListRoleAssignments (faults 3) (o_assignments ord) [] [] [] (m_tables m) of
        Inl e \<Rightarrow> (Some (Wrapped ''failed to load role assignments'' e), m\<lparr>m_store := s3\<rparr>)
      | Inr assignments \<Rightarrow> (None, m\<lparr>m_store := load_assignments uuid (unix now) assignments s3\<rparr>)))))"

definition loadDefaultPermissions :: "rbac_error option \<Rightarrow> Manager \<Rightarrow> rbac_error option \<times> Manager" where
  "loadDefaultPermissions fault m =
     (let s = LoadPermissions DefaultPermissions (m_store m)
      in case StoreBulkPermissions fault DefaultPermissions (m_tables m) of
           Inl e \<Rightarrow> (Some (Wrapped ''failed to persist default permissions'' e), m\<lparr>m_store := s\<rparr>)
         | Inr t \<Rightarrow> (None, m\<lparr>m_store := s, m_tables := t\<rparr>))"

definition loadDefaultRoles :: "rbac_error option \<Rightarrow> instant \<Rightarrow> Manager \<Rightarrow> rbac_error option \<times> Manager" where
  "loadDefaultRoles fault now m =
     (let s = LoadRoles (unix now) GetSystemRoles (m_store m)
      in case StoreBulkRoles fault now GetSystemRoles (m_tables m) of
           Inl e \<Rightarrow> (Some (Wrapped ''failed to persist default roles'' e), m\<lparr>m_store := s\<rparr>)
         | Inr t \<Rightarrow> (None, m\<lparr>m_store := s, m_tables := t\<rparr>))"

text \<open>\<open>SQLiteRBACStore.Initialize\<close> does nothing; the templates are not part of the model.\<close>

definition Manager_Initialize ::
    "(nat \<Rightarrow> rbac_error option) \<Rightarrow> orders \<Rightarrow> string \<Rightarrow> instant \<Rightarrow> Manager \<Rightarrow> rbac_error option \<times> Manager" where
  "Manager_Initialize faults ord uuid now m =
     (case loadFromPersistentStorage faults ord uuid now (m\<lparr>m_store := Initialize (m_store m)\<rparr>) of
        (Some e, m1) \<Rightarrow> (Some (Wrapped ''failed to load data from persistent storage'' e), m1)
      | (None, m1) \<Rightarrow>
          (case loadDefaultPermissions (faults 4) m1 of
             (Some e, m2) \<Rightarrow> (Some (Wrapped ''failed to load default permissions'' e), m2)
           | (None, m2) \<Rightarrow>
               (case loadDefaultRoles (faults 5) now m2 of
                  (Some e, m3) \<Rightarrow> (Some (Wrapped ''failed to load default roles'' e), m3)
                | (None, m3) \<Rightarrow> (None, m3))))"

definition CreateTenantDefaultRoles ::
    "rbac_error option \<Rightarrow> instant \<Rightarrow> string \<Rightarrow> Manager \<Rightarrow> rbac_error option \<times> Manager" where
  "CreateTenantDefaultRoles fault now tenantID m =
     (let tenantRoles = map (\<lambda>template. CreateTenantRole template tenantID) GetTenantRoleTemplates;
          s = LoadRoles (unix now) tenantRoles (m_store m)
      in case StoreBulkRoles fault now tenantRoles (m_tables m) of
           Inl e \<Rightarrow> (Some (Wrapped (''failed to persist tenant default roles for '' @ tenantID) e), m\<lparr>m_store := s\<rparr>)
         | Inr t \<Rightarrow> (None, m\<lparr>m_store := s, m_tables := t\<rparr>))"

end
