(* ===== verification/Rbac_Laws.thy ===== *)
theory Rbac_Laws
  imports Rbac_Manager
begin

text \<open>
  What the manager of access control guarantees: the invariant of both stores over every run
  of its operations, the role hierarchy staying free of cycles, and the bound on the changes
  made to it.
\<close>

section \<open>The hierarchy stays free of cycles\<close>

text \<open>The walk up from the parent meets every ancestor, or closes a cycle without the child.\<close>

definition walked :: "Store \<Rightarrow> string \<Rightarrow> string \<Rightarrow> string set \<Rightarrow> bool" where
  "walked s start target visited \<longleftrightarrow>
     (\<forall>v \<in> visited. v \<noteq> target \<and> (\<forall>q. role_up s v = Some q \<longrightarrow> q \<in> insert start visited))"

lemma walked_closed:
  assumes "walked s start target visited" "start \<in> visited" "(start, x) \<in> (links s)\<^sup>*"
  shows "x \<in> visited"
  using assms(3)
proof (induction rule: rtrancl_induct)
  case (step y z)
  then show ?case using assms(1,2) by (auto simp: walked_def)
qed (rule assms(2))

lemma checkAncestors_excludes:
  "checkAncestorsForRole s start target visited = None \<Longrightarrow> walked s start target visited \<Longrightarrow>
     (start, target) \<notin> (links s)\<^sup>*"
proof (induction s start target visited rule: checkAncestorsForRole.induct)
  case (1 s start target visited)
  show ?case
  proof (cases "start \<in> visited")
    case True
    then show ?thesis using walked_closed [OF 1(3) True] 1(3) by (auto simp: walked_def)
  next
    case new: False
    then have neq: "start \<noteq> target" using 1(2) by (auto simp: checkAncestorsForRole.simps)
    with new obtain r where r: "GetRole start s = Inr r"
      using 1(2) by (cases "GetRole start s") (auto simp: checkAncestorsForRole.simps [of s start])
    show ?thesis
    proof (cases "role_ParentRoleId r = []")
      case True
      then show ?thesis using neq r by (simp add: links_from_top GetRole_up)
    next
      case up: False
      then have link: "role_up s start = Some (role_ParentRoleId r)" using r by (simp add: GetRole_up)
      have "checkAncestorsForRole s (role_ParentRoleId r) target (insert start visited) = None"
        using 1(2) new neq r up by (simp add: checkAncestorsForRole.simps [of s start])
      moreover have "walked s (role_ParentRoleId r) target (insert start visited)"
        using 1(3) neq link by (auto simp: walked_def)
      ultimately have "(role_ParentRoleId r, target) \<notin> (links s)\<^sup>*"
        using 1(1) new neq r up by blast
      then show ?thesis using neq link by (simp add: rtrancl_eq_or_trancl [of start] links_step)
    qed
  qed
qed

lemma SetRoleParent_up:
  assumes "SetRoleParent now k p ty s = Inr s'"
  shows "role_up s' = (role_up s)(k := if p = [] then None else Some p)"
proof -
  have keep: "role_ParentRoleId (remove_child now c r) = role_ParentRoleId r"
    "role_ParentRoleId (adopt_child now c r) = role_ParentRoleId r" for c r
    by (simp_all add: remove_child_def adopt_child_def)
  obtain r where r: "map_of (s_roles s) k = Some r"
    using assms by (auto simp: SetRoleParent_def split: option.splits)
  show ?thesis
  proof
    fix x
    show "role_up s' x = ((role_up s)(k := if p = [] then None else Some p)) x"
      using assms r
      by (cases "map_of (s_roles s) x")
        (auto simp: SetRoleParent_def role_up_def Let_def map_of_update_entry keep split: if_splits option.splits)
  qed
qed

lemma ValidateHierarchyOperation_safe:
  assumes "ValidateHierarchyOperation k p s = None" and "p \<noteq> []" and "map_of (s_roles s) k \<noteq> None"
  shows "(p, k) \<notin> (links s)\<^sup>*" and "rooted s k"
proof -
  have "fst (roleExists k s)" using assms(3) by (auto simp: roleExists_def GetRole_def)
  then have c: "checkForCircularDependency k p s = None" "ValidateHierarchy k s = None"
    using assms(1,2) by (auto simp: ValidateHierarchyOperation_def split: if_splits sum.splits option.splits)
  show "(p, k) \<notin> (links s)\<^sup>*"
    by (rule checkAncestors_excludes [of s p k "{}"])
      (use c(1) in \<open>simp_all add: checkForCircularDependency_def walked_def\<close>)
  have "walk_result s k {} (ValidateHierarchy k s)"
    unfolding ValidateHierarchy_def by (rule detectCycles_walk) simp
  then show "rooted s k" using c(2) by (auto simp: walk_result_def rooted_def)
qed

lemma acyclic_relink:
  assumes "acyclic (links s)" and "role_up s' = (role_up s)(k := if p = [] then None else Some p)"
    and "p \<noteq> [] \<Longrightarrow> (p, k) \<notin> (links s)\<^sup>*"
  shows "acyclic (links s')"
proof (cases "p = []")
  case True
  then have "links s' \<subseteq> links s" using assms(2) by (auto simp: links_def split: if_splits)
  then show ?thesis using assms(1) by (rule acyclic_subset [rotated])
next
  case False
  then have "links s' \<subseteq> insert (k, p) (links s)" using assms(2) by (auto simp: links_def split: if_splits)
  moreover have "acyclic (insert (k, p) (links s))" using assms(1,3) False by (simp add: acyclic_insert)
  ultimately show ?thesis by (rule acyclic_subset [rotated])
qed

lemma store_unchanged [simp]:
  "m_store (recordOperation op m) = m_store m" "m_tables (recordOperation op m) = m_tables m"
  "m_recentOperations (recordOperation op m) = m_recentOperations m"
  "m_store (generateAlert ty sev a b c now ev bl m) = m_store m"
  "m_tables (generateAlert ty sev a b c now ev bl m) = m_tables m"
  "m_recentOperations (generateAlert ty sev a b c now ev bl m) = m_recentOperations m"
  "m_store (detectEscalationPatterns now a b c m) = m_store m"
  "m_tables (detectEscalationPatterns now a b c m) = m_tables m"
  "m_recentOperations (detectEscalationPatterns now a b c m) = m_recentOperations m"
  "m_store (detectPrivilegeEscalation now a b c m) = m_store m"
  "m_tables (detectPrivilegeEscalation now a b c m) = m_tables m"
  "m_recentOperations (detectPrivilegeEscalation now a b c m) = m_recentOperations m"
  "m_store (snd (checkTimingBasedProtection now a m)) = m_store m"
  "m_tables (snd (checkTimingBasedProtection now a m)) = m_tables m"
  by (simp_all add: recordOperation_def generateAlert_def detectEscalationPatterns_def
      detectPrivilegeEscalation_def checkTimingBasedProtection_def Let_def split: sum.splits)

text \<open>What a call that sets a parent does to the stores: nothing, or one checked change.\<close>

lemma ValidateAndSetRoleParent_stores:
  assumes "ValidateAndSetRoleParent now k p ty who m = (res, m')"
  shows "m_tables m' = m_tables m"
    and "res = None \<Longrightarrow> ValidateHierarchyOperation k p (m_store m) = None \<and>
      SetRoleParent (unix now) k p ty (m_store m) = Inr (m_store m')"
    and "res \<noteq> None \<Longrightarrow> m_store m' = m_store m"
proof -
  obtain t m1 where t: "checkTimingBasedProtection now who m = (t, m1)" by fastforce
  have m1: "m_store m1 = m_store m" "m_tables m1 = m_tables m"
    using store_unchanged(13,14) [of now who m] t by simp_all
  note d = assms [unfolded ValidateAndSetRoleParent_def Let_def t]
  show "m_tables m' = m_tables m" "res = None \<Longrightarrow> ValidateHierarchyOperation k p (m_store m) = None \<and>
      SetRoleParent (unix now) k p ty (m_store m) = Inr (m_store m')"
    "res \<noteq> None \<Longrightarrow> m_store m' = m_store m"
    using d m1 by (auto split: option.splits sum.splits)
qed

text \<open>C5: a successful change of a role's parent through the manager keeps a hierarchy without
  cycles free of them; afterwards the role's parent is the one asked for, and no other role's
  parent has changed.\<close>

theorem Manager_SetRoleParent_acyclic:
  assumes "acyclic (links (m_store m))" and "Manager_SetRoleParent now k p ty m = (None, m')"
  shows "acyclic (links (m_store m')) \<and>
    role_up (m_store m') = (role_up (m_store m))(k := if p = [] then None else Some p)"
proof -
  note v = ValidateAndSetRoleParent_stores(2) [OF assms(2) [unfolded Manager_SetRoleParent_def] refl]
  note up = SetRoleParent_up [OF v [THEN conjunct2]]
  have "map_of (s_roles (m_store m)) k \<noteq> None"
    using v by (auto simp: SetRoleParent_def split: option.splits)
  then have "acyclic (links (m_store m'))"
    by (intro acyclic_relink [OF assms(1) up] ValidateHierarchyOperation_safe(1) [OF v [THEN conjunct1]])
  with up show ?thesis by simp
qed

definition sample_manager :: Manager where
  "sample_manager = (NewManager empty_tables)\<lparr>m_store := sample_store\<rparr>"

theorem Manager_SetRoleParent_acyclic_witness:
  "\<exists>m'. Manager_SetRoleParent 7 ''manager'' ''viewer'' INHERITANCE_ADDITIVE sample_manager = (None, m') \<and>
     acyclic (links (m_store m')) \<and> role_up (m_store m') ''manager'' = Some ''viewer''"
proof -
  have "list_all (\<lambda>k. ValidateHierarchy k sample_store = None) (keys (s_roles sample_store))" by code_simp
  then have a: "acyclic (links (m_store sample_manager))" by (simp add: sample_manager_def acyclicI)
  have "fst (Manager_SetRoleParent 7 ''manager'' ''viewer'' INHERITANCE_ADDITIVE sample_manager) = None"
    by code_simp
  then obtain m' where "Manager_SetRoleParent 7 ''manager'' ''viewer'' INHERITANCE_ADDITIVE sample_manager = (None, m')"
    by (metis prod.collapse)
  then show ?thesis using Manager_SetRoleParent_acyclic [OF a] by auto
qed

text \<open>
  A way around the check: a role is deleted while another still names it as parent, and then
  created again below that other role.
\<close>

definition quiet :: env where
  "quiet = \<lparr>e_fault = None, e_uuid = ''id-1'', e_rng = (\<lambda>x. x)\<rparr>"

definition recreated :: "rbac_error option list \<times> Manager" where
  "recreated =
     (let why = ''a change agreed in the review meeting'';
          a = sample_role ''a'' [] ''c.read''; b = sample_role ''b'' [] ''c.read'';
          (r1, m1) = Manager_CreateRole quiet 1 why b (NewManager empty_tables);
          (r2, m2) = CreateRoleWithParent quiet 2 why a ''b'' INHERITANCE_ADDITIVE m1;
          (r3, m3) = Manager_DeleteRole quiet why ''b'' m2;
          (r4, m4) = CreateRoleWithParent quiet 3 why b ''a'' INHERITANCE_ADDITIVE m3
      in ([r1, r2, r3, r4], m4))"


section \<open>Runs of the manager\<close>

text \<open>A call of the manager with what its environment decides.\<close>

datatype (plugins only: code size) mgr_op =
    MCreatePermission env string Permission
  | MUpdatePermission env Permission
  | MDeletePermission env string string
  | MCreateRole env instant string Role
  | MUpdateRole env instant string Role
  | MDeleteRole env string string
  | MCreateSubject env instant Subject
  | MUpdateSubject instant Subject
  | MDeleteSubject string
  | MAssignRole env instant string RoleAssignment
  | MRevokeRole env instant string string string string
  | MSetRoleParent instant string string RoleInheritanceType
  | MRemoveRoleParent instant string
  | MCreateRoleWithParent env instant string Role string RoleInheritanceType

primrec run_op :: "mgr_op \<Rightarrow> Manager \<Rightarrow> rbac_error option \<times> Manager" where
  "run_op (MCreatePermission env j p) = Manager_CreatePermission env j p"
| "run_op (MUpdatePermission env p) = Manager_UpdatePermission env p"
| "run_op (MDeletePermission env j i) = Manager_DeletePermission env j i"
| "run_op (MCreateRole env now j r) = Manager_CreateRole env now j r"
| "run_op (MUpdateRole env now j r) = Manager_UpdateRole env now j r"
| "run_op (MDeleteRole env j i) = Manager_DeleteRole env j i"
| "run_op (MCreateSubject env now u) = Manager_CreateSubject env now u"
| "run_op (MUpdateSubject now u) = Manager_UpdateSubject now u"
| "run_op (MDeleteSubject i) = Manager_DeleteSubject i"
| "run_op (MAssignRole env now j a) = Manager_AssignRole env now j a"
| "run_op (MRevokeRole env now j who r tn) = Manager_RevokeRole env now j who r tn"
| "run_op (MSetRoleParent now k p ty) = Manager_SetRoleParent now k p ty"
| "run_op (MRemoveRoleParent now k) = Manager_RemoveRoleParent now k"
| "run_op (MCreateRoleWithParent env now j r p ty) = CreateRoleWithParent env now j r p ty"

definition mgr_ok :: "Manager \<Rightarrow> bool" where
  "mgr_ok m \<longleftrightarrow> store_ok (m_store m) \<and> tables_ok (m_tables m)"

text \<open>An id drawn for an assignment is not empty.\<close>

primrec op_ok :: "mgr_op \<Rightarrow> bool" where
  "op_ok (MCreatePermission env j p) \<longleftrightarrow> True"
| "op_ok (MUpdatePermission env p) \<longleftrightarrow> True"
| "op_ok (MDeletePermission env j i) \<longleftrightarrow> True"
| "op_ok (MCreateRole env now j r) \<longleftrightarrow> True"
| "op_ok (MUpdateRole env now j r) \<longleftrightarrow> True"
| "op_ok (MDeleteRole env j i) \<longleftrightarrow> True"
| "op_ok (MCreateSubject env now u) \<longleftrightarrow> True"
| "op_ok (MUpdateSubject now u) \<longleftrightarrow> True"
| "op_ok (MDeleteSubject i) \<longleftrightarrow> True"
| "op_ok (MAssignRole env now j a) \<longleftrightarrow> e_uuid env \<noteq> []"
| "op_ok (MRevokeRole env now j who r tn) \<longleftrightarrow> True"
| "op_ok (MSetRoleParent now k p ty) \<longleftrightarrow> True"
| "op_ok (MRemoveRoleParent now k) \<longleftrightarrow> True"
| "op_ok (MCreateRoleWithParent env now j r p ty) \<longleftrightarrow> True"

lemma gated_ok: "mgr_ok m \<Longrightarrow> (mgr_ok m \<Longrightarrow> mgr_ok (snd (f m))) \<Longrightarrow> mgr_ok (snd (gated op j f m))"
  by (simp add: gated_def split: option.split)

lemma write_through_ok:
  assumes "mgr_ok m" and "\<And>s. mem = Inr s \<Longrightarrow> store_ok s" and "\<And>s. store_ok s \<Longrightarrow> store_ok (undo s)"
    and "\<And>t. durable (m_tables m) = Inr t \<Longrightarrow> tables_ok t"
  shows "mgr_ok (snd (write_through mem durable msg undo m))"
  using assms by (auto simp: write_through_def mgr_ok_def split: sum.split)

lemma rolled_back_ok: "(\<And>s'. delete s = Inr s' \<Longrightarrow> store_ok s') \<Longrightarrow> store_ok s \<Longrightarrow> store_ok (rolled_back delete s)"
  by (auto simp: rolled_back_def split: sum.split)

lemma in_memory_ok: "mgr_ok m \<Longrightarrow> (\<And>s. f (m_store m) = Inr s \<Longrightarrow> store_ok s) \<Longrightarrow> mgr_ok (snd (in_memory f m))"
  by (auto simp: in_memory_def mgr_ok_def split: sum.split)

lemma mgr_okD: "mgr_ok m \<Longrightarrow> store_ok (m_store m)" "mgr_ok m \<Longrightarrow> tables_ok (m_tables m)"
  by (simp_all add: mgr_ok_def)

lemma Manager_CreateRole_ok: "mgr_ok m \<Longrightarrow> mgr_ok (snd (Manager_CreateRole env now j r m))"
  unfolding Manager_CreateRole_def
  by (rule gated_ok, assumption, cases "check_new_parent r (m_store m)")
    (auto intro!: write_through_ok rolled_back_ok intro: store_ops_ok tables_ops_ok dest: mgr_okD)

text \<open>The three ways an assignment can end.\<close>

lemma ValidateAndAssignRole_cases:
  assumes "ValidateAndAssignRole env now a m = (res, m')"
  obtains (refused) "res \<noteq> None" "\<And>e. res \<noteq> Some (Wrapped ''failed to persist role assignment'' e)"
      "m_store m' = m_store m" "m_tables m' = m_tables m"
  | (lost) a' s e where "AssignRole (e_uuid env) (unix now) a (m_store m) = Inr (a', s)"
      "StoreRoleAssignment (e_fault env) now a' (m_tables m) = Inl e"
      "res = Some (Wrapped ''failed to persist role assignment'' e)" "m_tables m' = m_tables m"
      "m_store m' = rolled_back (RevokeRole (e_rng env) (unix now) (asg_SubjectId a') (asg_RoleId a') (asg_TenantId a')) s"
  | (stored) a' s t where "AssignRole (e_uuid env) (unix now) a (m_store m) = Inr (a', s)"
      "StoreRoleAssignment (e_fault env) now a' (m_tables m) = Inr t"
      "res = None" "m_store m' = s" "m_tables m' = t"
proof -
  note d = assms [unfolded ValidateAndAssignRole_def Let_def]
  show ?thesis
  proof (cases "checkRapidEscalationProtection now (asg_SubjectId a) (asg_RoleId a) m")
    case (Some e)
    then show ?thesis using d by (intro refused) auto
  next
    case rapid: None
    show ?thesis
    proof (cases "checkCrossTenantEscalationProtection now (asg_SubjectId a) (asg_TenantId a) m")
      case (Some e)
      then show ?thesis using d rapid by (intro refused) auto
    next
      case cross: None
      show ?thesis
      proof (cases "AssignRole (e_uuid env) (unix now) a (m_store m)")
        case (Inl e)
        then show ?thesis using d rapid cross by (intro refused) auto
      next
        case (Inr x)
        then obtain a' s where s: "AssignRole (e_uuid env) (unix now) a (m_store m) = Inr (a', s)" by (cases x) auto
        show ?thesis
        proof (cases "StoreRoleAssignment (e_fault env) now a' (m_tables m)")
          case (Inl e)
          then show ?thesis using d rapid cross s by (intro lost) (auto simp: rolled_back_def split: sum.split)
        next
          case (Inr t)
          then show ?thesis using d rapid cross s by (intro stored) auto
        qed
      qed
    qed
  qed
qed

lemma AssignRole_Id: "uuid \<noteq> [] \<Longrightarrow> AssignRole uuid now a s = Inr (a', s') \<Longrightarrow> asg_Id a' \<noteq> []"
  by (auto simp: AssignRole_def Let_def split: if_splits)

lemma Manager_AssignRole_ok:
  assumes ok: "mgr_ok m" and uuid: "e_uuid env \<noteq> []"
  shows "mgr_ok (snd (Manager_AssignRole env now j a m))"
  unfolding Manager_AssignRole_def
proof (rule gated_ok, rule ok)
  obtain res m' where r: "ValidateAndAssignRole env now a m = (res, m')" by fastforce
  then have "mgr_ok m'"
  proof (cases rule: ValidateAndAssignRole_cases)
    case refused
    with ok show ?thesis by (simp add: mgr_ok_def)
  next
    case (lost a' s e)
    have "store_ok s" by (rule store_ops_ok(10) [OF mgr_okD(1) [OF ok] uuid lost(1)])
    then show ?thesis using lost ok by (auto simp: mgr_ok_def intro: rolled_back_ok store_ops_ok)
  next
    case (stored a' s t)
    have "store_ok s" by (rule store_ops_ok(10) [OF mgr_okD(1) [OF ok] uuid stored(1)])
    moreover have "tables_ok t"
      by (rule tables_ops_ok(7) [OF mgr_okD(2) [OF ok] AssignRole_Id [OF uuid stored(1)] stored(2)])
    ultimately show ?thesis using stored by (simp add: mgr_ok_def)
  qed
  then show "mgr_ok (snd (ValidateAndAssignRole env now a m))" by (simp add: r)
qed

lemma Manager_SetRoleParent_ok: "mgr_ok m \<Longrightarrow> mgr_ok (snd (Manager_SetRoleParent now k p ty m))"
proof -
  assume ok: "mgr_ok m"
  obtain res m' where r: "Manager_SetRoleParent now k p ty m = (res, m')" by fastforce
  note v = ValidateAndSetRoleParent_stores [OF r [unfolded Manager_SetRoleParent_def]]
  show ?thesis using v ok store_ops_ok(12) [OF mgr_okD(1) [OF ok]]
    by (cases res) (auto simp: r mgr_ok_def)
qed

lemma CreateRoleWithParent_ok: "mgr_ok m \<Longrightarrow> mgr_ok (snd (CreateRoleWithParent env now j r p ty m))"
proof -
  assume ok: "mgr_ok m"
  define r' where "r' = r\<lparr>role_ParentRoleId := p, role_InheritanceType := ty\<rparr>"
  obtain res m' where c: "Manager_CreateRole env now j r' m = (res, m')" by fastforce
  have ok': "mgr_ok m'" using Manager_CreateRole_ok [OF ok, of env now j r'] c by simp
  have "mgr_ok (snd (in_memory (SetRoleParent (unix now) (role_Id r) p ty) m'))"
    by (rule in_memory_ok [OF ok']) (rule store_ops_ok(12) [OF mgr_okD(1) [OF ok']])
  then show ?thesis using ok ok' c
    by (auto simp: CreateRoleWithParent_def r'_def split: option.split)
qed

text \<open>The operations keep the invariant of both stores.\<close>

interpretation rbac_ops: op_machine "\<lambda>m op. snd (run_op op m)" mgr_ok op_ok
proof
  fix m op
  assume ok: "mgr_ok m" and op: "op_ok op"
  note st = store_ops_ok [OF mgr_okD(1) [OF ok]] and tb = tables_ops_ok [OF mgr_okD(2) [OF ok]]
  show "mgr_ok (snd (run_op op m))"
  proof (cases op)
    case (MCreatePermission env j p)
    then show ?thesis using ok st(1) tb(1)
      by (auto simp: Manager_CreatePermission_def intro!: gated_ok write_through_ok rolled_back_ok
          intro: store_ops_ok)
  next
    case (MUpdatePermission env p)
    then show ?thesis using ok st(2) tb(1)
      by (auto simp: Manager_UpdatePermission_def db_UpdatePermission_def intro!: write_through_ok)
  next
    case (MDeletePermission env j i)
    then show ?thesis using ok st(3) tb(2)
      by (auto simp: Manager_DeletePermission_def intro!: gated_ok write_through_ok)
  next
    case (MUpdateRole env now j r)
    then show ?thesis using ok st(5) tb(3)
      by (auto simp: Manager_UpdateRole_def db_UpdateRole_def intro!: gated_ok write_through_ok)
  next
    case (MDeleteRole env j i)
    then show ?thesis using ok st(6) tb(4)
      by (auto simp: Manager_DeleteRole_def intro!: gated_ok write_through_ok)
  next
    case (MCreateSubject env now u)
    then show ?thesis using ok st(7) tb(5)
      by (auto simp: Manager_CreateSubject_def intro!: write_through_ok rolled_back_ok intro: store_ops_ok)
  next
    case (MUpdateSubject now u)
    then show ?thesis using ok st(8) by (auto simp: Manager_UpdateSubject_def intro!: in_memory_ok)
  next
    case (MDeleteSubject i)
    then show ?thesis using ok st(9) by (auto simp: Manager_DeleteSubject_def intro!: in_memory_ok)
  next
    case (MRevokeRole env now j who r tn)
    then show ?thesis using ok st(11) tb(8)
      by (auto simp: Manager_RevokeRole_def intro!: gated_ok write_through_ok)
  next
    case (MRemoveRoleParent now k)
    then show ?thesis using ok st(13) by (auto simp: Manager_RemoveRoleParent_def intro!: in_memory_ok)
  qed (use ok op in \<open>simp_all add: Manager_CreateRole_ok Manager_AssignRole_ok Manager_SetRoleParent_ok
      CreateRoleWithParent_ok\<close>)
qed

section \<open>The rate of changes to the hierarchy\<close>

text \<open>
  The times of the calls that ask for a parent, and of those that succeed. The manager makes
  them all as the subject \<open>system\<close>, so they share one budget.
\<close>

fun parent_times :: "mgr_op list \<Rightarrow> instant list" where
  "parent_times [] = []"
| "parent_times (MSetRoleParent now k p ty # ops) = now # parent_times ops"
| "parent_times (_ # ops) = parent_times ops"

fun parent_changes :: "mgr_op list \<Rightarrow> Manager \<Rightarrow> instant list" where
  "parent_changes [] m = []"
| "parent_changes (MSetRoleParent now k p ty # ops) m =
     (case Manager_SetRoleParent now k p ty m of
        (None, m') \<Rightarrow> now # parent_changes ops m'
      | (Some _, m') \<Rightarrow> parent_changes ops m')"
| "parent_changes (op # ops) m = parent_changes ops (snd (run_op op m))"

definition recent :: "Manager \<Rightarrow> instant list" where
  "recent m = (case map_of (m_recentOperations m) ''system'' of None \<Rightarrow> [] | Some ts \<Rightarrow> ts)"

definition count_after :: "instant \<Rightarrow> instant list \<Rightarrow> nat" where
  "count_after t xs = length (filter (\<lambda>x. x > t) xs)"

lemma count_after_simps [simp]:
  "count_after t [] = 0" "count_after t (xs @ ys) = count_after t xs + count_after t ys"
  "count_after t (x # xs) = (if x > t then 1 else 0) + count_after t xs"
  by (simp_all add: count_after_def)

lemma count_after_mono: "t \<le> u \<Longrightarrow> count_after u xs \<le> count_after t xs"
  unfolding count_after_def by (rule length_filter_mono) auto

lemma count_after_filter: "t \<le> u \<Longrightarrow> count_after u (filter (\<lambda>x. x > t) xs) = count_after u xs"
  unfolding count_after_def filter_filter by (rule arg_cong [of _ _ length], rule filter_cong) auto

lemma SetRoleParent_recent:
  assumes "Manager_SetRoleParent now k p ty m = (res, m')"
  shows "(recent m' = recent m \<and> res \<noteq> None) \<or>
    (recent m' = filter (\<lambda>x. x > now - operationTimeWindow) (recent m) @ [now] \<and>
     count_after (now - operationTimeWindow) (recent m) < maxOperationsPerSecond)"
proof -
  obtain t m1 where t: "checkTimingBasedProtection now ''system'' m = (t, m1)" by fastforce
  note d = assms [unfolded Manager_SetRoleParent_def ValidateAndSetRoleParent_def Let_def t]
  have cases: "(recent m1 = recent m \<and> t \<noteq> None) \<or>
    (t = None \<and> recent m1 = filter (\<lambda>x. x > now - operationTimeWindow) (recent m) @ [now] \<and>
     count_after (now - operationTimeWindow) (recent m) < maxOperationsPerSecond)"
    using t by (auto simp: checkTimingBasedProtection_def recent_def count_after_def Let_def split: if_splits)
  have "recent m' = recent m \<and> res \<noteq> None \<or> recent m' = recent m1 \<and> (t \<noteq> None \<longrightarrow> res \<noteq> None)"
    using d by (auto simp: recent_def split: option.splits sum.splits)
  with cases show ?thesis by auto
qed

lemma write_through_recent [simp]:
  "m_recentOperations (snd (write_through mem durable msg undo m)) = m_recentOperations m"
  "m_recentOperations (snd (in_memory f m)) = m_recentOperations m"
  by (auto simp: write_through_def in_memory_def split: sum.split)

lemma gated_recent:
  "m_recentOperations (snd (f m)) = m_recentOperations m \<Longrightarrow>
     m_recentOperations (snd (gated op j f m)) = m_recentOperations m"
  by (simp add: gated_def split: option.split)

lemma AssignRole_recent:
  "m_recentOperations (snd (ValidateAndAssignRole env now a m)) = m_recentOperations m"
  by (auto simp: ValidateAndAssignRole_def Let_def split: option.split sum.split)

lemma CreateRole_recent: "m_recentOperations (snd (Manager_CreateRole env now j r m)) = m_recentOperations m"
  unfolding Manager_CreateRole_def by (rule gated_recent) (simp split: option.split)

lemma CreateRoleWithParent_recent:
  "m_recentOperations (snd (CreateRoleWithParent env now j r p ty m)) = m_recentOperations m"
  using CreateRole_recent [of env now j "r\<lparr>role_ParentRoleId := p, role_InheritanceType := ty\<rparr>" m]
  by (auto simp: CreateRoleWithParent_def split: option.split prod.split)

lemma other_op_recent:
  "(\<And>now k p ty. op \<noteq> MSetRoleParent now k p ty) \<Longrightarrow> recent (snd (run_op op m)) = recent m"
  by (cases op)
    (auto simp: recent_def Manager_CreatePermission_def Manager_UpdatePermission_def
      Manager_DeletePermission_def CreateRole_recent Manager_UpdateRole_def Manager_DeleteRole_def
      Manager_CreateSubject_def Manager_UpdateSubject_def Manager_DeleteSubject_def
      Manager_AssignRole_def Manager_RevokeRole_def Manager_RemoveRoleParent_def
      CreateRoleWithParent_recent gated_recent AssignRole_recent)

definition bounded :: "instant list \<Rightarrow> bool" where
  "bounded xs \<longleftrightarrow> (\<forall>t. length (filter (\<lambda>x. t - operationTimeWindow < x \<and> x \<le> t) xs) \<le> maxOperationsPerSecond)"

text \<open>The remembered times cover the changes made, for every window that is still open.\<close>

definition covers :: "instant \<Rightarrow> instant list \<Rightarrow> instant list \<Rightarrow> bool" where
  "covers now ts xs \<longleftrightarrow> (\<forall>x \<in> set xs. x \<le> now) \<and>
     (\<forall>t \<ge> now. count_after (t - operationTimeWindow) xs \<le> count_after (t - operationTimeWindow) ts)"

lemma covers_later: "covers now ts xs \<Longrightarrow> now \<le> later \<Longrightarrow> covers later ts xs"
  by (auto simp: covers_def)

lemma covers_remember:
  assumes "covers now ts xs"
  shows "covers now (filter (\<lambda>x. x > now - operationTimeWindow) ts @ [now]) (xs @ [now])"
    and "covers now (filter (\<lambda>x. x > now - operationTimeWindow) ts @ [now]) xs"
  using assms by (auto simp: covers_def count_after_filter intro: le_SucI)

lemma bounded_add:
  assumes c: "covers now ts xs" and b: "bounded xs"
    and "count_after (now - operationTimeWindow) ts < maxOperationsPerSecond"
  shows "bounded (xs @ [now])"
  unfolding bounded_def
proof
  fix t
  show "length (filter (\<lambda>x. t - operationTimeWindow < x \<and> x \<le> t) (xs @ [now])) \<le> maxOperationsPerSecond"
  proof (cases "now \<le> t")
    case False
    then show ?thesis using b by (auto simp: bounded_def)
  next
    case True
    then have "filter (\<lambda>x. t - operationTimeWindow < x \<and> x \<le> t) xs = filter (\<lambda>x. x > t - operationTimeWindow) xs"
      using c by (intro filter_cong) (auto simp: covers_def)
    then have "length (filter (\<lambda>x. t - operationTimeWindow < x \<and> x \<le> t) xs) \<le> count_after (t - operationTimeWindow) ts"
      using c True by (simp add: covers_def count_after_def)
    also have "\<dots> \<le> count_after (now - operationTimeWindow) ts" using True by (intro count_after_mono) simp
    finally show ?thesis using assms(3) by simp
  qed
qed

lemma changes_bounded:
  "sorted (now # parent_times ops) \<Longrightarrow> covers now (recent m) xs \<Longrightarrow> bounded xs \<Longrightarrow>
     bounded (xs @ parent_changes ops m)"
proof (induction ops m arbitrary: now xs rule: parent_changes.induct)
  case (2 later k p ty ops m)
  have c: "covers later (recent m) xs" and s: "sorted (later # parent_times ops)"
    using 2(3,4) by (auto intro: covers_later)
  obtain res m' where r: "Manager_SetRoleParent later k p ty m = (res, m')" by fastforce
  show ?case
  proof (cases "recent m' = recent m \<and> res \<noteq> None")
    case True
    then show ?thesis using 2(2) [OF r [symmetric] _ s] c 2(5) r by auto
  next
    case False
    then have rec: "recent m' = filter (\<lambda>x. x > later - operationTimeWindow) (recent m) @ [later]"
      "count_after (later - operationTimeWindow) (recent m) < maxOperationsPerSecond"
      using SetRoleParent_recent [OF r] by auto
    show ?thesis
    proof (cases res)
      case None
      have "bounded ((xs @ [later]) @ parent_changes ops m')"
        by (rule 2(1) [OF r [symmetric] None s])
          (simp_all add: rec(1) covers_remember(1) [OF c] bounded_add [OF c 2(5) rec(2)])
      then show ?thesis using r None by simp
    next
      case (Some e)
      then show ?thesis using 2(2) [OF r [symmetric] Some s] covers_remember(2) [OF c] 2(5) r rec(1) by auto
    qed
  qed
qed (auto simp: other_op_recent simp del: run_op.simps)

text \<open>C15: whatever calls of the manager run, if those that set a role's parent come in the order
  of their times then at most five of them succeed in any ten seconds.\<close>

theorem parent_changes_bounded:
  assumes "sorted (parent_times ops)"
  shows "length (filter (\<lambda>x. t - 10 * second < x \<and> x \<le> t) (parent_changes ops (NewManager tables))) \<le> 5"
proof (cases "parent_times ops")
  case Nil
  have "covers 0 (recent (NewManager tables)) []" "bounded []" by (simp_all add: covers_def bounded_def)
  then have "bounded ([] @ parent_changes ops (NewManager tables))"
    by (intro changes_bounded [of 0]) (simp_all add: Nil)
  then show ?thesis by (simp add: bounded_def operationTimeWindow_def maxOperationsPerSecond_def)
next
  case (Cons now rest)
  have "covers now (recent (NewManager tables)) []" "bounded []" by (simp_all add: covers_def bounded_def)
  then have "bounded ([] @ parent_changes ops (NewManager tables))"
    using assms by (intro changes_bounded [of now]) (auto simp: Cons)
  then show ?thesis by (simp add: bounded_def operationTimeWindow_def maxOperationsPerSecond_def)
qed

theorem parent_changes_bounded_witness:
  "length (filter (\<lambda>x. 9 - 10 * second < x \<and> x \<le> 9)
     (parent_changes (replicate 7 (MSetRoleParent 9 ''a'' ''b'' INHERITANCE_ADDITIVE)) (NewManager empty_tables))) \<le> 5"
  by (rule parent_changes_bounded) (simp add: eval_nat_numeral)

end
