(* ===== verification/Rbac_Restart.thy ===== *)
theory Rbac_Restart
  imports Rbac_Laws
begin

text \<open>
  The manager of access control and its durable store: what an assignment whose write fails
  leaves behind, which grants a restart recovers, and what a freshly registered steward may do.
\<close>

section \<open>What a failed write leaves behind\<close>

text \<open>C32: a role assignment whose durable write fails leaves the subject without any access through
  that role, even when an earlier assignment of the same role gave it access before.\<close>

theorem failed_assignment_revokes:
  assumes "store_ok (m_store m)" and "map_order (e_rng env)" and "e_uuid env \<noteq> []"
    and "ValidateAndAssignRole env now a m = (Some (Wrapped ''failed to persist role assignment'' e), m')"
  shows "\<not> grants_via (m_store m') later (asg_SubjectId a) tenant permission (asg_RoleId a)"
  using assms(4)
proof (cases rule: ValidateAndAssignRole_cases)
  case (lost a' s e')
  have ok: "store_ok s" by (rule store_ops_ok(10) [OF assms(1,3) lost(1)])
  have a': "asg_SubjectId a' = asg_SubjectId a" "asg_RoleId a' = asg_RoleId a" "asg_TenantId a' = asg_TenantId a"
    "map_of (s_assignments s) (asg_Id a') = Some a'"
    using lost(1) by (auto simp: AssignRole_def Let_def split: if_splits)
  obtain s' where "RevokeRole (e_rng env) (unix now) (asg_SubjectId a') (asg_RoleId a') (asg_TenantId a') s = Inr s'"
    using RevokeRole_finds [OF ok assms(2) a'(4)] by (auto simp: matching_assignment_def)
  then show ?thesis using lost(5) RevokeRole_grants [OF ok assms(2)] a' by (simp add: rolled_back_def)
qed auto

definition disk_full :: env where
  "disk_full = quiet\<lparr>e_fault := Some (Errorf ''disk full'')\<rparr>"

theorem failed_assignment_revokes_witness:
  "\<exists>m'. ValidateAndAssignRole disk_full 9 (sample_assignment [] ''operator'') sample_manager =
       (Some (Wrapped ''failed to persist role assignment''
          (Wrapped ''sqlite rbac store role assignment'' (Errorf ''disk full''))), m') \<and>
     grants_via (m_store sample_manager) 5 ''alice'' ''acme'' ''c.write'' ''operator'' \<and>
     \<not> grants_via (m_store m') 5 ''alice'' ''acme'' ''c.write'' ''operator''"
proof -
  have "fst (ValidateAndAssignRole disk_full 9 (sample_assignment [] ''operator'') sample_manager) =
      Some (Wrapped ''failed to persist role assignment''
        (Wrapped ''sqlite rbac store role assignment'' (Errorf ''disk full'')))" by code_simp
  then obtain m' where m': "ValidateAndAssignRole disk_full 9 (sample_assignment [] ''operator'') sample_manager =
      (Some (Wrapped ''failed to persist role assignment''
        (Wrapped ''sqlite rbac store role assignment'' (Errorf ''disk full''))), m')" by (metis prod.collapse)
  have "\<not> grants_via (m_store m') 5 (asg_SubjectId (sample_assignment [] ''operator'')) ''acme'' ''c.write''
      (asg_RoleId (sample_assignment [] ''operator''))"
    by (rule failed_assignment_revokes [OF _ _ _ m'])
      (simp_all add: sample_manager_def sample_store_ok disk_full_def quiet_def)
  then show ?thesis using m' sample_grant by (simp add: sample_manager_def sample_assignment_def)
qed

section \<open>What a restart recovers\<close>

text \<open>What the tables say about a grant; the list of role ids kept with a subject is not consulted.\<close>

definition tables_grant :: "Tables \<Rightarrow> int \<Rightarrow> string \<Rightarrow> string \<Rightarrow> string \<Rightarrow> string \<Rightarrow> bool" where
  "tables_grant t now subject tenant permission roleID \<longleftrightarrow>
     (\<exists>u r i a j p. map_of (t_subjects t) subject = Some u \<and> subj_IsActive u \<and>
        map_of (t_roles t) roleID = Some r \<and> (role_IsSystemRole r \<or> role_TenantId r = tenant) \<and>
        map_of (t_assignments t) i = Some a \<and> matching_assignment subject roleID tenant a \<and>
        valid_assignment now a \<and>
        j \<in> set (role_PermissionIds r) \<and> map_of (t_permissions t) j = Some p \<and> permissionMatches p permission)"

lemma map_order_map_of:
  assumes "map_order rng" "distinct (keys m)"
  shows "map_of (rng m) = map_of m"
proof
  fix k
  have d: "distinct (keys (rng m))"
    using assms by (metis map_orderD(1) mset_eq_imp_distinct_iff mset_map)
  have "map_of (rng m) k = Some v \<longleftrightarrow> map_of m k = Some v" for v
    using map_orderD(2) [OF assms(1)] d assms(2) by (simp add: map_of_eq_Some_iff)
  then show "map_of (rng m) k = map_of m k" by (metis option.exhaust)
qed

lemma map_of_foldl_ident:
  "distinct (map ident vs) \<Longrightarrow>
     map_of (foldl (\<lambda>m v. put (ident v) (f v) m) m0 vs) k =
       (case map_of (map (\<lambda>v. (ident v, v)) vs) k of Some v \<Rightarrow> Some (f v) | None \<Rightarrow> map_of m0 k)"
  by (induction vs arbitrary: m0) (auto split: option.splits dest!: map_of_SomeD)

lemma listed_idents:
  assumes "filed ident m" "map_order rng"
  shows "distinct (map ident (map snd (rng m)))" "map_of (map (\<lambda>v. (ident v, v)) (map snd (rng m))) = map_of m"
    "set (map snd (rng m)) = ran (map_of m)"
proof -
  have id: "ident (snd x) = fst x" if "x \<in> set (rng m)" for x
    using that assms map_orderD(2) [OF assms(2), of m] by (auto simp: filed_def list_all_iff)
  have dk: "distinct (keys m)" using assms(1) by (simp add: filed_def)
  have "map ident (map snd (rng m)) = keys (rng m)" by (simp add: id)
  then show "distinct (map ident (map snd (rng m)))"
    using dk assms(2) by (metis map_orderD(1) mset_eq_imp_distinct_iff mset_map)
  have "map (\<lambda>v. (ident v, v)) (map snd (rng m)) = rng m" by (simp add: id cong: map_cong)
  then show "map_of (map (\<lambda>v. (ident v, v)) (map snd (rng m))) = map_of m"
    using map_order_map_of [OF assms(2) dk] by simp
  have "set (rng m) = set m" by (rule map_orderD(2) [OF assms(2)])
  then show "set (map snd (rng m)) = ran (map_of m)"
    using ran_distinct [OF dk] by simp
qed

text \<open>Loading permissions, roles and subjects into an empty store.\<close>

lemma LoadPermissions_map_of:
  assumes "filed perm_Id m" "map_order rng" "s_permissions s = []"
  shows "map_of (s_permissions (LoadPermissions (map snd (rng m)) s)) = map_of m"
proof
  fix k
  show "map_of (s_permissions (LoadPermissions (map snd (rng m)) s)) k = map_of m k"
    using map_of_foldl_ident [OF listed_idents(1) [OF assms(1,2)], of "\<lambda>p. p" "[]" k]
    by (simp add: LoadPermissions_def assms(3) listed_idents(2) [OF assms(1,2), simplified] split: option.split_asm)
qed

definition same_grants :: "Role \<Rightarrow> Role \<Rightarrow> bool" where
  "same_grants r q \<longleftrightarrow> role_IsSystemRole r = role_IsSystemRole q \<and> role_TenantId r = role_TenantId q \<and>
     role_PermissionIds r = role_PermissionIds q"

lemma same_grants_trans:
  "rel_option same_grants a b \<Longrightarrow> rel_option same_grants b c \<Longrightarrow> rel_option same_grants a c"
  by (cases a; cases b; cases c) (simp_all add: same_grants_def)

lemma link_children_same:
  "rel_option same_grants (map_of (foldl (\<lambda>m r. if role_ParentRoleId r \<noteq> []
      then update_entry (role_ParentRoleId r) (add_child (role_Id r)) m else m) m rs) k) (map_of m k)"
proof (induction rs arbitrary: m)
  case Nil
  then show ?case by (simp add: option.rel_refl same_grants_def)
next
  case (Cons r rs)
  let ?m = "if role_ParentRoleId r \<noteq> [] then update_entry (role_ParentRoleId r) (add_child (role_Id r)) m else m"
  have "rel_option same_grants (map_of ?m k) (map_of m k)"
    by (cases "map_of m k") (auto simp: map_of_update_entry add_child_def same_grants_def)
  with Cons [of ?m] have "rel_option same_grants (map_of (foldl (\<lambda>m r. if role_ParentRoleId r \<noteq> []
      then update_entry (role_ParentRoleId r) (add_child (role_Id r)) m else m) ?m rs) k) (map_of m k)"
    by (rule same_grants_trans)
  then show ?case by simp
qed

lemma LoadRoles_map_of:
  assumes "filed role_Id m" "map_order rng" "s_roles s = []"
  shows "rel_option same_grants (map_of (s_roles (LoadRoles now (map snd (rng m)) s)) k) (map_of m k)"
proof -
  define copied where "copied = foldl (\<lambda>m r. put (role_Id r) (r\<lparr>role_CreatedAt := now, role_UpdatedAt := now\<rparr>) m)
    [] (map snd (rng m))"
  have "map_of copied k = map_option (\<lambda>r. r\<lparr>role_CreatedAt := now, role_UpdatedAt := now\<rparr>) (map_of m k)"
    unfolding copied_def
    by (subst map_of_foldl_ident) (use listed_idents [OF assms(1,2)] in \<open>auto split: option.splits\<close>)
  then have c: "rel_option same_grants (map_of copied k) (map_of m k)"
    by (cases "map_of m k") (simp_all add: same_grants_def)
  have "rel_option same_grants (map_of (s_roles (LoadRoles now (map snd (rng m)) s)) k) (map_of copied k)"
    unfolding LoadRoles_def Let_def assms(3) copied_def using link_children_same by simp
  then show ?thesis using c by (rule same_grants_trans)
qed

lemma load_subjects_map_of:
  "distinct (map subj_Id us) \<Longrightarrow> (\<And>u. u \<in> set us \<Longrightarrow> map_of (s_subjects s) (subj_Id u) = None) \<Longrightarrow>
     map_of (s_subjects (load_subjects now us s)) k =
       (case map_of (map (\<lambda>u. (subj_Id u, u)) us) k of
          Some u \<Rightarrow> Some (u\<lparr>subj_CreatedAt := now, subj_UpdatedAt := now\<rparr>) | None \<Rightarrow> map_of (s_subjects s) k) \<and>
     s_roles (load_subjects now us s) = s_roles s \<and> s_permissions (load_subjects now us s) = s_permissions s \<and>
     s_assignments (load_subjects now us s) = s_assignments s"
proof (induction us arbitrary: s)
  case Nil
  then show ?case by (simp add: load_subjects_def)
next
  case (Cons u us)
  define s1 where "s1 = s\<lparr>s_subjects := put (subj_Id u) (u\<lparr>subj_CreatedAt := now, subj_UpdatedAt := now\<rparr>) (s_subjects s)\<rparr>"
  have "CreateSubject now u s = Inr s1" using Cons.prems(2) [of u] by (simp add: CreateSubject_def s1_def)
  then have step: "load_subjects now (u # us) s = load_subjects now us s1" by (simp add: load_subjects_def)
  have new: "map_of (s_subjects s1) (subj_Id v) = None" if "v \<in> set us" for v
    using Cons.prems that by (auto simp: s1_def) (metis image_eqI)
  have "map_of (map (\<lambda>u. (subj_Id u, u)) us) (subj_Id u) = None"
    using Cons.prems(1) by (auto simp: map_of_eq_None_iff image_iff)
  then show ?case using Cons.IH [of s1, OF _ new] Cons.prems(1) unfolding step
    by (auto simp: s1_def split: option.split)
qed

text \<open>An assignment is taken over when its subject and its role are there.\<close>

definition taken :: "Store \<Rightarrow> RoleAssignment \<Rightarrow> bool" where
  "taken s a \<longleftrightarrow> map_of (s_subjects s) (asg_SubjectId a) \<noteq> None \<and> map_of (s_roles s) (asg_RoleId a) \<noteq> None"

definition role_added :: "int \<Rightarrow> string \<Rightarrow> Subject \<Rightarrow> Subject" where
  "role_added now r u = u\<lparr>subj_RoleIds := subj_RoleIds u @ [r], subj_UpdatedAt := now\<rparr>"

definition with_assignment :: "int \<Rightarrow> RoleAssignment \<Rightarrow> Store \<Rightarrow> Store" where
  "with_assignment now a s = s\<lparr>s_assignments := put (asg_Id a) (a\<lparr>asg_AssignedAt := now\<rparr>) (s_assignments s),
     s_subjects := update_entry (asg_SubjectId a) (role_added now (asg_RoleId a)) (s_subjects s)\<rparr>"

lemma load_assignments_Cons:
  "asg_Id a \<noteq> [] \<Longrightarrow> load_assignments uuid now (a # as) s =
     load_assignments uuid now as (if taken s a then with_assignment now a s else s)"
  by (auto simp: load_assignments_def AssignRole_def taken_def with_assignment_def role_added_def [abs_def] Let_def)

lemma with_assignment_simps:
  "s_roles (with_assignment now a s) = s_roles s" "s_permissions (with_assignment now a s) = s_permissions s"
  "taken (with_assignment now a s) b = taken s b"
  by (auto simp: with_assignment_def taken_def map_of_update_entry)

lemma with_assignment_subject:
  "map_of (s_subjects (with_assignment now a s)) who =
     (if who = asg_SubjectId a then map_option (role_added now (asg_RoleId a)) (map_of (s_subjects s) who)
      else map_of (s_subjects s) who)"
  by (simp add: with_assignment_def map_of_update_entry)

lemma with_assignment_ran:
  "map_of (s_assignments s) (asg_Id a) = None \<Longrightarrow>
     ran (map_of (s_assignments (with_assignment now a s))) =
       insert (a\<lparr>asg_AssignedAt := now\<rparr>) (ran (map_of (s_assignments s)))"
  by (simp add: with_assignment_def)

lemma load_assignments_frame:
  "list_all (\<lambda>a. asg_Id a \<noteq> []) as \<Longrightarrow>
     s_roles (load_assignments uuid now as s) = s_roles s \<and>
     s_permissions (load_assignments uuid now as s) = s_permissions s"
proof (induction as arbitrary: s)
  case Nil
  then show ?case by (simp add: load_assignments_def)
next
  case (Cons a as)
  then show ?case by (simp add: load_assignments_Cons with_assignment_simps)
qed

lemma load_assignments_ran:
  "list_all (\<lambda>a. asg_Id a \<noteq> []) as \<Longrightarrow> distinct (map asg_Id as) \<Longrightarrow>
     (\<And>a. a \<in> set as \<Longrightarrow> map_of (s_assignments s) (asg_Id a) = None) \<Longrightarrow>
     ran (map_of (s_assignments (load_assignments uuid now as s))) =
       ran (map_of (s_assignments s)) \<union> (\<lambda>a. a\<lparr>asg_AssignedAt := now\<rparr>) ` {a \<in> set as. taken s a}"
proof (induction as arbitrary: s)
  case Nil
  then show ?case by (simp add: load_assignments_def)
next
  case (Cons a as)
  define s1 where "s1 = (if taken s a then with_assignment now a s else s)"
  have t: "taken s1 b = taken s b" for b by (simp add: s1_def with_assignment_simps)
  have "map_of (s_assignments s1) (asg_Id b) = None" if "b \<in> set as" for b
    using Cons.prems that by (auto simp: s1_def with_assignment_def) (metis image_eqI)
  then have "ran (map_of (s_assignments (load_assignments uuid now as s1))) =
      ran (map_of (s_assignments s1)) \<union> (\<lambda>a. a\<lparr>asg_AssignedAt := now\<rparr>) ` {b \<in> set as. taken s b}"
    using Cons.IH [of s1] Cons.prems(1,2) by (simp add: t)
  moreover have "ran (map_of (s_assignments s1)) = ran (map_of (s_assignments s)) \<union>
      (\<lambda>a. a\<lparr>asg_AssignedAt := now\<rparr>) ` {b \<in> {a}. taken s b}"
    using Cons.prems(3) [of a] by (auto simp: s1_def with_assignment_ran)
  ultimately show ?case using Cons.prems(1) by (auto simp: load_assignments_Cons s1_def [symmetric])
qed

text \<open>The subjects stay, each with the roles of the assignments taken over added.\<close>

definition holds_roles :: "Store \<Rightarrow> string \<Rightarrow> bool \<times> string set \<Rightarrow> bool" where
  "holds_roles s who x \<longleftrightarrow> (\<exists>u. map_of (s_subjects s) who = Some u \<and> x = (subj_IsActive u, set (subj_RoleIds u)))"

lemma load_assignments_holds:
  "list_all (\<lambda>a. asg_Id a \<noteq> []) as \<Longrightarrow> holds_roles s who (act, rs) \<Longrightarrow>
     holds_roles (load_assignments uuid now as s) who
       (act, rs \<union> asg_RoleId ` {a \<in> set as. taken s a \<and> asg_SubjectId a = who})"
proof (induction as arbitrary: s rs)
  case Nil
  then show ?case by (simp add: load_assignments_def)
next
  case (Cons a as)
  define s1 where "s1 = (if taken s a then with_assignment now a s else s)"
  have t: "taken s1 b = taken s b" for b by (simp add: s1_def with_assignment_simps)
  have "holds_roles s1 who (act, rs \<union> asg_RoleId ` {b \<in> {a}. taken s b \<and> asg_SubjectId b = who})"
    using Cons.prems(2) by (auto simp: s1_def holds_roles_def with_assignment_subject role_added_def)
  from Cons.IH [OF _ this] Cons.prems(1)
  have "holds_roles (load_assignments uuid now as s1) who
      (act, rs \<union> asg_RoleId ` {b \<in> {a}. taken s b \<and> asg_SubjectId b = who} \<union>
         asg_RoleId ` {b \<in> set as. taken s b \<and> asg_SubjectId b = who})" by (simp add: t)
  moreover have "rs \<union> asg_RoleId ` {b \<in> {a}. taken s b \<and> asg_SubjectId b = who} \<union>
         asg_RoleId ` {b \<in> set as. taken s b \<and> asg_SubjectId b = who} =
      rs \<union> asg_RoleId ` {b \<in> set (a # as). taken s b \<and> asg_SubjectId b = who}" by auto
  ultimately show ?case using Cons.prems(1) by (simp add: load_assignments_Cons s1_def [symmetric])
qed

lemma load_assignments_none:
  "list_all (\<lambda>a. asg_Id a \<noteq> []) as \<Longrightarrow> map_of (s_subjects s) who = None \<Longrightarrow>
     map_of (s_subjects (load_assignments uuid now as s)) who = None"
proof (induction as arbitrary: s)
  case Nil
  then show ?case by (simp add: load_assignments_def)
next
  case (Cons a as)
  have "map_of (s_subjects (with_assignment now a s)) who = None"
    using Cons.prems(2) by (auto simp: with_assignment_subject)
  with Cons show ?case by (simp add: load_assignments_Cons)
qed

lemma grants_via_holds:
  "grants_via s now who tn permission r \<longleftrightarrow>
     (\<exists>act rs. holds_roles s who (act, rs) \<and> act \<and> r \<in> rs) \<and>
     (\<exists>a \<in> ran (map_of (s_assignments s)). matching_assignment who r tn a \<and> valid_assignment now a) \<and>
     (\<exists>q. map_of (s_roles s) r = Some q \<and> (role_IsSystemRole q \<or> role_TenantId q = tn) \<and>
        (\<exists>j \<in> set (role_PermissionIds q). \<exists>p. map_of (s_permissions s) j = Some p \<and> permissionMatches p permission))"
  unfolding grants_via_def holds_roles_def role_perms_def ran_def by blast

definition orders_ok :: "orders \<Rightarrow> bool" where
  "orders_ok ord \<longleftrightarrow> map_order (o_permissions ord) \<and> map_order (o_roles ord) \<and>
     map_order (o_subjects ord) \<and> map_order (o_assignments ord)"

lemma restart_store:
  assumes t: "tables_ok t" and ord: "orders_ok ord"
    and "loadFromPersistentStorage (\<lambda>_. None) ord uuid now (NewManager t) = (None, m)"
  shows "map_of (s_permissions (m_store m)) = map_of (t_permissions t)"
    and "rel_option same_grants (map_of (s_roles (m_store m)) k) (map_of (t_roles t) k)"
    and "map_of (t_subjects t) who = None \<Longrightarrow> map_of (s_subjects (m_store m)) who = None"
    and "map_of (t_subjects t) who = Some u \<Longrightarrow> holds_roles (m_store m) who (subj_IsActive u,
      set (subj_RoleIds u) \<union> asg_RoleId ` {a \<in> ran (map_of (t_assignments t)).
        map_of (t_subjects t) (asg_SubjectId a) \<noteq> None \<and> map_of (t_roles t) (asg_RoleId a) \<noteq> None \<and> asg_SubjectId a = who})"
    and "ran (map_of (s_assignments (m_store m))) = (\<lambda>a. a\<lparr>asg_AssignedAt := unix now\<rparr>) `
      {a \<in> ran (map_of (t_assignments t)).
        map_of (t_subjects t) (asg_SubjectId a) \<noteq> None \<and> map_of (t_roles t) (asg_RoleId a) \<noteq> None}"
proof -
  have f: "filed perm_Id (t_permissions t)" "filed role_Id (t_roles t)" "filed subj_Id (t_subjects t)"
    "filed asg_Id (t_assignments t)" "map_of (t_assignments t) [] = None"
    and o: "map_order (o_permissions ord)" "map_order (o_roles ord)" "map_order (o_subjects ord)"
      "map_order (o_assignments ord)"
    using t ord by (simp_all add: tables_ok_def orders_ok_def)
  define us as where "us = map snd (o_subjects ord (t_subjects t))" and "as = map snd (o_assignments ord (t_assignments t))"
  define s1 where "s1 = LoadPermissions (map snd (o_permissions ord (t_permissions t))) NewStore"
  define s2 where "s2 = LoadRoles (unix now) (map snd (o_roles ord (t_roles t))) s1"
  define s3 where "s3 = load_subjects (unix now) us s2"
  have m: "m_store m = load_assignments uuid (unix now) as s3"
    using assms(3) by (auto simp: loadFromPersistentStorage_def NewManager_def Let_def exec_def
        db_ListPermissions_def db_ListRoles_def db_ListSubjects_def db_ListRoleAssignments_def
        s1_def s2_def s3_def us_def as_def)
  have e1: "s_roles s1 = []" "s_subjects s2 = []" "s_assignments s2 = []" "s_permissions s2 = s_permissions s1"
    by (simp_all add: s1_def s2_def NewStore_def LoadPermissions_def LoadRoles_def Let_def)
  note lu = listed_idents [OF f(3) o(3), folded us_def] and la = listed_idents [OF f(4) o(4), folded as_def]
  have s3: "map_of (s_subjects s3) k = map_option (\<lambda>u. u\<lparr>subj_CreatedAt := unix now, subj_UpdatedAt := unix now\<rparr>)
        (map_of (t_subjects t) k)" "s_roles s3 = s_roles s2" "s_permissions s3 = s_permissions s1" "s_assignments s3 = []" for k
    using load_subjects_map_of [OF lu(1), of s2 "unix now" k] e1 lu(2)
    by (simp_all add: s3_def split: option.split)
  have ids: "list_all (\<lambda>a. asg_Id a \<noteq> []) as"
    unfolding list_all_iff la(3) using f(4,5) by (auto simp: ran_def dest: filed_ident)
  note frame = load_assignments_frame [OF ids, of uuid "unix now" s3]
  show "map_of (s_permissions (m_store m)) = map_of (t_permissions t)"
    using frame LoadPermissions_map_of [OF f(1) o(1), of NewStore] by (simp add: m s3 s1_def NewStore_def)
  have roles: "rel_option same_grants (map_of (s_roles s2) k) (map_of (t_roles t) k)" for k
    unfolding s2_def by (rule LoadRoles_map_of [OF f(2) o(2) e1(1)])
  then show "rel_option same_grants (map_of (s_roles (m_store m)) k) (map_of (t_roles t) k)"
    using frame by (simp add: m s3)
  have "map_of (s_roles s2) k = None \<longleftrightarrow> map_of (t_roles t) k = None" for k
    using roles [of k] by (cases "map_of (s_roles s2) k"; cases "map_of (t_roles t) k") simp_all
  then have tk: "taken s3 a \<longleftrightarrow> map_of (t_subjects t) (asg_SubjectId a) \<noteq> None \<and>
      map_of (t_roles t) (asg_RoleId a) \<noteq> None" for a
    by (simp add: taken_def s3)
  show "map_of (s_subjects (m_store m)) who = None" if "map_of (t_subjects t) who = None"
    unfolding m by (rule load_assignments_none [OF ids]) (simp add: s3 that)
  show "holds_roles (m_store m) who (subj_IsActive u,
      set (subj_RoleIds u) \<union> asg_RoleId ` {a \<in> ran (map_of (t_assignments t)).
        map_of (t_subjects t) (asg_SubjectId a) \<noteq> None \<and> map_of (t_roles t) (asg_RoleId a) \<noteq> None \<and> asg_SubjectId a = who})"
    if "map_of (t_subjects t) who = Some u"
  proof -
    have "holds_roles s3 who (subj_IsActive u, set (subj_RoleIds u))"
      using that by (simp add: holds_roles_def s3)
    from load_assignments_holds [OF ids this, of uuid "unix now"] show ?thesis
      by (simp add: m la(3) tk conj_assoc)
  qed
  show "ran (map_of (s_assignments (m_store m))) = (\<lambda>a. a\<lparr>asg_AssignedAt := unix now\<rparr>) `
      {a \<in> ran (map_of (t_assignments t)).
        map_of (t_subjects t) (asg_SubjectId a) \<noteq> None \<and> map_of (t_roles t) (asg_RoleId a) \<noteq> None}"
    using load_assignments_ran [OF ids la(1), of s3 uuid "unix now"] by (simp add: m s3 la(3) tk)
qed

lemma restart_grants:
  assumes "tables_ok t" and "orders_ok ord"
  shows "\<exists>m. loadFromPersistentStorage (\<lambda>_. None) ord uuid now (NewManager t) = (None, m) \<and>
    (\<forall>later who tn permission r. grants_via (m_store m) later who tn permission r \<longleftrightarrow>
       tables_grant t later who tn permission r)"
proof -
  obtain m where m: "loadFromPersistentStorage (\<lambda>_. None) ord uuid now (NewManager t) = (None, m)"
    by (auto simp: loadFromPersistentStorage_def Let_def exec_def db_ListPermissions_def db_ListRoles_def
        db_ListSubjects_def db_ListRoleAssignments_def)
  note st = restart_store [OF assms m]
  have "grants_via (m_store m) later who tn permission r \<longleftrightarrow> tables_grant t later who tn permission r"
    for later who tn permission r
  proof (cases "map_of (t_subjects t) who")
    case None
    then show ?thesis using st(3) by (auto simp: grants_via_def tables_grant_def)
  next
    case u: (Some u)
    show ?thesis
    proof (cases "map_of (t_roles t) r")
      case None
      then show ?thesis using st(2) [of r] by (auto simp: grants_via_def tables_grant_def)
    next
      case q: (Some q)
      then obtain q' where q': "map_of (s_roles (m_store m)) r = Some q'" "same_grants q' q"
        using st(2) [of r] by (auto simp: option_rel_Some2)
      have held: "(\<exists>a \<in> ran (map_of (s_assignments (m_store m))). matching_assignment who r tn a \<and> valid_assignment later a) \<longleftrightarrow>
          (\<exists>a \<in> ran (map_of (t_assignments t)). matching_assignment who r tn a \<and> valid_assignment later a)"
        unfolding st(5) using u q by (auto simp: matching_assignment_def valid_assignment_def)
      define RS where "RS = set (subj_RoleIds u) \<union> asg_RoleId ` {a \<in> ran (map_of (t_assignments t)).
        map_of (t_subjects t) (asg_SubjectId a) \<noteq> None \<and> map_of (t_roles t) (asg_RoleId a) \<noteq> None \<and> asg_SubjectId a = who}"
      have roles: "r \<in> RS"
        if "\<exists>a \<in> ran (map_of (t_assignments t)). matching_assignment who r tn a \<and> valid_assignment later a"
        using that u q by (auto simp: matching_assignment_def RS_def)
      have subj: "(\<exists>act rs. holds_roles (m_store m) who (act, rs) \<and> act \<and> r \<in> rs) \<longleftrightarrow> subj_IsActive u \<and> r \<in> RS"
        using st(4) [OF u, folded RS_def] by (auto simp: holds_roles_def)
      have role: "(\<exists>q. map_of (s_roles (m_store m)) r = Some q \<and> (role_IsSystemRole q \<or> role_TenantId q = tn) \<and>
          (\<exists>j \<in> set (role_PermissionIds q). \<exists>p. map_of (t_permissions t) j = Some p \<and> permissionMatches p permission)) \<longleftrightarrow>
          (role_IsSystemRole q \<or> role_TenantId q = tn) \<and>
          (\<exists>j \<in> set (role_PermissionIds q). \<exists>p. map_of (t_permissions t) j = Some p \<and> permissionMatches p permission)"
        using q' by (simp add: same_grants_def)
      have "tables_grant t later who tn permission r \<longleftrightarrow> subj_IsActive u \<and>
          (\<exists>a \<in> ran (map_of (t_assignments t)). matching_assignment who r tn a \<and> valid_assignment later a) \<and>
          (role_IsSystemRole q \<or> role_TenantId q = tn) \<and>
          (\<exists>j \<in> set (role_PermissionIds q). \<exists>p. map_of (t_permissions t) j = Some p \<and> permissionMatches p permission)"
        unfolding tables_grant_def ran_def using u q by auto
      moreover have "grants_via (m_store m) later who tn permission r \<longleftrightarrow> subj_IsActive u \<and>
          (\<exists>a \<in> ran (map_of (t_assignments t)). matching_assignment who r tn a \<and> valid_assignment later a) \<and>
          (role_IsSystemRole q \<or> role_TenantId q = tn) \<and>
          (\<exists>j \<in> set (role_PermissionIds q). \<exists>p. map_of (t_permissions t) j = Some p \<and> permissionMatches p permission)"
        unfolding grants_via_holds held st(1) subj role using roles by blast
      ultimately show ?thesis by simp
    qed
  qed
  then show ?thesis using m by blast
qed


definition sample_tables :: Tables where
  "sample_tables = \<lparr>t_permissions = s_permissions sample_store, t_roles = s_roles sample_store,
     t_subjects = s_subjects sample_store, t_assignments = s_assignments sample_store\<rparr>"

definition same_order :: orders where
  "same_order = \<lparr>o_permissions = (\<lambda>x. x), o_roles = (\<lambda>x. x), o_subjects = (\<lambda>x. x), o_assignments = (\<lambda>x. x)\<rparr>"

lemma sample_tables_ok: "tables_ok sample_tables" "orders_ok same_order"
  using sample_store_ok by (simp_all add: tables_ok_def store_ok_def sample_tables_def orders_ok_def same_order_def)

lemma sample_tables_grant: "tables_grant sample_tables 5 ''alice'' ''acme'' ''c.write'' ''operator''"
  using sample_grant unfolding grants_via_def tables_grant_def sample_tables_def role_perms_def by simp blast


text \<open>C33: deleting a subject takes its access away only until the next restart: what the tables
  granted it before is granted again.\<close>

theorem deleted_subject_returns:
  assumes "mgr_ok m" and "orders_ok ord" and "tables_grant (m_tables m) later who tn permission r"
    and "Manager_DeleteSubject who m = (None, m')"
  shows "\<not> grants_via (m_store m') later who tn permission r \<and>
    (\<exists>m''. loadFromPersistentStorage (\<lambda>_. None) ord uuid now (NewManager (m_tables m')) = (None, m'') \<and>
       grants_via (m_store m'') later who tn permission r)"
proof -
  have s: "m_tables m' = m_tables m" "map_of (s_subjects (m_store m')) who = None"
    using assms(4) by (auto simp: Manager_DeleteSubject_def in_memory_def DeleteSubject_def split: if_splits)
  then have "\<not> grants_via (m_store m') later who tn permission r" by (simp add: grants_via_def)
  moreover have "tables_ok (m_tables m')" using assms(1) s(1) by (simp add: mgr_ok_def)
  ultimately show ?thesis using restart_grants [OF _ assms(2)] assms(3) s(1) by metis
qed

theorem deleted_subject_returns_witness:
  "\<exists>m' m''. Manager_DeleteSubject ''alice'' (sample_manager\<lparr>m_tables := sample_tables\<rparr>) = (None, m') \<and>
     \<not> grants_via (m_store m') 5 ''alice'' ''acme'' ''c.write'' ''operator'' \<and>
     loadFromPersistentStorage (\<lambda>_. None) same_order ''id'' 9 (NewManager (m_tables m')) = (None, m'') \<and>
     grants_via (m_store m'') 5 ''alice'' ''acme'' ''c.write'' ''operator''"
proof -
  let ?m = "sample_manager\<lparr>m_tables := sample_tables\<rparr>"
  have ok: "mgr_ok ?m" by (simp add: mgr_ok_def sample_manager_def sample_store_ok sample_tables_ok)
  have g: "tables_grant (m_tables ?m) 5 ''alice'' ''acme'' ''c.write'' ''operator''" by (simp add: sample_tables_grant)
  have "fst (Manager_DeleteSubject ''alice'' ?m) = None"
    by (simp add: Manager_DeleteSubject_def in_memory_def DeleteSubject_def sample_manager_def sample_store_def)
  then obtain m' where "Manager_DeleteSubject ''alice'' ?m = (None, m')" by (metis prod.collapse)
  then show ?thesis using deleted_subject_returns [OF ok sample_tables_ok(2) g] by blast
qed

end
