(* ===== verification/Rbac_Steward.thy ===== *)
theory Rbac_Steward
  imports Rbac_Restart
begin

text \<open>
  From a fresh installation to a decision: start the manager on an empty database, register a
  steward, and ask what it may do. Also facts about the built-in permissions and roles.
\<close>

section \<open>The built-in roles\<close>

text \<open>Every permission a built-in role names is defined, and no name is used twice.\<close>

lemma defaults_closed:
  "distinct (map perm_Id DefaultPermissions)" "distinct (map role_Id DefaultRoles)"
  "list_all (\<lambda>r. list_all (\<lambda>i. i \<in> set (map perm_Id DefaultPermissions)) (role_PermissionIds r)) DefaultRoles"
  by code_simp+

text \<open>No built-in role carries a break-glass permission, and only the administrator's carries \<open>system.admin\<close>.\<close>

lemma defaults_no_break_glass:
  "list_all (\<lambda>r. list_all (\<lambda>i. i \<notin> {''emergency.break-glass'', ''tenant.crossing-break-glass'',
      ''tenant.crossing-approve-break-glass''}) (role_PermissionIds r)) DefaultRoles"
  "list_all (\<lambda>r. ''system.admin'' \<in> set (role_PermissionIds r) \<longrightarrow> role_Id r = ''system.admin'') DefaultRoles"
  by code_simp+

definition steward_permissions :: "string list" where
  "steward_permissions = [''steward.register'', ''steward.heartbeat'', ''steward.dna.sync'', ''config.read'',
     ''config.validate'', ''config.status.report'', ''steward.event.log'', ''module.execute'']"

lemma steward_permissions_defined: "list_all (\<lambda>i. i \<in> set (map perm_Id DefaultPermissions)) steward_permissions"
  by code_simp

lemma steward_permissions_plain:
  "list_all (\<lambda>i. i \<noteq> ''*'' \<and> \<not> HasSuffix i ''.*'' \<and> i \<noteq> ''system.admin'') steward_permissions"
  by code_simp

lemma steward_role:
  "map_of (s_roles (LoadRoles now GetSystemRoles s)) ''steward.service'' =
     Some \<lparr>role_Id = ''steward.service'', role_Name = ''Steward Service Account'',
       role_Description = ''Permissions for steward instances to operate'',
       role_PermissionIds = steward_permissions, role_IsSystemRole = True, role_TenantId = [],
       role_CreatedAt = now, role_UpdatedAt = now, role_ParentRoleId = [], role_ChildRoleIds = [],
       role_InheritanceType = INHERITANCE_NONE\<rparr>"
  by (simp add: LoadRoles_def Let_def GetSystemRoles_def DefaultRoles_def new_role_def steward_permissions_def)

section \<open>A fresh installation\<close>

lemma map_order_Nil: "map_order rng \<Longrightarrow> rng [] = []"
  using map_orderD(3) [of rng "[]"] by simp

lemma fresh_start:
  assumes "orders_ok ord"
  shows "\<exists>m. Manager_Initialize (\<lambda>_. None) ord uuid now (NewManager empty_tables) = (None, m) \<and>
    m_store m = LoadRoles (unix now) GetSystemRoles (LoadPermissions DefaultPermissions (Initialize NewStore)) \<and>
    m_operationLog m = []"
proof -
  have o: "o_permissions ord [] = []" "o_roles ord [] = []" "o_subjects ord [] = []" "o_assignments ord [] = []"
    using assms by (simp_all add: orders_ok_def map_order_Nil)
  have l: "LoadPermissions [] s = s" "LoadRoles t [] s = s" for s t
    by (simp_all add: LoadPermissions_def LoadRoles_def)
  show ?thesis
    by (simp add: Manager_Initialize_def loadFromPersistentStorage_def NewManager_def Let_def exec_def
        db_ListPermissions_def db_ListRoles_def db_ListSubjects_def db_ListRoleAssignments_def
        empty_tables_def o l load_subjects_def load_assignments_def loadDefaultPermissions_def
        loadDefaultRoles_def StoreBulkPermissions_def StoreBulkRoles_def)
qed

lemma fresh_permission:
  assumes "i \<in> set (map perm_Id DefaultPermissions)"
  shows "\<exists>p. map_of (s_permissions (LoadRoles t rs (LoadPermissions DefaultPermissions s))) i = Some p"
proof -
  have keys: "fst ` set (foldl (\<lambda>m p. put (perm_Id p) p m) m ps) = fst ` set m \<union> perm_Id ` set ps" for m ps
    by (induction ps arbitrary: m) auto
  have "i \<in> fst ` set (foldl (\<lambda>m p. put (perm_Id p) p m) (s_permissions s) DefaultPermissions)"
    using assms unfolding keys by simp
  then have "map_of (foldl (\<lambda>m p. put (perm_Id p) p m) (s_permissions s) DefaultPermissions) i \<noteq> None"
    unfolding map_of_eq_None_iff by simp
  then show ?thesis by (auto simp: LoadRoles_def LoadPermissions_def Let_def)
qed

text \<open>Registering a steward that is not known yet, right after the start.\<close>

definition steward_subject :: "instant \<Rightarrow> string \<Rightarrow> string \<Rightarrow> string list \<Rightarrow> Subject" where
  "steward_subject now stewardID tenantID roles =
     \<lparr>subj_Id = stewardID, subj_Type = SUBJECT_STEWARD, subj_DisplayName = ''Steward '' @ stewardID,
      subj_TenantId = tenantID, subj_RoleIds = roles, subj_Attributes = [(''steward_id'', stewardID)],
      subj_IsActive = True, subj_CreatedAt = unix now, subj_UpdatedAt = unix now\<rparr>"

definition registered :: "instant \<Rightarrow> string \<Rightarrow> string \<Rightarrow> string \<Rightarrow> Store \<Rightarrow> Store" where
  "registered now uuid stewardID tenantID s =
     s\<lparr>s_subjects := [(stewardID, steward_subject now stewardID tenantID [''steward.service''])],
       s_assignments := [(uuid, (assignment_for stewardID ''steward.service'' tenantID)
          \<lparr>asg_Id := uuid, asg_AssignedAt := unix now\<rparr>)]\<rparr>"

lemma steward_justified:
  "ValidateSensitiveOperation ''assign_role''
     ''system: steward service account automated role assignment during registration'' = None"
  by code_simp

lemma CreateSubject_first:
  assumes "s_subjects (m_store m) = []" "e_fault env = None"
  shows "\<exists>m'. Manager_CreateSubject env now (steward_subject 0 stewardID tenantID [] 
        \<lparr>subj_CreatedAt := 0, subj_UpdatedAt := 0\<rparr>) m = (None, m') \<and>
     m_store m' = (m_store m)\<lparr>s_subjects := [(stewardID, steward_subject now stewardID tenantID [])]\<rparr> \<and>
     m_operationLog m' = m_operationLog m"
  using assms
  by (simp add: Manager_CreateSubject_def write_through_def CreateSubject_def StoreSubject_def exec_def
      steward_subject_def)

lemma AssignRole_first:
  assumes "s_subjects (m_store m) = [(stewardID, steward_subject now stewardID tenantID [])]"
    and "s_assignments (m_store m) = []" and "m_operationLog m = []" and "e_fault env = None"
    and "map_of (s_roles (m_store m)) ''steward.service'' \<noteq> None"
  shows "\<exists>m'. Manager_AssignRole env now
      ''system: steward service account automated role assignment during registration''
      (assignment_for stewardID ''steward.service'' tenantID) m = (None, m') \<and>
    m_store m' = registered now (e_uuid env) stewardID tenantID (m_store m)"
proof -
  have u: "GetSubject stewardID (m_store m) = Inr (steward_subject now stewardID tenantID [])"
    by (simp add: GetSubject_def assms(1))
  have rapid: "checkRapidEscalationProtection now stewardID ''steward.service'' m = None"
    by (simp add: checkRapidEscalationProtection_def countRecentRoleAssignments_def
        countRecentHighPrivilegeAssignments_def assms(3) Let_def)
  have cross: "checkCrossTenantEscalationProtection now stewardID tenantID m = None"
    by (simp add: checkCrossTenantEscalationProtection_def getRecentSubjectTenants_def assms(3) Let_def u
        steward_subject_def)
  show ?thesis using assms rapid cross
    by (auto simp: Manager_AssignRole_def gated_def steward_justified ValidateAndAssignRole_def Let_def
        assignment_for_def AssignRole_def StoreRoleAssignment_def exec_def registered_def update_entry_def
        steward_subject_def)
qed

lemma CreateStewardSubject_first:
  assumes "s_subjects (m_store m) = []" and "s_assignments (m_store m) = []" and "m_operationLog m = []"
    and "e_fault env = None" and "map_of (s_roles (m_store m)) ''steward.service'' \<noteq> None"
  shows "\<exists>m'. CreateStewardSubject env now stewardID tenantID m = (None, m') \<and>
    m_store m' = registered now (e_uuid env) stewardID tenantID (m_store m)"
proof -
  obtain m1 where m1: "Manager_CreateSubject env now (steward_subject 0 stewardID tenantID []
        \<lparr>subj_CreatedAt := 0, subj_UpdatedAt := 0\<rparr>) m = (None, m1)"
    "m_store m1 = (m_store m)\<lparr>s_subjects := [(stewardID, steward_subject now stewardID tenantID [])]\<rparr>"
    "m_operationLog m1 = m_operationLog m"
    using CreateSubject_first [OF assms(1,4)] by blast
  obtain m2 where m2: "Manager_AssignRole env now
      ''system: steward service account automated role assignment during registration''
      (assignment_for stewardID ''steward.service'' tenantID) m1 = (None, m2)"
    "m_store m2 = registered now (e_uuid env) stewardID tenantID (m_store m1)"
    using AssignRole_first [of m1 stewardID now tenantID env] m1(2,3) assms by auto
  have "CreateStewardSubject env now stewardID tenantID m = (None, m2)"
    using m1(1) m2(1) by (simp add: CreateStewardSubject_def steward_subject_def)
  then show ?thesis using m1(2) m2(2) by (simp add: registered_def)
qed

lemma registered_ok:
  "store_ok s \<Longrightarrow> uuid \<noteq> [] \<Longrightarrow> store_ok (registered now uuid stewardID tenantID s)"
  by (simp add: store_ok_def registered_def filed_def steward_subject_def)

lemma plain_permission_matches:
  "i \<noteq> ''*'' \<Longrightarrow> \<not> HasSuffix i ''.*'' \<Longrightarrow> i \<noteq> ''system.admin'' \<Longrightarrow> perm_Id p = i \<Longrightarrow>
     permissionMatches p requested \<longleftrightarrow> requested = i"
  by (auto simp: permissionMatches_def)

lemma registered_grants:
  assumes ok: "store_ok s" and role: "map_of (s_roles s) ''steward.service'' = Some r"
    and sys: "role_IsSystemRole r" "role_PermissionIds r = steward_permissions"
    and perms: "\<And>i. i \<in> set steward_permissions \<Longrightarrow> map_of (s_permissions s) i \<noteq> None"
  shows "(\<exists>roleID. grants_via (registered now uuid stewardID tenantID s) later stewardID tenantID requested roleID) \<longleftrightarrow>
    requested \<in> set steward_permissions"
proof -
  let ?s = "registered now uuid stewardID tenantID s"
  have idp: "perm_Id p = i" if "map_of (s_permissions s) i = Some p" for i p
    using ok that by (auto simp: store_ok_def dest: filed_ident)
  have m: "permissionMatches p requested \<longleftrightarrow> requested = i"
    if "i \<in> set steward_permissions" "map_of (s_permissions s) i = Some p" for i p
    using plain_permission_matches idp [OF that(2)] that(1) steward_permissions_plain
    by (auto simp: list_all_iff)
  have a: "valid_assignment later (assignment_for stewardID ''steward.service'' tenantID\<lparr>asg_Id := uuid, asg_AssignedAt := unix now\<rparr>)"
    "matching_assignment stewardID ''steward.service'' tenantID
       (assignment_for stewardID ''steward.service'' tenantID\<lparr>asg_Id := uuid, asg_AssignedAt := unix now\<rparr>)"
    by (simp_all add: assignment_for_def valid_assignment_def matching_assignment_def)
  have "grants_via ?s later stewardID tenantID requested roleID \<longleftrightarrow> roleID = ''steward.service'' \<and>
      (\<exists>p \<in> role_perms ?s r. permissionMatches p requested)" for roleID
  proof
    assume "grants_via ?s later stewardID tenantID requested roleID"
    then show "roleID = ''steward.service'' \<and> (\<exists>p \<in> role_perms ?s r. permissionMatches p requested)"
      using role by (auto simp: grants_via_def registered_def steward_subject_def)
  next
    assume "roleID = ''steward.service'' \<and> (\<exists>p \<in> role_perms ?s r. permissionMatches p requested)"
    then obtain p where p: "roleID = ''steward.service''" "p \<in> role_perms ?s r" "permissionMatches p requested" by blast
    have st: "map_of (s_subjects ?s) stewardID = Some (steward_subject now stewardID tenantID [''steward.service''])"
      "map_of (s_roles ?s) ''steward.service'' = Some r"
      "map_of (s_assignments ?s) uuid =
         Some (assignment_for stewardID ''steward.service'' tenantID\<lparr>asg_Id := uuid, asg_AssignedAt := unix now\<rparr>)"
      "subj_IsActive (steward_subject now stewardID tenantID [''steward.service''])"
      "''steward.service'' \<in> set (subj_RoleIds (steward_subject now stewardID tenantID [''steward.service'']))"
      using role by (simp_all add: registered_def steward_subject_def)
    show "grants_via ?s later stewardID tenantID requested roleID"
      unfolding grants_via_def p(1) using st a p(2,3) sys(1) by blast
  qed
  moreover have "(\<exists>p \<in> role_perms ?s r. permissionMatches p requested) \<longleftrightarrow> requested \<in> set steward_permissions"
  proof -
    have "role_perms ?s r = {p. \<exists>i \<in> set steward_permissions. map_of (s_permissions s) i = Some p}"
      by (simp add: role_perms_def registered_def sys(2))
    then show ?thesis using m perms by blast
  qed
  ultimately show ?thesis by blast
qed

text \<open>C22: on a fresh installation a registered steward is granted, in its tenant, exactly the eight
  permissions of the steward service role.\<close>

theorem steward_least_privilege:
  assumes "orders_ok ord" and "map_order rng" and "e_fault env = None" and "e_uuid env \<noteq> []"
  shows "\<exists>m0 m resp. Manager_Initialize (\<lambda>_. None) ord uuid now (NewManager empty_tables) = (None, m0) \<and>
    CreateStewardSubject env later stewardID tenantID m0 = (None, m) \<and>
    CheckPermission rng t \<lparr>rq_SubjectId = stewardID, rq_PermissionId = requested, rq_ResourceId = resource,
      rq_TenantId = tenantID, rq_Context = context\<rparr> (m_store m) = Inr resp \<and>
    (rs_Granted resp \<longleftrightarrow> requested \<in> {''steward.register'', ''steward.heartbeat'', ''steward.dna.sync'',
       ''config.read'', ''config.validate'', ''config.status.report'', ''steward.event.log'', ''module.execute''})"
proof -
  define s where "s = LoadRoles (unix now) GetSystemRoles (LoadPermissions DefaultPermissions (Initialize NewStore))"
  obtain m0 where m0: "Manager_Initialize (\<lambda>_. None) ord uuid now (NewManager empty_tables) = (None, m0)"
    "m_store m0 = s" "m_operationLog m0 = []"
    using fresh_start [OF assms(1)] s_def by blast
  have ok: "store_ok s"
    unfolding s_def by (intro LoadRoles_ok LoadPermissions_ok) (simp add: Initialize_def NewStore_def store_ok_def)
  have e: "s_subjects s = []" "s_assignments s = []"
    by (simp_all add: s_def LoadRoles_def LoadPermissions_def Initialize_def NewStore_def Let_def)
  note role = steward_role [of "unix now" "LoadPermissions DefaultPermissions (Initialize NewStore)", folded s_def]
  have perms: "map_of (s_permissions s) i \<noteq> None" if "i \<in> set steward_permissions" for i
    using fresh_permission [of i] that steward_permissions_defined unfolding s_def by (auto simp: list_all_iff)
  obtain m where m: "CreateStewardSubject env later stewardID tenantID m0 = (None, m)"
    "m_store m = registered later (e_uuid env) stewardID tenantID s"
    using CreateStewardSubject_first [of m0 env later stewardID tenantID] m0 e assms(3) role by auto
  note g = registered_grants [OF ok role _ _ perms, simplified, of later "e_uuid env" stewardID tenantID t requested]
  show ?thesis
    using CheckPermission_grants [where s = "registered later (e_uuid env) stewardID tenantID s" and now = t
        and request = "\<lparr>rq_SubjectId = stewardID, rq_PermissionId = requested, rq_ResourceId = resource,
          rq_TenantId = tenantID, rq_Context = context\<rparr>", OF registered_ok [OF ok assms(4)] assms(2)] m0(1) m g
    by (auto simp: steward_permissions_def)
qed

theorem steward_least_privilege_witness:
  "\<exists>m0 m resp. Manager_Initialize (\<lambda>_. None) same_order ''id'' 1 (NewManager empty_tables) = (None, m0) \<and>
    CreateStewardSubject quiet 2 ''st-1'' ''acme'' m0 = (None, m) \<and>
    CheckPermission (\<lambda>x. x) 3 \<lparr>rq_SubjectId = ''st-1'', rq_PermissionId = ''config.read'', rq_ResourceId = [],
      rq_TenantId = ''acme'', rq_Context = []\<rparr> (m_store m) = Inr resp \<and> rs_Granted resp"
  using steward_least_privilege [OF sample_tables_ok(2) map_order_id, of quiet "''id''" 1 2 "''st-1''" "''acme''" 3
      "''config.read''" "[]" "[]"]
  by (simp add: quiet_def)

end
