(* ===== verification/Audit_Chain.thy ===== *)
theory Audit_Chain
  imports Cfgms_Prelude "HOL-Library.Word"
begin

text \<open>
  The chain of audit entries: \<open>generateChecksum\<close> and \<open>VerifyChain\<close> of \<open>pkg/audit/manager.go\<close>, on
  the entry of \<open>pkg/storage/interfaces/business/audit_store.go\<close>. The keyed hash is the argument
  \<open>mac\<close>: HMAC-SHA256 under the manager's key, in hexadecimal.
\<close>

section \<open>JSON\<close>

text \<open>
  A value of type \<open>interface{}\<close> as \<open>encoding/json\<close> sees it; a number is given by its literal. The
  entries of a map are listed in any order.
\<close>

datatype json =
    VNull | VBool bool | VNumber string | VString string
  | VList "json list" | VMap "(string \<times> json) list"

type_synonym object = "(string \<times> json) list"

definition hex :: "nat \<Rightarrow> char" where
  "hex n = ''0123456789abcdef'' ! (n mod 16)"

text \<open>A byte below \<open>0x80\<close> within a string literal; HTML characters are escaped.\<close>

definition json_byte :: "char \<Rightarrow> string" where
  "json_byte c =
     (let n = of_char c :: nat
      in if c = CHR 0x22 \<or> c = CHR 0x5C then [CHR 0x5C, c]
         else if n = 8 then [CHR 0x5C, CHR ''b'']
         else if n = 12 then [CHR 0x5C, CHR ''f'']
         else if n = 10 then [CHR 0x5C, CHR ''n'']
         else if n = 13 then [CHR 0x5C, CHR ''r'']
         else if n = 9 then [CHR 0x5C, CHR ''t'']
         else if n < 32 \<or> c = CHR ''<'' \<or> c = CHR ''>'' \<or> c = CHR ''&''
              then CHR 0x5C # ''u00'' @ [hex (n div 16), hex n]
         else [c])"

text \<open>\<open>utf8.DecodeRuneInString\<close>: the further bytes of the encoding that \<open>c\<close> starts, if it is valid.\<close>

definition between :: "nat \<Rightarrow> nat \<Rightarrow> char \<Rightarrow> bool" where
  "between lo hi c \<longleftrightarrow> lo \<le> of_char c \<and> of_char c \<le> hi"

definition rune_tail :: "char \<Rightarrow> string \<Rightarrow> nat option" where
  "rune_tail c s =
     (let n = of_char c :: nat;
          follows = (\<lambda>k lo hi. k \<le> length s \<and> between lo hi (hd s) \<and> list_all (between 0x80 0xBF) (tl (take k s)))
      in if 0xC2 \<le> n \<and> n \<le> 0xDF then (if follows 1 0x80 0xBF then Some 1 else None)
         else if 0xE0 \<le> n \<and> n \<le> 0xEF
              then (if follows 2 (if n = 0xE0 then 0xA0 else 0x80) (if n = 0xED then 0x9F else 0xBF) then Some 2 else None)
         else if 0xF0 \<le> n \<and> n \<le> 0xF4
              then (if follows 3 (if n = 0xF0 then 0x90 else 0x80) (if n = 0xF4 then 0x8F else 0xBF) then Some 3 else None)
         else None)"

text \<open>The body of a string literal, and the string that decoding it gives back.\<close>

function json_body :: "string \<Rightarrow> string" where
  "json_body [] = []"
| "json_body (c # s) =
     (if of_char c < (0x80::nat) then json_byte c @ json_body s
      else case rune_tail c s of
        None \<Rightarrow> CHR 0x5C # ''ufffd'' @ json_body s
      | Some k \<Rightarrow>
          (let r = c # take k s
           in if r = [CHR 0xE2, CHR 0x80, CHR 0xA8] \<or> r = [CHR 0xE2, CHR 0x80, CHR 0xA9]
              then CHR 0x5C # ''u202'' @ [hex (of_char (last r))] else r) @ json_body (drop k s))"
  by pat_completeness auto
termination by (relation "measure length") auto

function json_coerced :: "string \<Rightarrow> string" where
  "json_coerced [] = []"
| "json_coerced (c # s) =
     (if of_char c < (0x80::nat) then c # json_coerced s
      else case rune_tail c s of
        None \<Rightarrow> [CHR 0xEF, CHR 0xBF, CHR 0xBD] @ json_coerced s
      | Some k \<Rightarrow> c # take k s @ json_coerced (drop k s))"
  by pat_completeness auto
termination by (relation "measure length") auto

definition json_string :: "string \<Rightarrow> string" where
  "json_string s = CHR 0x22 # json_body s @ [CHR 0x22]"

definition json_object :: "(string \<times> string) list \<Rightarrow> string" where
  "json_object members =
     CHR 0x7B # join (CHR '','') (map (\<lambda>(k, text). json_string k @ CHR '':'' # text) members) @ [CHR 0x7D]"

text \<open>\<open>json.Marshal\<close>: the members of a map are sorted by key.\<close>

fun Marshal :: "json \<Rightarrow> string" where
  "Marshal VNull = ''null''"
| "Marshal (VBool b) = (if b then ''true'' else ''false'')"
| "Marshal (VNumber text) = text"
| "Marshal (VString s) = json_string s"
| "Marshal (VList vs) = CHR ''['' # join (CHR '','') (map Marshal vs) @ [CHR '']'']"
| "Marshal (VMap kvs) = json_object (sort_key fst (map (\<lambda>(k, v). (k, Marshal v)) kvs))"

definition Marshal_map :: "object option \<Rightarrow> string" where
  "Marshal_map m = (case m of None \<Rightarrow> ''null'' | Some kvs \<Rightarrow> Marshal (VMap kvs))"

section \<open>Entries\<close>

text \<open>\<open>nil\<close> and an empty map are different values; a slice is its list of elements.\<close>

record AuditChanges =
  ch_Before :: "object option"
  ch_After :: "object option"
  ch_Fields :: "string list"

record AuditEntry =
  ae_ID :: string
  ae_TenantID :: string
  ae_Timestamp :: instant
  ae_EventType :: string
  ae_Action :: string
  ae_UserID :: string
  ae_UserType :: string
  ae_SessionID :: string
  ae_ResourceType :: string
  ae_ResourceID :: string
  ae_ResourceName :: string
  ae_Result :: string
  ae_ErrorCode :: string
  ae_ErrorMessage :: string
  ae_RequestID :: string
  ae_IPAddress :: string
  ae_UserAgent :: string
  ae_Method :: string
  ae_Path :: string
  ae_Details :: "object option"
  ae_Changes :: "AuditChanges option"
  ae_Tags :: "string list"
  ae_Severity :: string
  ae_Source :: string
  ae_Version :: string
  ae_Checksum :: string
  ae_SequenceNumber :: "64 word"
  ae_PreviousChecksum :: string

definition canonicalDetails :: "object option \<Rightarrow> object option" where
  "canonicalDetails details = (if details = Some [] then None else details)"

definition canonicalChanges :: "AuditChanges option \<Rightarrow> AuditChanges option" where
  "canonicalChanges changes =
     map_option (\<lambda>c. c\<lparr>ch_Before := canonicalDetails (ch_Before c), ch_After := canonicalDetails (ch_After c)\<rparr>) changes"

text \<open>\<open>AuditChanges\<close> as JSON: the members in the order of the struct, the empty ones left out.\<close>

definition changes_members :: "AuditChanges \<Rightarrow> (string \<times> string) list" where
  "changes_members c =
     (case ch_Before c of Some (kv # kvs) \<Rightarrow> [(''before'', Marshal (VMap (kv # kvs)))] | _ \<Rightarrow> []) @
     (case ch_After c of Some (kv # kvs) \<Rightarrow> [(''after'', Marshal (VMap (kv # kvs)))] | _ \<Rightarrow> []) @
     (if ch_Fields c \<noteq> [] then [(''fields'', Marshal (VList (map VString (ch_Fields c))))] else [])"

definition Marshal_changes :: "AuditChanges option \<Rightarrow> string" where
  "Marshal_changes changes = (case changes of None \<Rightarrow> ''null'' | Some c \<Rightarrow> json_object (changes_members c))"

section \<open>Checksums\<close>

definition Unix :: "instant \<Rightarrow> int" where "Unix t = t div 1000000000"

definition field :: "string \<Rightarrow> string" where
  "field v = Itoa (int (length v)) @ CHR '':'' # v"

definition checksum_fields :: "AuditEntry \<Rightarrow> string list" where
  "checksum_fields e =
     [ae_ID e, ae_TenantID e, Itoa (Unix (ae_Timestamp e)), ae_EventType e, ae_Action e, ae_UserID e,
      ae_UserType e, ae_SessionID e, ae_ResourceType e, ae_ResourceID e, ae_ResourceName e, ae_Result e,
      ae_ErrorCode e, ae_ErrorMessage e, ae_RequestID e, ae_IPAddress e, ae_UserAgent e, ae_Method e,
      ae_Path e, Marshal_map (canonicalDetails (ae_Details e)),
      Marshal_changes (canonicalChanges (ae_Changes e)), Itoa (int (length (ae_Tags e)))] @
     ae_Tags e @
     [ae_Severity e, ae_Source e, ae_Version e, Itoa (uint (ae_SequenceNumber e)), ae_PreviousChecksum e]"

definition checksum_input :: "AuditEntry \<Rightarrow> string" where
  "checksum_input e = concat (map field (checksum_fields e))"

definition generateChecksum :: "(string \<Rightarrow> string) \<Rightarrow> AuditEntry \<Rightarrow> string" where
  "generateChecksum mac e = mac (checksum_input e)"

definition VerifyIntegrity :: "(string \<Rightarrow> string) \<Rightarrow> AuditEntry \<Rightarrow> bool" where
  "VerifyIntegrity mac e \<longleftrightarrow> ae_Checksum e = generateChecksum mac e"

text \<open>What \<open>AppendChainedEntry\<close> makes of an entry once it has read the head of the tenant's chain.\<close>

definition chained_entry :: "(string \<Rightarrow> string) \<Rightarrow> string \<Rightarrow> 64 word \<times> string \<Rightarrow> AuditEntry \<Rightarrow> AuditEntry" where
  "chained_entry mac tenant head e =
     (let e' = e\<lparr>ae_TenantID := tenant, ae_SequenceNumber := fst head + 1, ae_PreviousChecksum := snd head\<rparr>
      in e'\<lparr>ae_Checksum := generateChecksum mac e'\<rparr>)"

section \<open>Verifying a chain\<close>

datatype break_reason =
    SequenceMissing | SequenceGap "64 word" "64 word" | PreviousMismatch string string | ChecksumMismatch

record ChainBreak =
  cb_EntryID :: string
  cb_SequenceNumber :: "64 word"
  cb_Reason :: break_reason

definition chain_break :: "AuditEntry \<Rightarrow> break_reason \<Rightarrow> ChainBreak" where
  "chain_break e reason = \<lparr>cb_EntryID = ae_ID e, cb_SequenceNumber = ae_SequenceNumber e, cb_Reason = reason\<rparr>"

definition entry_breaks :: "(string \<Rightarrow> string) \<Rightarrow> AuditEntry option \<Rightarrow> AuditEntry \<Rightarrow> ChainBreak list" where
  "entry_breaks mac prev e =
     (if ae_SequenceNumber e = 0 then [chain_break e SequenceMissing] else []) @
     (case prev of
        None \<Rightarrow> []
      | Some p \<Rightarrow>
          (if ae_SequenceNumber e \<noteq> ae_SequenceNumber p + 1
           then [chain_break e (SequenceGap (ae_SequenceNumber p + 1) (ae_SequenceNumber e))] else []) @
          (if ae_PreviousChecksum e \<noteq> ae_Checksum p
           then [chain_break e (PreviousMismatch (ae_Checksum p) (ae_PreviousChecksum e))] else [])) @
     (if ae_Checksum e \<noteq> generateChecksum mac e then [chain_break e ChecksumMismatch] else [])"

fun verify_from :: "(string \<Rightarrow> string) \<Rightarrow> AuditEntry option \<Rightarrow> AuditEntry list \<Rightarrow> ChainBreak list" where
  "verify_from mac prev [] = []"
| "verify_from mac prev (e # es) = entry_breaks mac prev e @ verify_from mac (Some e) es"

text \<open>\<open>sort.Slice\<close> leaves entries with one sequence number in any order: \<open>ord\<close> decides it.\<close>

definition VerifyChain ::
    "(string \<Rightarrow> string) \<Rightarrow> (AuditEntry list \<Rightarrow> AuditEntry list) \<Rightarrow> AuditEntry list \<Rightarrow> ChainBreak list" where
  "VerifyChain mac ord entries = verify_from mac None (sort_key ae_SequenceNumber (ord entries))"


section \<open>What a checksum covers\<close>

text \<open>Two entries that agree in everything but the fraction of a second and the checksum itself.\<close>

definition same_content :: "AuditEntry \<Rightarrow> AuditEntry \<Rightarrow> bool" where
  "same_content e d \<longleftrightarrow>
     ae_ID e = ae_ID d \<and> ae_TenantID e = ae_TenantID d \<and> Unix (ae_Timestamp e) = Unix (ae_Timestamp d) \<and>
     ae_EventType e = ae_EventType d \<and> ae_Action e = ae_Action d \<and> ae_UserID e = ae_UserID d \<and>
     ae_UserType e = ae_UserType d \<and> ae_SessionID e = ae_SessionID d \<and>
     ae_ResourceType e = ae_ResourceType d \<and> ae_ResourceID e = ae_ResourceID d \<and>
     ae_ResourceName e = ae_ResourceName d \<and> ae_Result e = ae_Result d \<and>
     ae_ErrorCode e = ae_ErrorCode d \<and> ae_ErrorMessage e = ae_ErrorMessage d \<and>
     ae_RequestID e = ae_RequestID d \<and> ae_IPAddress e = ae_IPAddress d \<and>
     ae_UserAgent e = ae_UserAgent d \<and> ae_Method e = ae_Method d \<and> ae_Path e = ae_Path d \<and>
     Marshal_map (canonicalDetails (ae_Details e)) = Marshal_map (canonicalDetails (ae_Details d)) \<and>
     Marshal_changes (canonicalChanges (ae_Changes e)) = Marshal_changes (canonicalChanges (ae_Changes d)) \<and>
     ae_Tags e = ae_Tags d \<and> ae_Severity e = ae_Severity d \<and> ae_Source e = ae_Source d \<and>
     ae_Version e = ae_Version d \<and> ae_SequenceNumber e = ae_SequenceNumber d \<and>
     ae_PreviousChecksum e = ae_PreviousChecksum d"

lemma field_inj: "field v @ s = field w @ t \<longleftrightarrow> v = w \<and> s = t"
proof
  assume eq: "field v @ s = field w @ t"
  have head: "takeWhile (\<lambda>c. c \<noteq> CHR '':'') (field x @ r) = Itoa (int (length x))" for x r
    using Itoa_no_colon by (auto simp: field_def takeWhile_tail takeWhile_eq_all_conv)
  from arg_cong [OF eq, of "takeWhile (\<lambda>c. c \<noteq> CHR '':'')"] have "length v = length w" by (simp add: head)
  then show "v = w \<and> s = t" using eq by (simp add: field_def)
qed simp

lemma fields_inj: "concat (map field xs) = concat (map field ys) \<longleftrightarrow> xs = ys"
proof
  have ne: "field v @ s \<noteq> []" for v s by (simp add: field_def)
  show "concat (map field xs) = concat (map field ys) \<Longrightarrow> xs = ys"
  proof (induction xs arbitrary: ys)
    case Nil
    then show ?case using ne by (cases ys) auto
  next
    case (Cons x xs)
    then show ?case using ne by (cases ys) (auto simp: field_inj)
  qed
qed simp

lemma checksum_input_eq: "checksum_input e = checksum_input d \<longleftrightarrow> same_content e d"
proof -
  have "checksum_fields e = checksum_fields d \<longleftrightarrow> same_content e d"
  proof (cases "length (ae_Tags e) = length (ae_Tags d)")
    case True
    then show ?thesis by (auto simp: checksum_fields_def same_content_def word_uint_eq_iff)
  qed (auto simp: checksum_fields_def same_content_def)
  then show ?thesis by (simp add: checksum_input_def fields_inj)
qed


section \<open>Tampering\<close>

text \<open>
  The entries a store has appended for one tenant: numbered from one, each linked to the one
  before and with its own checksum.
\<close>

definition chain_of :: "(string \<Rightarrow> string) \<Rightarrow> string \<Rightarrow> AuditEntry list \<Rightarrow> bool" where
  "chain_of mac tenant g \<longleftrightarrow> length g < 2 ^ 64 \<and>
     (\<forall>i < length g. ae_TenantID (g ! i) = tenant \<and> ae_SequenceNumber (g ! i) = of_nat (Suc i) \<and>
        ae_PreviousChecksum (g ! i) = (if i = 0 then [] else ae_Checksum (g ! (i - 1))) \<and>
        ae_Checksum (g ! i) = generateChecksum mac (g ! i))"

text \<open>\<open>e\<close> and \<open>d\<close> are the same entry as far as a checksum can tell.\<close>

definition same_entry :: "AuditEntry \<Rightarrow> AuditEntry \<Rightarrow> bool" where
  "same_entry e d \<longleftrightarrow> same_content e d \<and> ae_Checksum e = ae_Checksum d"

fun linked :: "AuditEntry list \<Rightarrow> bool" where
  "linked (p # e # es) \<longleftrightarrow> ae_SequenceNumber e = ae_SequenceNumber p + 1 \<and>
     ae_PreviousChecksum e = ae_Checksum p \<and> linked (e # es)"
| "linked _ \<longleftrightarrow> True"

lemma verify_from_ok:
  "verify_from mac prev es = [] \<longleftrightarrow>
     linked (case prev of None \<Rightarrow> es | Some p \<Rightarrow> p # es) \<and>
     (\<forall>e \<in> set es. ae_SequenceNumber e \<noteq> 0 \<and> ae_Checksum e = generateChecksum mac e)"
proof (induction es arbitrary: prev)
  case Nil
  then show ?case by (cases prev) auto
next
  case (Cons e es)
  then show ?case by (cases prev) (auto simp: entry_breaks_def)
qed

lemma of_nat_64_eq:
  assumes "m < 2 ^ 64" "n < 2 ^ 64"
  shows "(of_nat m :: 64 word) = of_nat n \<longleftrightarrow> m = n"
proof
  assume "(of_nat m :: 64 word) = of_nat n"
  then have "unat (of_nat m :: 64 word) = unat (of_nat n :: 64 word)" by simp
  then show "m = n" using assms by (simp add: unat_of_nat)
qed simp

lemma linkedI:
  "(\<And>j. Suc j < length es \<Longrightarrow> ae_SequenceNumber (es ! Suc j) = ae_SequenceNumber (es ! j) + 1 \<and>
      ae_PreviousChecksum (es ! Suc j) = ae_Checksum (es ! j)) \<Longrightarrow> linked es"
proof (induction es rule: linked.induct)
  case (1 p e es)
  have "linked (e # es)" by (rule 1(1)) (use 1(2) [of "Suc _"] in simp)
  then show ?case using 1(2) [of 0] by simp
qed auto

lemma chain_of_nth:
  assumes "chain_of mac tenant g" "i < length g"
  shows "ae_TenantID (g ! i) = tenant" "ae_SequenceNumber (g ! i) = of_nat (Suc i)"
    "ae_Checksum (g ! i) = generateChecksum mac (g ! i)" "Suc i \<le> length g" "length g < 2 ^ 64"
    "0 < i \<Longrightarrow> ae_PreviousChecksum (g ! i) = ae_Checksum (g ! (i - 1))"
  using assms by (simp_all add: chain_of_def)

lemma chain_of_nonzero:
  assumes "chain_of mac tenant g" "e \<in> set g"
  shows "ae_SequenceNumber e \<noteq> 0"
proof -
  obtain i where i: "i < length g" "e = g ! i" using assms(2) by (metis in_set_conv_nth)
  have "(of_nat (Suc i) :: 64 word) \<noteq> of_nat 0"
    using chain_of_nth(4,5) [OF assms(1) i(1)] by (subst of_nat_64_eq) auto
  then show ?thesis using chain_of_nth(2) [OF assms(1) i(1)] i(2) by simp
qed

lemma chain_of_piece_verifies:
  assumes "chain_of mac tenant g"
  shows "verify_from mac None (take k (drop i g)) = []"
proof -
  have "linked (take k (drop i g))"
  proof (rule linkedI)
    fix j assume "Suc j < length (take k (drop i g))"
    moreover then have "i + Suc j < length g" "i + j < length g" by auto
    ultimately show "ae_SequenceNumber (take k (drop i g) ! Suc j) = ae_SequenceNumber (take k (drop i g) ! j) + 1 \<and>
        ae_PreviousChecksum (take k (drop i g) ! Suc j) = ae_Checksum (take k (drop i g) ! j)"
      using chain_of_nth [OF assms, of "i + j"] chain_of_nth [OF assms, of "i + Suc j"] by simp
  qed
  moreover have "ae_SequenceNumber e \<noteq> 0 \<and> ae_Checksum e = generateChecksum mac e" if "e \<in> set (take k (drop i g))" for e
  proof -
    have e: "e \<in> set g" using that by (meson in_set_dropD in_set_takeD)
    then show ?thesis using chain_of_nonzero [OF assms e] chain_of_nth(3) [OF assms] by (metis in_set_conv_nth)
  qed
  ultimately show ?thesis by (simp add: verify_from_ok)
qed

lemma chain_of_sorted: "chain_of mac tenant g \<Longrightarrow> sorted (map ae_SequenceNumber g) \<and> distinct (map ae_SequenceNumber g)"
proof -
  assume g: "chain_of mac tenant g"
  have "(of_nat (Suc i) :: 64 word) \<le> of_nat (Suc j)" if "i \<le> j" "j < length g" for i j
    using that chain_of_nth(5) [OF g that(2)] by (simp add: word_le_nat_alt unat_of_nat del: of_nat_Suc)
  moreover have ne: "(of_nat (Suc i) :: 64 word) \<noteq> of_nat (Suc j)" if "i < length g" "j < length g" "i \<noteq> j" for i j
    using that chain_of_nth(5) [OF g that(1)] by (subst of_nat_64_eq) auto
  ultimately have "sorted (map ae_SequenceNumber g)"
    by (auto simp: sorted_iff_nth_mono chain_of_nth(2) [OF g] simp del: of_nat_Suc)
  moreover have "distinct (map ae_SequenceNumber g)"
    using ne by (auto simp: distinct_conv_nth chain_of_nth(2) [OF g] simp del: of_nat_Suc)
  ultimately show ?thesis by simp
qed


lemma sort_piece:
  assumes "chain_of mac tenant g" and "map_order ord"
  shows "sort_key ae_SequenceNumber (ord (take k (drop i g))) = take k (drop i g)"
proof (rule sort_key_inj_key_eq)
  show "mset (ord (take k (drop i g))) = mset (take k (drop i g))" by (rule map_orderD [OF assms(2)])
  have "inj_on ae_SequenceNumber (set g)" using chain_of_sorted [OF assms(1)] by (simp add: distinct_map)
  then show "inj_on ae_SequenceNumber (set (ord (take k (drop i g))))"
    using set_take_subset [of k "drop i g"] set_drop_subset [of i g] map_orderD [OF assms(2)]
    by (metis inj_on_subset subset_trans)
  show "sorted (map ae_SequenceNumber (take k (drop i g)))"
    using chain_of_sorted [OF assms(1)] by (simp add: take_map [symmetric] drop_map [symmetric] sorted_wrt_take sorted_wrt_drop)
qed

lemma generateChecksum_checksum [simp]: "generateChecksum mac (e\<lparr>ae_Checksum := c\<rparr>) = generateChecksum mac e"
  by (simp add: generateChecksum_def checksum_input_def checksum_fields_def)

definition chain_head :: "AuditEntry list \<Rightarrow> 64 word \<times> string" where
  "chain_head g = (if g = [] then (0, []) else (ae_SequenceNumber (last g), ae_Checksum (last g)))"

lemma chain_of_Nil [simp]: "chain_of mac tenant []"
  by (simp add: chain_of_def)

lemma chain_of_snoc:
  assumes "chain_of mac tenant g" and "Suc (length g) < 2 ^ 64"
  shows "chain_of mac tenant (g @ [chained_entry mac tenant (chain_head g) e])"
proof -
  have "fst (chain_head g) = of_nat (length g)"
    using chain_of_nth(2) [OF assms(1), of "length g - 1"]
    by (cases "g = []") (auto simp: chain_head_def last_conv_nth Suc_diff_le simp del: of_nat_Suc)
  then show ?thesis using assms
    by (auto simp: chain_of_def chained_entry_def Let_def nth_append chain_head_def last_conv_nth less_Suc_eq)
qed

definition sample_entry :: "string \<Rightarrow> string \<Rightarrow> AuditEntry" where
  "sample_entry i action =
     \<lparr>ae_ID = i, ae_TenantID = ''acme'', ae_Timestamp = 1500000000, ae_EventType = ''authorization'',
      ae_Action = action, ae_UserID = ''alice'', ae_UserType = ''human'', ae_SessionID = [],
      ae_ResourceType = ''role'', ae_ResourceID = ''viewer'', ae_ResourceName = [], ae_Result = ''success'',
      ae_ErrorCode = [], ae_ErrorMessage = [], ae_RequestID = [], ae_IPAddress = [], ae_UserAgent = [],
      ae_Method = [], ae_Path = [], ae_Details = Some [], ae_Changes = None, ae_Tags = [''rbac''],
      ae_Severity = ''low'', ae_Source = ''controller'', ae_Version = ''1.0'', ae_Checksum = [],
      ae_SequenceNumber = 0, ae_PreviousChecksum = []\<rparr>"

definition sample_chain :: "AuditEntry list" where
  "sample_chain =
     (let e = chained_entry (\<lambda>s. s) ''acme'' (chain_head []) (sample_entry ''e1'' ''grant'')
      in [e, chained_entry (\<lambda>s. s) ''acme'' (chain_head [e]) (sample_entry ''e2'' ''revoke'')])"

lemma sample_chain_ok: "chain_of (\<lambda>s. s) ''acme'' sample_chain"
proof -
  define e where "e = chained_entry (\<lambda>s. s) ''acme'' (chain_head []) (sample_entry ''e1'' ''grant'')"
  have "chain_of (\<lambda>s. s) ''acme'' [e]"
    using chain_of_snoc [of "\<lambda>s. s" "''acme''" "[]"] by (simp add: e_def)
  from chain_of_snoc [OF this, of "sample_entry ''e2'' ''revoke''"]
  show ?thesis by (simp add: sample_chain_def Let_def e_def)
qed

lemma sample_chain_length: "length sample_chain = 2"
  by (simp add: sample_chain_def Let_def)

text \<open>Every contiguous piece of a tenant's chain, listed in any order, verifies without a break:
  entries missing at the start or at the end are not noticed.\<close>

theorem VerifyChain_accepts_pieces:
  assumes "chain_of mac tenant g" and "map_order ord"
  shows "VerifyChain mac ord (take k (drop i g)) = []"
  by (simp add: VerifyChain_def sort_piece [OF assms] chain_of_piece_verifies [OF assms(1)])


theorem VerifyChain_accepts_pieces_witness:
  "VerifyChain (\<lambda>s. s) rev [sample_chain ! 1] = []"
proof -
  have "take 1 (drop 1 sample_chain) = [sample_chain ! 1]"
    by (simp add: sample_chain_def Let_def)
  then show ?thesis using VerifyChain_accepts_pieces [OF sample_chain_ok map_order_rev, of 1 1] by simp
qed

lemma tampering_step:
  assumes c: "\<And>T. chain_of mac T (book T)"
    and inj: "inj_on mac (checksum_input ` (A \<union> (\<Union>T. set (book T))))"
    and known: "\<And>e. e \<in> A \<Longrightarrow> \<exists>T i. i < length (book T) \<and> same_entry e (book T ! i)"
    and "set es \<subseteq> A" "linked (e # es)" "e \<in> A" "\<forall>d \<in> set (e # es). ae_SequenceNumber d \<noteq> 0"
    and "i < length (book T)" "same_entry e (book T ! i)"
  shows "list_all2 same_entry (e # es) (take (Suc (length es)) (drop i (book T)))"
  using assms(4-)
proof (induction es arbitrary: e i)
  case Nil
  then show ?case by (cases "drop i (book T)") (auto simp: nth_via_drop)
next
  case (Cons d es)
  obtain T' j where j: "j < length (book T')" "same_entry d (book T' ! j)" using known [of d] Cons.prems by auto
  let ?h = "book T ! i" and ?k = "book T' ! (j - 1)"
  have d: "ae_SequenceNumber (book T' ! j) = ae_SequenceNumber ?h + 1" "ae_PreviousChecksum (book T' ! j) = ae_Checksum ?h"
    using Cons.prems(2,6) j(2) by (auto simp: same_entry_def same_content_def)
  have "j \<noteq> 0"
  proof
    assume "j = 0"
    then have "ae_SequenceNumber ?h = 0" using d(1) chain_of_nth(2) [OF c j(1)] by simp
    then show False using Cons.prems(4,6) by (auto simp: same_entry_def same_content_def)
  qed
  then have k: "j - 1 < length (book T')" "ae_Checksum ?k = ae_Checksum ?h"
    using j(1) d(2) chain_of_nth(6) [OF c j(1)] by auto
  then have "mac (checksum_input ?k) = mac (checksum_input ?h)"
    using chain_of_nth(3) [OF c k(1)] chain_of_nth(3) [OF c Cons.prems(5)] by (simp add: generateChecksum_def)
  then have same: "same_content ?k ?h"
    using inj_onD [OF inj] nth_mem [OF k(1)] nth_mem [OF Cons.prems(5)] checksum_input_eq by blast
  then have T: "T' = T" using chain_of_nth(1) [OF c k(1)] chain_of_nth(1) [OF c Cons.prems(5)]
    by (simp add: same_content_def)
  have "(of_nat (Suc (j - 1)) :: 64 word) = of_nat (Suc i)"
    using same chain_of_nth(2) [OF c k(1)] chain_of_nth(2) [OF c Cons.prems(5)]
    by (simp add: same_content_def del: of_nat_Suc)
  then have "Suc (j - 1) = Suc i"
    using chain_of_nth(4,5) [OF c k(1)] chain_of_nth(4,5) [OF c Cons.prems(5)] by (subst (asm) of_nat_64_eq) auto
  then have ji: "j = Suc i" using \<open>j \<noteq> 0\<close> by simp
  have "list_all2 same_entry (d # es) (take (Suc (length es)) (drop (Suc i) (book T)))"
    using Cons.prems j T ji by (intro Cons.IH) auto
  then show ?case using Cons.prems(5,6) by (simp add: Cons_nth_drop_Suc [symmetric])
qed

text \<open>C8: evidence of tampering. Let a list of entries carry only checksums that were issued with the
  key, and let no two entries collide. If it verifies without a break, then it is, sorted, a
  contiguous piece of one tenant's chain: no entry of it was changed, left out in between,
  added or taken from another chain, except for the fraction of a second of its time.\<close>

theorem VerifyChain_detects_tampering:
  assumes "\<And>T. chain_of mac T (book T)"
    and "inj_on mac (checksum_input ` (set es \<union> (\<Union>T. set (book T))))"
    and "\<forall>e \<in> set es. VerifyIntegrity mac e \<longrightarrow> ae_Checksum e \<in> ae_Checksum ` (\<Union>T. set (book T))"
    and "map_order ord" and "VerifyChain mac ord es = []"
  shows "\<exists>T i. list_all2 same_entry (sort_key ae_SequenceNumber (ord es)) (take (length es) (drop i (book T)))"
proof (cases "sort_key ae_SequenceNumber (ord es)")
  case Nil
  then show ?thesis using map_orderD(3) [OF assms(4), of es] by (metis length_0_conv length_sort list_all2_Nil take0)
next
  case (Cons e ds)
  have s: "set (e # ds) = set es" "length es = Suc (length ds)"
    using map_orderD(2,3) [OF assms(4), of es] by (metis Cons set_sort, metis Cons length_Cons length_sort)
  have v: "linked (e # ds)" "\<And>d. d \<in> set es \<Longrightarrow> ae_SequenceNumber d \<noteq> 0 \<and> ae_Checksum d = generateChecksum mac d"
    using assms(5) s(1) unfolding VerifyChain_def Cons verify_from_ok by auto
  have known: "\<exists>T i. i < length (book T) \<and> same_entry d (book T ! i)" if d: "d \<in> set es" for d
  proof -
    obtain T h where h: "h \<in> set (book T)" "ae_Checksum d = ae_Checksum h"
      using assms(3) d v(2) [OF d] by (auto simp: VerifyIntegrity_def)
    then obtain i where i: "i < length (book T)" "h = book T ! i" by (metis in_set_conv_nth)
    then have "mac (checksum_input d) = mac (checksum_input h)"
      using h(2) v(2) [OF d] chain_of_nth(3) [OF assms(1) i(1)] by (simp add: generateChecksum_def)
    then have "same_content d h"
      using inj_onD [OF assms(2)] d h(1) checksum_input_eq by blast
    then show ?thesis using i h(2) by (auto simp: same_entry_def)
  qed
  obtain T i where "i < length (book T)" "same_entry e (book T ! i)" using known [of e] s(1) by auto
  then have "list_all2 same_entry (e # ds) (take (Suc (length ds)) (drop i (book T)))"
    using s v known by (intro tampering_step [OF assms(1,2)]) auto
  then show ?thesis using Cons s(2) by auto
qed


theorem VerifyChain_detects_tampering_witness:
  "VerifyChain (\<lambda>s. s) rev sample_chain = [] \<and>
   (\<exists>T i. list_all2 same_entry (sort_key ae_SequenceNumber (rev sample_chain))
      (take (length sample_chain) (drop i (if T = ''acme'' then sample_chain else []))))"
proof -
  let ?book = "\<lambda>T. if T = ''acme'' then sample_chain else []"
  have v: "VerifyChain (\<lambda>s. s) rev sample_chain = []"
    using chain_of_piece_verifies [OF sample_chain_ok, of 2 0] sort_piece [OF sample_chain_ok map_order_rev, of 2 0]
    by (simp add: VerifyChain_def sample_chain_length)
  have "\<exists>T i. list_all2 same_entry (sort_key ae_SequenceNumber (rev sample_chain))
      (take (length sample_chain) (drop i (?book T)))"
  proof (rule VerifyChain_detects_tampering [OF _ _ _ map_order_rev v])
    show "chain_of (\<lambda>s. s) T (?book T)" for T using sample_chain_ok by simp
    show "\<forall>e \<in> set sample_chain. VerifyIntegrity (\<lambda>s. s) e \<longrightarrow> ae_Checksum e \<in> ae_Checksum ` (\<Union>T. set (?book T))"
      by auto
  qed (simp add: inj_on_def)
  then show ?thesis using v by simp
qed

end
