(* ===== verification/Audit_Log.thy ===== *)
theory Audit_Log
  imports Audit_Chain
begin

text \<open>
  Recording audit events: the queue, the drain and the retries of \<open>pkg/audit/manager.go\<close>, and the
  chained append of \<open>pkg/storage/providers/sqlite/audit_store.go\<close> with \<open>retry.go\<close>. The JSON columns
  of that store and of the PostgreSQL store (\<open>pkg/storage/providers/database/utils.go\<close>) are the
  objects their text encodes. An event is given as the entry built for it.
\<close>

section \<open>JSON columns\<close>

fun decoded :: "json \<Rightarrow> json" where
  "decoded (VString s) = VString (json_coerced s)"
| "decoded (VList vs) = VList (map decoded vs)"
| "decoded (VMap kvs) = VMap (map (\<lambda>(k, v). (json_coerced k, decoded v)) kvs)"
| "decoded v = v"

definition decoded_object :: "object \<Rightarrow> object" where
  "decoded_object kvs = map (\<lambda>(k, v). (json_coerced k, decoded v)) kvs"

text \<open>\<open>json.Marshal\<close> and \<open>json.Unmarshal\<close> of \<open>AuditChanges\<close>: empty members are left out.\<close>

definition changes_object :: "AuditChanges \<Rightarrow> object" where
  "changes_object c =
     (case ch_Before c of Some (kv # kvs) \<Rightarrow> [(''before'', VMap (kv # kvs))] | _ \<Rightarrow> []) @
     (case ch_After c of Some (kv # kvs) \<Rightarrow> [(''after'', VMap (kv # kvs))] | _ \<Rightarrow> []) @
     (if ch_Fields c \<noteq> [] then [(''fields'', VList (map VString (ch_Fields c)))] else [])"

fun string_of :: "json \<Rightarrow> string" where
  "string_of (VString s) = s"
| "string_of _ = []"

definition object_changes :: "object \<Rightarrow> AuditChanges" where
  "object_changes kvs =
     (let member = (\<lambda>k. case map_of kvs k of Some (VMap m) \<Rightarrow> Some m | _ \<Rightarrow> None)
      in \<lparr>ch_Before = member ''before'', ch_After = member ''after'',
          ch_Fields = (case map_of kvs ''fields'' of Some (VList vs) \<Rightarrow> map string_of vs | _ \<Rightarrow> [])\<rparr>)"

text \<open>PostgreSQL.\<close>

definition serializeMetadata :: "object option \<Rightarrow> object" where
  "serializeMetadata metadata = (case metadata of None \<Rightarrow> [] | Some m \<Rightarrow> m)"

definition deserializeMetadata :: "object \<Rightarrow> object option" where
  "deserializeMetadata data = Some (decoded_object data)"

definition serializeAuditChanges :: "AuditChanges option \<Rightarrow> object" where
  "serializeAuditChanges changes = (case changes of None \<Rightarrow> [] | Some c \<Rightarrow> changes_object c)"

definition deserializeAuditChanges :: "object \<Rightarrow> AuditChanges option" where
  "deserializeAuditChanges data = Some (object_changes (decoded_object data))"

definition database_read :: "AuditEntry \<Rightarrow> AuditEntry" where
  "database_read e = e\<lparr>ae_Details := deserializeMetadata (serializeMetadata (ae_Details e)),
     ae_Changes := deserializeAuditChanges (serializeAuditChanges (ae_Changes e))\<rparr>"

text \<open>SQLite: an empty object of changes is read as no changes.\<close>

definition populateAuditEntry :: "AuditEntry \<Rightarrow> AuditEntry" where
  "populateAuditEntry e =
     (let changes = serializeAuditChanges (ae_Changes e)
      in e\<lparr>ae_Details := Some (decoded_object (serializeMetadata (ae_Details e))),
           ae_Changes := (if changes = [] then None else Some (object_changes (decoded_object changes))),
           ae_Tags := map json_coerced (ae_Tags e)\<rparr>)"

section \<open>The chained append of SQLite\<close>

datatype audit_error =
    EntryIDEmpty | ErrImmutable | DatabaseBusy | StoreFailed | CommitFailed
  | ErrTenantIDRequired | ErrUserIDRequired | ErrActionRequired | ErrResourceTypeRequired | ErrResourceIDRequired
  | ValidationFailed audit_error | ManagerStopped | ContextDone | LostEntries nat

text \<open>
  What happens to one attempt: it proceeds, finds the database locked, breaks off before the
  commit and is rolled back, or its commit reports an error, applied or not.
\<close>

datatype attempt = Proceeds | Locked | Breaks | CommitBreaks bool

definition table_head :: "string \<Rightarrow> AuditEntry list \<Rightarrow> 64 word \<times> string" where
  "table_head tenantID rows =
     chain_head (sort_key ae_SequenceNumber (filter (\<lambda>r. ae_TenantID r = tenantID) rows))"

definition appendChainedEntryOnce ::
    "(string \<Rightarrow> string) \<Rightarrow> string \<Rightarrow> AuditEntry \<Rightarrow> attempt \<Rightarrow> AuditEntry list \<Rightarrow> audit_error option \<times> AuditEntry list" where
  "appendChainedEntryOnce mac tenantID entry a rows =
     (let entry' = chained_entry mac tenantID (table_head tenantID rows) entry
      in case a of
           Locked \<Rightarrow> (Some DatabaseBusy, rows)
         | Breaks \<Rightarrow> (Some StoreFailed, rows)
         | _ \<Rightarrow>
             if ae_ID entry \<in> ae_ID ` set rows then (Some ErrImmutable, rows)
             else (case a of
                     CommitBreaks applied \<Rightarrow> (Some CommitFailed, if applied then rows @ [entry'] else rows)
                   | _ \<Rightarrow> (None, rows @ [entry'])))"

text \<open>The outcomes of the attempts to come are a list; when it ends, attempts proceed.\<close>

fun next_attempt :: "attempt list \<Rightarrow> attempt \<times> attempt list" where
  "next_attempt [] = (Proceeds, [])"
| "next_attempt (a # as) = (a, as)"

definition busyMaxAttempts :: nat where "busyMaxAttempts = 6"

fun retryOnBusy ::
    "nat \<Rightarrow> (attempt \<Rightarrow> 's \<Rightarrow> audit_error option \<times> 's) \<Rightarrow> attempt list \<Rightarrow> 's
     \<Rightarrow> audit_error option \<times> 's \<times> attempt list" where
  "retryOnBusy 0 fn as s = (Some DatabaseBusy, s, as)"
| "retryOnBusy (Suc n) fn as s =
     (let (a, as) = next_attempt as; (err, s) = fn a s
      in if err = Some DatabaseBusy then retryOnBusy n fn as s else (err, s, as))"

definition AppendChainedEntry ::
    "(string \<Rightarrow> string) \<Rightarrow> string \<Rightarrow> AuditEntry \<Rightarrow> attempt list \<Rightarrow> AuditEntry list
     \<Rightarrow> audit_error option \<times> AuditEntry list \<times> attempt list" where
  "AppendChainedEntry mac tenantID entry as rows =
     (if ae_ID entry = [] then (Some EntryIDEmpty, rows, as)
      else retryOnBusy busyMaxAttempts (appendChainedEntryOnce mac tenantID entry) as rows)"

section \<open>The manager\<close>

text \<open>\<open>am_stop\<close> and \<open>am_done\<close> tell whether the channels are closed, \<open>am_rows\<close> is the store.\<close>

record AuditManager =
  am_queue :: "AuditEntry list"
  am_stop :: bool
  am_done :: bool
  am_lostEntries :: nat
  am_rows :: "AuditEntry list"

definition new_manager :: "AuditEntry list \<Rightarrow> AuditManager" where
  "new_manager rows = \<lparr>am_queue = [], am_stop = False, am_done = False, am_lostEntries = 0, am_rows = rows\<rparr>"

definition defaultQueueCapacity :: nat where "defaultQueueCapacity = 1024"
definition defaultDrainBatchSize :: nat where "defaultDrainBatchSize = 256"
definition maxAppendAttempts :: nat where "maxAppendAttempts = 3"

fun append_attempts ::
    "nat \<Rightarrow> audit_error option \<Rightarrow> (string \<Rightarrow> string) \<Rightarrow> AuditEntry \<Rightarrow> attempt list \<Rightarrow> AuditEntry list
     \<Rightarrow> audit_error option \<times> AuditEntry list \<times> attempt list" where
  "append_attempts 0 lastErr mac entry as rows = (lastErr, rows, as)"
| "append_attempts (Suc n) lastErr mac entry as rows =
     (case AppendChainedEntry mac (ae_TenantID entry) entry as rows of
        (None, rows, as) \<Rightarrow> (None, rows, as)
      | (Some err, rows, as) \<Rightarrow> append_attempts n (Some err) mac entry as rows)"

definition appendWithRetry ::
    "(string \<Rightarrow> string) \<Rightarrow> AuditEntry \<Rightarrow> attempt list \<Rightarrow> AuditEntry list
     \<Rightarrow> audit_error option \<times> AuditEntry list \<times> attempt list" where
  "appendWithRetry = append_attempts maxAppendAttempts None"

fun writeBatch :: "(string \<Rightarrow> string) \<Rightarrow> AuditEntry list \<Rightarrow> attempt list \<Rightarrow> AuditManager \<Rightarrow> AuditManager \<times> attempt list" where
  "writeBatch mac [] as m = (m, as)"
| "writeBatch mac (entry # entries) as m =
     (let (err, rows, as) = appendWithRetry mac entry as (am_rows m);
          m = m\<lparr>am_rows := rows, am_lostEntries := am_lostEntries m + (if err = None then 0 else 1)\<rparr>
      in writeBatch mac entries as m)"

definition collectBatch :: "AuditManager \<Rightarrow> AuditEntry list \<times> AuditManager" where
  "collectBatch m = (take defaultDrainBatchSize (am_queue m), m\<lparr>am_queue := drop defaultDrainBatchSize (am_queue m)\<rparr>)"

lemma writeBatch_frame:
  "am_queue (fst (writeBatch mac es as m)) = am_queue m \<and> am_stop (fst (writeBatch mac es as m)) = am_stop m \<and>
   am_done (fst (writeBatch mac es as m)) = am_done m"
  by (induction es arbitrary: as m) (auto split: prod.splits)

text \<open>One round of the drain loop, and the rounds until the queue is found empty.\<close>

definition drain_round :: "(string \<Rightarrow> string) \<Rightarrow> attempt list \<Rightarrow> AuditManager \<Rightarrow> AuditManager \<times> attempt list" where
  "drain_round mac as m = (let (batch, m) = collectBatch m in writeBatch mac batch as m)"

function drainRemaining :: "(string \<Rightarrow> string) \<Rightarrow> attempt list \<Rightarrow> AuditManager \<Rightarrow> AuditManager \<times> attempt list" where
  "drainRemaining mac as m =
     (if am_queue m = [] then (m, as)
      else let (m, as) = drain_round mac as m in drainRemaining mac as m)"
  by pat_completeness auto
termination
proof (relation "measure (\<lambda>(mac, as, m). length (am_queue m))", goal_cases)
  case (2 mac as m x xa y)
  then have "am_queue xa = drop defaultDrainBatchSize (am_queue m)"
    using writeBatch_frame [of mac "take defaultDrainBatchSize (am_queue m)" as
      "m\<lparr>am_queue := drop defaultDrainBatchSize (am_queue m)\<rparr>"]
    by (simp add: drain_round_def collectBatch_def Let_def) (metis fst_conv)
  then show ?case using 2(1) by (simp add: defaultDrainBatchSize_def)
qed simp

declare drainRemaining.simps [simp del]

definition lostEntriesErr :: "AuditManager \<Rightarrow> audit_error option" where
  "lostEntriesErr m = (if am_lostEntries m = 0 then None else Some (LostEntries (am_lostEntries m)))"

definition validateEntry :: "AuditEntry \<Rightarrow> audit_error option" where
  "validateEntry entry =
     (if ae_TenantID entry = [] then Some ErrTenantIDRequired
      else if ae_UserID entry = [] then Some ErrUserIDRequired
      else if ae_Action entry = [] then Some ErrActionRequired
      else if ae_ResourceType entry = [] then Some ErrResourceTypeRequired
      else if ae_ResourceID entry = [] then Some ErrResourceIDRequired
      else None)"

text \<open>
  \<open>RecordEvent\<close> up to the first select of \<open>enqueue\<close>, and its second select, in which \<open>choice\<close> is the
  case that is taken; a case that is not ready cannot be.
\<close>

datatype choice = TakeSend | TakeStop | TakeCancel

definition record_begin :: "AuditEntry \<Rightarrow> AuditManager \<Rightarrow> audit_error option" where
  "record_begin entry m =
     (case validateEntry entry of
        Some e \<Rightarrow> Some (ValidationFailed e)
      | None \<Rightarrow> if am_stop m then Some ManagerStopped else None)"

definition enqueue_select :: "choice \<Rightarrow> AuditEntry \<Rightarrow> AuditManager \<Rightarrow> (audit_error option \<times> AuditManager) option" where
  "enqueue_select choice entry m =
     (case choice of
        TakeSend \<Rightarrow>
          if length (am_queue m) < defaultQueueCapacity
          then Some (None, m\<lparr>am_queue := am_queue m @ [entry]\<rparr>) else None
      | TakeStop \<Rightarrow> if am_stop m then Some (Some ManagerStopped, m) else None
      | TakeCancel \<Rightarrow> Some (Some ContextDone, m))"

text \<open>
  \<open>Flush\<close> and \<open>Stop\<close> with a context that is done before the request is taken, before it is
  answered, or not at all; the drain goes on regardless.
\<close>

datatype deadline = Background | DoneEarly | DoneLate

definition Flush ::
    "(string \<Rightarrow> string) \<Rightarrow> deadline \<Rightarrow> attempt list \<Rightarrow> AuditManager \<Rightarrow> audit_error option \<times> AuditManager" where
  "Flush mac ctx as m =
     (if am_done m then (lostEntriesErr m, m)
      else if ctx = DoneEarly then (Some ContextDone, m)
      else let m = fst (drainRemaining mac as m)
           in (if ctx = DoneLate then Some ContextDone else lostEntriesErr m, m))"

definition Stop ::
    "(string \<Rightarrow> string) \<Rightarrow> deadline \<Rightarrow> attempt list \<Rightarrow> AuditManager \<Rightarrow> audit_error option \<times> AuditManager" where
  "Stop mac ctx as m =
     (if am_stop m then (lostEntriesErr m, m)
      else let m = (fst (drainRemaining mac as m))\<lparr>am_stop := True, am_done := True\<rparr>
           in (if ctx \<noteq> Background then Some ContextDone else lostEntriesErr m, m))"

end
