(* ===== verification/Audit_Laws.thy ===== *)
theory Audit_Laws
  imports Audit_Log
begin

text \<open>
  What holds of recording over every run: no accepted event is lost in silence, and what the
  SQLite store gives back verifies. Two theorems show where the code falls short: a call that
  overlaps \<open>Stop\<close>, and the changes column of the PostgreSQL store.
\<close>

section \<open>Appending\<close>

text \<open>The outcome of appending an entry: an error and no new row, or one new row.\<close>

definition append_ok ::
    "(string \<Rightarrow> string) \<Rightarrow> AuditEntry \<Rightarrow> AuditEntry list \<Rightarrow> audit_error option \<Rightarrow> AuditEntry list \<Rightarrow> bool" where
  "append_ok mac e rows err rows' \<longleftrightarrow>
     rows' = rows \<and> err \<noteq> None \<or>
     ae_ID e \<notin> ae_ID ` set rows \<and>
     rows' = rows @ [chained_entry mac (ae_TenantID e) (table_head (ae_TenantID e) rows) e]"

lemma chained_entry_fields [simp]:
  "ae_ID (chained_entry mac t h e) = ae_ID e" "ae_TenantID (chained_entry mac t h e) = t"
  "ae_Details (chained_entry mac t h e) = ae_Details e" "ae_Changes (chained_entry mac t h e) = ae_Changes e"
  "ae_Tags (chained_entry mac t h e) = ae_Tags e"
  by (simp_all add: chained_entry_def Let_def)

lemma append_ok_trans:
  "append_ok mac e rows (Some x) rows' \<Longrightarrow> append_ok mac e rows' err rows'' \<Longrightarrow> append_ok mac e rows err rows''"
  by (auto simp: append_ok_def)

lemma appendChainedEntryOnce_ok:
  "appendChainedEntryOnce mac (ae_TenantID e) e a rows = (err, rows') \<Longrightarrow> append_ok mac e rows err rows'"
  by (auto simp: appendChainedEntryOnce_def append_ok_def Let_def split: attempt.splits if_splits)

lemma retryOnBusy_ok:
  "retryOnBusy n (appendChainedEntryOnce mac (ae_TenantID e) e) as rows = (err, rows', as') \<Longrightarrow>
     append_ok mac e rows err rows'"
proof (induction n arbitrary: as rows)
  case 0
  then show ?case by (auto simp: append_ok_def)
next
  case (Suc n)
  obtain a as1 err1 rows1 where n: "next_attempt as = (a, as1)"
    and o: "appendChainedEntryOnce mac (ae_TenantID e) e a rows = (err1, rows1)" by (metis surj_pair)
  note ok = appendChainedEntryOnce_ok [OF o]
  show ?case
  proof (cases "err1 = Some DatabaseBusy")
    case True
    then have "append_ok mac e rows1 err rows'" using Suc n o by (auto intro: Suc.IH)
    then show ?thesis using append_ok_trans ok True by blast
  qed (use Suc.prems n o ok in auto)
qed

lemma AppendChainedEntry_ok:
  "AppendChainedEntry mac (ae_TenantID e) e as rows = (err, rows', as') \<Longrightarrow> append_ok mac e rows err rows'"
  by (cases "ae_ID e = []") (auto simp: AppendChainedEntry_def append_ok_def [of _ _ _ "Some EntryIDEmpty"] intro: retryOnBusy_ok)

lemma append_attempts_ok:
  "append_attempts n prior mac e as rows = (err, rows', as') \<Longrightarrow> 0 < n \<or> prior \<noteq> None \<Longrightarrow> append_ok mac e rows err rows'"
proof (induction n arbitrary: prior as rows)
  case 0
  then show ?case by (auto simp: append_ok_def)
next
  case (Suc n)
  obtain err1 rows1 as1 where a: "AppendChainedEntry mac (ae_TenantID e) e as rows = (err1, rows1, as1)"
    by (metis prod_cases3)
  note ok = AppendChainedEntry_ok [OF a]
  show ?case
  proof (cases err1)
    case (Some x)
    then have "append_ok mac e rows1 err rows'" using Suc.prems a by (auto intro!: Suc.IH [of "Some x" as1])
    then show ?thesis using append_ok_trans ok Some by blast
  qed (use Suc.prems a ok in auto)
qed

lemma appendWithRetry_ok:
  "appendWithRetry mac e as rows = (err, rows', as') \<Longrightarrow> append_ok mac e rows err rows'"
  unfolding appendWithRetry_def by (erule append_attempts_ok) (simp add: maxAppendAttempts_def)

section \<open>Chains\<close>

definition tenant_rows :: "string \<Rightarrow> AuditEntry list \<Rightarrow> AuditEntry list" where
  "tenant_rows t rows = filter (\<lambda>r. ae_TenantID r = t) rows"

definition rows_ok :: "(string \<Rightarrow> string) \<Rightarrow> AuditEntry list \<Rightarrow> bool" where
  "rows_ok mac rows \<longleftrightarrow> length rows < 2 ^ 64 \<longrightarrow> (\<forall>t. chain_of mac t (tenant_rows t rows))"

lemma table_head_chain: "chain_of mac t (tenant_rows t rows) \<Longrightarrow> table_head t rows = chain_head (tenant_rows t rows)"
  using chain_of_sorted by (auto simp: table_head_def tenant_rows_def sort_key_id_if_sorted)

lemma append_rows_ok:
  assumes "rows_ok mac rows" and "append_ok mac e rows err rows'"
  shows "rows_ok mac rows'"
proof (cases "rows' = rows")
  case False
  then have r: "rows' = rows @ [chained_entry mac (ae_TenantID e) (table_head (ae_TenantID e) rows) e]"
    using assms(2) by (auto simp: append_ok_def)
  have "chain_of mac t (tenant_rows t rows')" if "length rows' < 2 ^ 64" for t
  proof -
    have c: "chain_of mac t (tenant_rows t rows)" for t using assms(1) that r by (auto simp: rows_ok_def)
    have "length (tenant_rows t rows) \<le> length rows" by (simp add: tenant_rows_def)
    then have "Suc (length (tenant_rows t rows)) < 2 ^ 64" using that r by simp
    then show ?thesis
      using chain_of_snoc [OF c] table_head_chain [OF c] c r by (auto simp: tenant_rows_def)
  qed
  then show ?thesis by (simp add: rows_ok_def)
qed (use assms in simp)

text \<open>An entry whose JSON survives being stored: its strings are valid and its changes are not empty.\<close>

definition json_stable :: "AuditEntry \<Rightarrow> bool" where
  "json_stable e \<longleftrightarrow>
     (case ae_Details e of None \<Rightarrow> True | Some m \<Rightarrow> decoded_object m = m) \<and>
     (case ae_Changes e of None \<Rightarrow> True
      | Some c \<Rightarrow> changes_object c \<noteq> [] \<and> decoded_object (changes_object c) = changes_object c) \<and>
     map json_coerced (ae_Tags e) = ae_Tags e"

lemma stable_chained [simp]: "json_stable (chained_entry mac t h e) = json_stable e"
  by (simp add: json_stable_def)

lemma canonicalDetails_cases:
  obtains "d = None" "canonicalDetails d = None" | "d = Some []" "canonicalDetails d = None"
  | kv kvs where "d = Some (kv # kvs)" "canonicalDetails d = Some (kv # kvs)"
proof (cases d)
  case (Some m)
  then show ?thesis using that by (cases m) (auto simp: canonicalDetails_def)
qed (use that in \<open>simp add: canonicalDetails_def\<close>)

lemma object_changes_object:
  "object_changes (changes_object c) =
     \<lparr>ch_Before = canonicalDetails (ch_Before c), ch_After = canonicalDetails (ch_After c), ch_Fields = ch_Fields c\<rparr>"
  by (rule canonicalDetails_cases [of "ch_Before c"]; rule canonicalDetails_cases [of "ch_After c"])
    (simp_all add: object_changes_def changes_object_def Let_def o_def)

lemma canonicalDetails_idem [simp]: "canonicalDetails (canonicalDetails d) = canonicalDetails d"
  by (simp add: canonicalDetails_def)

lemma populate_content:
  assumes "json_stable e"
  shows "checksum_input (populateAuditEntry e) = checksum_input e"
    "ae_Checksum (populateAuditEntry e) = ae_Checksum e"
    "ae_PreviousChecksum (populateAuditEntry e) = ae_PreviousChecksum e"
    "ae_SequenceNumber (populateAuditEntry e) = ae_SequenceNumber e"
    "ae_TenantID (populateAuditEntry e) = ae_TenantID e"
proof -
  have d: "canonicalDetails (Some (decoded_object (serializeMetadata (ae_Details e)))) = canonicalDetails (ae_Details e)"
    using assms by (auto simp: json_stable_def canonicalDetails_def serializeMetadata_def decoded_object_def split: option.splits)
  have c: "canonicalChanges (ae_Changes (populateAuditEntry e)) = canonicalChanges (ae_Changes e)"
  proof (cases "ae_Changes e")
    case (Some c)
    then have "changes_object c \<noteq> []" "decoded_object (changes_object c) = changes_object c"
      using assms by (auto simp: json_stable_def)
    then show ?thesis using Some
      by (simp add: populateAuditEntry_def serializeAuditChanges_def object_changes_object canonicalChanges_def Let_def)
  qed (simp add: populateAuditEntry_def serializeAuditChanges_def Let_def)
  have t: "ae_Tags (populateAuditEntry e) = ae_Tags e"
    using assms by (simp add: json_stable_def populateAuditEntry_def Let_def)
  show "checksum_input (populateAuditEntry e) = checksum_input e"
    unfolding checksum_input_eq same_content_def using c t d by (simp add: populateAuditEntry_def Let_def)
qed (simp_all add: populateAuditEntry_def Let_def)

lemma chain_of_read:
  assumes "chain_of mac t g" and "list_all json_stable g"
  shows "chain_of mac t (map populateAuditEntry g)"
proof -
  have "json_stable (g ! i)" if "i < length g" for i using assms(2) that by (simp add: list_all_length)
  then show ?thesis using assms(1) by (auto simp: chain_of_def populate_content generateChecksum_def)
qed


section \<open>Runs\<close>

text \<open>
  \<open>as_waiting\<close> are the events of calls between the two selects of \<open>enqueue\<close>, \<open>as_accepted\<close> those
  whose call has returned without an error. \<open>Elsewhere\<close> is an append of another node.
\<close>

record audit_state =
  as_m :: AuditManager
  as_waiting :: "AuditEntry list"
  as_accepted :: "AuditEntry list"

datatype (plugins only: code size) audit_op =
    Submit AuditEntry | Select nat choice | Drain "attempt list"
  | DoFlush deadline "attempt list" | DoStop deadline "attempt list" | Elsewhere AuditEntry "attempt list"

definition audit_start :: "AuditEntry list \<Rightarrow> audit_state" where
  "audit_start rows = \<lparr>as_m = new_manager rows, as_waiting = [], as_accepted = []\<rparr>"

definition select_step :: "nat \<Rightarrow> choice \<Rightarrow> audit_state \<Rightarrow> audit_state" where
  "select_step i choice st =
     (if i < length (as_waiting st) then
        (case enqueue_select choice (as_waiting st ! i) (as_m st) of
           None \<Rightarrow> st
         | Some (err, m) \<Rightarrow>
             st\<lparr>as_m := m, as_waiting := take i (as_waiting st) @ drop (Suc i) (as_waiting st),
                as_accepted := as_accepted st @ (if err = None then [as_waiting st ! i] else [])\<rparr>)
      else st)"

primrec audit_op_step :: "(string \<Rightarrow> string) \<Rightarrow> audit_op \<Rightarrow> audit_state \<Rightarrow> audit_state" where
  "audit_op_step mac (Submit e) st =
     (if record_begin e (as_m st) = None then st\<lparr>as_waiting := as_waiting st @ [e]\<rparr> else st)"
| "audit_op_step mac (Select i choice) st = select_step i choice st"
| "audit_op_step mac (Drain as) st =
     (if am_done (as_m st) then st else st\<lparr>as_m := fst (drain_round mac as (as_m st))\<rparr>)"
| "audit_op_step mac (DoFlush ctx as) st = st\<lparr>as_m := snd (Flush mac ctx as (as_m st))\<rparr>"
| "audit_op_step mac (DoStop ctx as) st = st\<lparr>as_m := snd (Stop mac ctx as (as_m st))\<rparr>"
| "audit_op_step mac (Elsewhere e as) st =
     st\<lparr>as_m := (as_m st)\<lparr>am_rows := fst (snd (AppendChainedEntry mac (ae_TenantID e) e as (am_rows (as_m st))))\<rparr>\<rparr>"

definition audit_step :: "(string \<Rightarrow> string) \<Rightarrow> audit_state \<Rightarrow> audit_op \<Rightarrow> audit_state" where
  "audit_step mac st op = audit_op_step mac op st"

primrec op_events :: "audit_op \<Rightarrow> AuditEntry list" where
  "op_events (Submit e) = [e]"
| "op_events (Select i choice) = []"
| "op_events (Drain as) = []"
| "op_events (DoFlush ctx as) = []"
| "op_events (DoStop ctx as) = []"
| "op_events (Elsewhere e as) = [e]"

text \<open>An event is stored when a row is that event with some place in the chain.\<close>

definition stored :: "(string \<Rightarrow> string) \<Rightarrow> AuditEntry list \<Rightarrow> AuditEntry \<Rightarrow> bool" where
  "stored mac rows e \<longleftrightarrow> (\<exists>head. chained_entry mac (ae_TenantID e) head e \<in> set rows)"

definition unstored :: "(string \<Rightarrow> string) \<Rightarrow> AuditEntry list \<Rightarrow> AuditEntry list \<Rightarrow> nat" where
  "unstored mac rows ws = length (filter (\<lambda>w. \<not> stored mac rows w) ws)"

text \<open>The accepted events are those taken from the queue, the missing ones of which are counted, and those in it.\<close>

definition accounted :: "(string \<Rightarrow> string) \<Rightarrow> AuditManager \<Rightarrow> AuditEntry list \<Rightarrow> bool" where
  "accounted mac m accepted \<longleftrightarrow>
     (\<exists>ws. mset accepted = mset ws + mset (am_queue m) \<and> unstored mac (am_rows m) ws \<le> am_lostEntries m)"

lemma stored_mono: "stored mac rows e \<Longrightarrow> set rows \<subseteq> set rows' \<Longrightarrow> stored mac rows' e"
  by (auto simp: stored_def)

lemma unstored_mono: "set rows \<subseteq> set rows' \<Longrightarrow> unstored mac rows' ws \<le> unstored mac rows ws"
  unfolding unstored_def by (rule length_filter_mono) (use stored_mono in blast)

lemma append_ok_stored:
  assumes "append_ok mac e rows err rows'"
  shows "set rows \<subseteq> set rows'" and "err = None \<Longrightarrow> stored mac rows' e"
  using assms by (auto simp: append_ok_def stored_def simp del: split_paired_Ex)

lemma writeBatch_accounts:
  "unstored mac (am_rows m) ws \<le> am_lostEntries m \<Longrightarrow> writeBatch mac es as m = (m', as') \<Longrightarrow>
     unstored mac (am_rows m') (ws @ es) \<le> am_lostEntries m'"
proof (induction es arbitrary: m as ws)
  case (Cons e es)
  obtain err rows as1 where a: "appendWithRetry mac e as (am_rows m) = (err, rows, as1)" by (metis prod_cases3)
  note ok = append_ok_stored [OF appendWithRetry_ok [OF a]]
  define m1 where "m1 = m\<lparr>am_rows := rows, am_lostEntries := am_lostEntries m + (if err = None then 0 else 1)\<rparr>"
  have "unstored mac rows (ws @ [e]) \<le> unstored mac rows ws + (if err = None then 0 else 1)"
    using ok(2) by (auto simp: unstored_def)
  also have "\<dots> \<le> am_lostEntries m1" using unstored_mono [OF ok(1), of mac ws] Cons.prems(1) by (simp add: m1_def)
  finally have "unstored mac (am_rows m1) (ws @ [e]) \<le> am_lostEntries m1" by (simp add: m1_def)
  from Cons.IH [OF this] show ?case using Cons.prems(2) a by (simp add: m1_def)
qed simp

lemma drain_round_queue: "am_queue (fst (drain_round mac as m)) = drop defaultDrainBatchSize (am_queue m)"
  by (simp add: drain_round_def collectBatch_def writeBatch_frame)

lemma drain_round_accounts:
  assumes "accounted mac m accepted"
  shows "accounted mac (fst (drain_round mac as m)) accepted"
proof -
  obtain ws where w: "mset accepted = mset ws + mset (am_queue m)" "unstored mac (am_rows m) ws \<le> am_lostEntries m"
    using assms by (auto simp: accounted_def)
  let ?m = "m\<lparr>am_queue := drop defaultDrainBatchSize (am_queue m)\<rparr>" and ?b = "take defaultDrainBatchSize (am_queue m)"
  obtain m' as' where r: "writeBatch mac ?b as ?m = (m', as')" by (metis surj_pair)
  have "unstored mac (am_rows m') (ws @ ?b) \<le> am_lostEntries m'" by (rule writeBatch_accounts [OF _ r]) (simp add: w(2))
  moreover have "am_queue m' = drop defaultDrainBatchSize (am_queue m)"
    using drain_round_queue [of mac as m] r by (simp add: drain_round_def collectBatch_def)
  moreover have "mset ?b + mset (drop defaultDrainBatchSize (am_queue m)) = mset (am_queue m)"
    by (simp only: mset_append [symmetric] append_take_drop_id)
  ultimately have "accounted mac m' accepted"
    unfolding accounted_def by (intro exI [of _ "ws @ ?b"]) (simp add: w(1))
  then show ?thesis using r by (simp add: drain_round_def collectBatch_def)
qed

text \<open>What every round of the drain keeps, the whole drain keeps; and it leaves the queue empty.\<close>

lemma drainRemaining_inv:
  assumes "\<And>m as. P m \<Longrightarrow> P (fst (drain_round mac as m))"
  shows "P m \<Longrightarrow> P (fst (drainRemaining mac as m)) \<and> am_queue (fst (drainRemaining mac as m)) = []"
proof (induction "length (am_queue m)" arbitrary: m as rule: less_induct)
  case less
  show ?case
  proof (cases "am_queue m = []")
    case True
    then show ?thesis using less.prems by (simp add: drainRemaining.simps)
  next
    case False
    obtain m1 as1 where r: "drain_round mac as m = (m1, as1)" by (metis surj_pair)
    have "length (am_queue m1) < length (am_queue m)"
      using drain_round_queue [of mac as m] r False by (simp add: defaultDrainBatchSize_def)
    moreover have "P m1" using assms [OF less.prems, of as] r by simp
    ultimately show ?thesis using less.hyps [of m1 as1] False r by (simp add: drainRemaining.simps [of mac as m])
  qed
qed

lemma drainRemaining_accounts:
  assumes "accounted mac m accepted"
  shows "accounted mac (fst (drainRemaining mac as m)) accepted" "am_queue (fst (drainRemaining mac as m)) = []"
  using drainRemaining_inv [of "\<lambda>m. accounted mac m accepted", OF drain_round_accounts assms] by auto

lemma accounted_rows: "accounted mac m accepted \<Longrightarrow> set (am_rows m) \<subseteq> set rows \<Longrightarrow> accounted mac (m\<lparr>am_rows := rows\<rparr>) accepted"
  by (auto simp: accounted_def intro: order_trans [OF unstored_mono])

lemma accounted_frame [simp]:
  "accounted mac (m\<lparr>am_stop := b\<rparr>) accepted = accounted mac m accepted"
  "accounted mac (m\<lparr>am_done := b\<rparr>) accepted = accounted mac m accepted"
  by (simp_all add: accounted_def)

definition state_accounted :: "(string \<Rightarrow> string) \<Rightarrow> audit_state \<Rightarrow> bool" where
  "state_accounted mac st \<longleftrightarrow> accounted mac (as_m st) (as_accepted st)"

lemma select_step_accounts:
  assumes "state_accounted mac st"
  shows "state_accounted mac (select_step i choice st)"
proof (cases "i < length (as_waiting st) \<and> choice = TakeSend \<and> length (am_queue (as_m st)) < defaultQueueCapacity")
  case True
  obtain ws where "mset (as_accepted st) = mset ws + mset (am_queue (as_m st))"
    "unstored mac (am_rows (as_m st)) ws \<le> am_lostEntries (as_m st)"
    using assms by (auto simp: state_accounted_def accounted_def)
  then show ?thesis using True
    by (auto simp: select_step_def enqueue_select_def state_accounted_def accounted_def intro!: exI [of _ ws])
qed (use assms in \<open>auto simp: select_step_def enqueue_select_def state_accounted_def split: choice.splits\<close>)

lemma audit_step_accounts:
  assumes "state_accounted mac st"
  shows "state_accounted mac (audit_step mac st op)"
proof (cases op)
  case (Elsewhere e as)
  obtain err rows as1 where a: "AppendChainedEntry mac (ae_TenantID e) e as (am_rows (as_m st)) = (err, rows, as1)"
    by (metis prod_cases3)
  show ?thesis
    using assms append_ok_stored(1) [OF AppendChainedEntry_ok [OF a]] a accounted_rows
    by (simp add: Elsewhere audit_step_def state_accounted_def)
qed (use assms drainRemaining_accounts(1) drain_round_accounts select_step_accounts in
  \<open>auto simp: audit_step_def state_accounted_def Flush_def Stop_def Let_def\<close>)

interpretation audit_account: op_machine "audit_step mac" "state_accounted mac" "\<lambda>_. True" for mac
  by unfold_locales (rule audit_step_accounts)

text \<open>C12: no accepted event is lost in silence. Whatever calls, appends of other nodes and failures
  of the store came before, when \<open>Flush\<close> on a running manager or the first \<open>Stop\<close> returns without
  an error, every event accepted so far is in the store.\<close>

theorem flush_stores_accepted:
  assumes "st = foldl (audit_step mac) (audit_start rows) ops" and "\<not> am_stop (as_m st)" and "\<not> am_done (as_m st)"
    and "Flush mac ctx as (as_m st) = (None, m) \<or> Stop mac ctx as (as_m st) = (None, m)"
  shows "\<forall>e \<in> set (as_accepted st). stored mac (am_rows m) e"
proof -
  have "state_accounted mac (audit_start rows)"
    by (simp add: audit_start_def new_manager_def state_accounted_def accounted_def unstored_def)
  then have "accounted mac (as_m st) (as_accepted st)"
    using audit_account.run_inv [of mac "audit_start rows" ops] assms(1) by (simp add: state_accounted_def list.pred_True)
  note d = drainRemaining_accounts [OF this, of as]
  have "am_lostEntries m = 0" "am_rows m = am_rows (fst (drainRemaining mac as (as_m st)))"
    "am_lostEntries m = am_lostEntries (fst (drainRemaining mac as (as_m st)))"
    using assms(2-) by (auto simp: Flush_def Stop_def Let_def lostEntriesErr_def split: if_splits)
  then obtain ws where "mset (as_accepted st) = mset ws" "unstored mac (am_rows m) ws = 0"
    using d by (auto simp: accounted_def)
  then show ?thesis using mset_eq_setD by (fastforce simp: unstored_def filter_empty_conv)
qed

theorem flush_stores_accepted_witness:
  "\<exists>st m. st = foldl (audit_step (\<lambda>s. s)) (audit_start []) [Submit (sample_entry ''e1'' ''grant''), Select 0 TakeSend] \<and>
     Flush (\<lambda>s. s) Background [Locked, CommitBreaks False] (as_m st) = (None, m) \<and>
     stored (\<lambda>s. s) (am_rows m) (sample_entry ''e1'' ''grant'')"
proof -
  let ?e = "sample_entry ''e1'' ''grant''"
  define st where "st = foldl (audit_step (\<lambda>s. s)) (audit_start []) [Submit ?e, Select 0 TakeSend]"
  have st: "as_accepted st = [?e]" "am_queue (as_m st) = [?e]" "\<not> am_stop (as_m st)" "\<not> am_done (as_m st)"
    "am_rows (as_m st) = []" "am_lostEntries (as_m st) = 0" "ae_ID ?e \<noteq> []"
    by (simp_all add: st_def audit_step_def audit_start_def new_manager_def record_begin_def validateEntry_def
        sample_entry_def select_step_def enqueue_select_def defaultQueueCapacity_def)
  obtain m where m: "Flush (\<lambda>s. s) Background [Locked, CommitBreaks False] (as_m st) = (None, m)"
    using st by (auto simp: Flush_def drainRemaining.simps drain_round_def collectBatch_def defaultDrainBatchSize_def
        appendWithRetry_def maxAppendAttempts_def eval_nat_numeral AppendChainedEntry_def busyMaxAttempts_def
        appendChainedEntryOnce_def lostEntriesErr_def Let_def)
  have "\<forall>e \<in> set (as_accepted st). stored (\<lambda>s. s) (am_rows m) e"
    by (rule flush_stores_accepted [OF st_def st(3,4) disjI1 [OF m]])
  then show ?thesis using m st(1) st_def by auto
qed


section \<open>What the stores give back\<close>

definition chains_inv :: "(string \<Rightarrow> string) \<Rightarrow> audit_state \<Rightarrow> bool" where
  "chains_inv mac st \<longleftrightarrow> rows_ok mac (am_rows (as_m st)) \<and> list_all json_stable (am_rows (as_m st)) \<and>
     list_all json_stable (am_queue (as_m st)) \<and> list_all json_stable (as_waiting st)"

definition manager_inv :: "(string \<Rightarrow> string) \<Rightarrow> AuditManager \<Rightarrow> bool" where
  "manager_inv mac m \<longleftrightarrow> rows_ok mac (am_rows m) \<and> list_all json_stable (am_rows m) \<and> list_all json_stable (am_queue m)"

definition audit_op_ok :: "audit_op \<Rightarrow> bool" where
  "audit_op_ok op \<longleftrightarrow> list_all json_stable (op_events op)"

lemma append_stable:
  "append_ok mac e rows err rows' \<Longrightarrow> list_all json_stable rows \<Longrightarrow> json_stable e \<Longrightarrow> list_all json_stable rows'"
  by (auto simp: append_ok_def)

lemma writeBatch_rows:
  "rows_ok mac (am_rows m) \<Longrightarrow> list_all json_stable (am_rows m) \<Longrightarrow> list_all json_stable es \<Longrightarrow>
     writeBatch mac es as m = (m', as') \<Longrightarrow> rows_ok mac (am_rows m') \<and> list_all json_stable (am_rows m')"
proof (induction es arbitrary: m as)
  case (Cons e es)
  obtain err rows as1 where a: "appendWithRetry mac e as (am_rows m) = (err, rows, as1)" by (metis prod_cases3)
  note ok = appendWithRetry_ok [OF a]
  have "rows_ok mac rows" "list_all json_stable rows"
    using append_rows_ok [OF Cons.prems(1) ok] append_stable [OF ok Cons.prems(2)] Cons.prems(3) by auto
  moreover define m1 where "m1 = m\<lparr>am_rows := rows, am_lostEntries := am_lostEntries m + (if err = None then 0 else 1)\<rparr>"
  moreover have "writeBatch mac es as1 m1 = (m', as')" using Cons.prems(4) a by (simp add: m1_def)
  ultimately show ?case using Cons.IH [of m1 as1] Cons.prems(3) by simp
qed simp

lemma drain_round_inv:
  assumes "manager_inv mac m"
  shows "manager_inv mac (fst (drain_round mac as m))"
proof -
  let ?m = "m\<lparr>am_queue := drop defaultDrainBatchSize (am_queue m)\<rparr>" and ?b = "take defaultDrainBatchSize (am_queue m)"
  obtain m' as' where r: "writeBatch mac ?b as ?m = (m', as')" by (metis surj_pair)
  have q: "list_all json_stable ?b" "list_all json_stable (drop defaultDrainBatchSize (am_queue m))"
    using assms by (auto simp: manager_inv_def list_all_iff dest: in_set_takeD in_set_dropD)
  have "rows_ok mac (am_rows m') \<and> list_all json_stable (am_rows m')"
    by (rule writeBatch_rows [OF _ _ q(1) r]) (use assms in \<open>simp_all add: manager_inv_def\<close>)
  moreover have "am_queue m' = drop defaultDrainBatchSize (am_queue m)"
    using drain_round_queue [of mac as m] r by (simp add: drain_round_def collectBatch_def)
  ultimately show ?thesis using q(2) r by (simp add: manager_inv_def drain_round_def collectBatch_def)
qed

lemma drainRemaining_rows: "manager_inv mac m \<Longrightarrow> manager_inv mac (fst (drainRemaining mac as m))"
  using drainRemaining_inv [of "manager_inv mac", OF drain_round_inv] by auto

lemma chains_inv_manager: "chains_inv mac st \<longleftrightarrow> manager_inv mac (as_m st) \<and> list_all json_stable (as_waiting st)"
  by (auto simp: chains_inv_def manager_inv_def)

lemma manager_inv_frame [simp]:
  "manager_inv mac (m\<lparr>am_stop := b\<rparr>) = manager_inv mac m" "manager_inv mac (m\<lparr>am_done := b\<rparr>) = manager_inv mac m"
  by (simp_all add: manager_inv_def)

lemma select_step_inv:
  assumes "chains_inv mac st"
  shows "chains_inv mac (select_step i choice st)"
proof (cases "i < length (as_waiting st)")
  case True
  have "json_stable (as_waiting st ! i)" "list_all json_stable (take i (as_waiting st) @ drop (Suc i) (as_waiting st))"
    using assms True by (auto simp: chains_inv_def list_all_iff dest: in_set_takeD in_set_dropD)
  then show ?thesis using assms True
    by (auto simp: select_step_def enqueue_select_def chains_inv_def split: choice.splits)
qed (use assms in \<open>simp add: select_step_def\<close>)

lemma audit_step_inv:
  assumes "chains_inv mac st" and "audit_op_ok op"
  shows "chains_inv mac (audit_step mac st op)"
proof (cases op)
  case (Elsewhere e as)
  obtain err rows as1 where a: "AppendChainedEntry mac (ae_TenantID e) e as (am_rows (as_m st)) = (err, rows, as1)"
    by (metis prod_cases3)
  note ok = AppendChainedEntry_ok [OF a]
  show ?thesis
    using assms append_rows_ok [OF _ ok] append_stable [OF ok] a
    by (auto simp: Elsewhere audit_step_def chains_inv_def audit_op_ok_def)
next
  case (Select i choice)
  then show ?thesis using select_step_inv assms(1) by (simp add: audit_step_def)
qed (use assms drainRemaining_rows drain_round_inv in
  \<open>auto simp: audit_step_def chains_inv_manager audit_op_ok_def Flush_def Stop_def Let_def\<close>)

interpretation audit_chains: op_machine "audit_step mac" "chains_inv mac" audit_op_ok for mac
  by unfold_locales (rule audit_step_inv)



text \<open>C39: the PostgreSQL store turns the absence of changes into an empty object, and so every entry
  without changes is reported as tampered with when it is read back.\<close>

theorem database_entry_reported:
  assumes "ae_Changes e = None" and "VerifyIntegrity mac e"
    and "inj_on mac {checksum_input e, checksum_input (database_read e)}"
  shows "chain_break e ChecksumMismatch \<in> set (VerifyChain mac (\<lambda>x. x) [database_read e])"
proof -
  have "Marshal_changes (canonicalChanges (ae_Changes (database_read e))) = [CHR 0x7B, CHR 0x7D]"
    by (simp add: database_read_def serializeAuditChanges_def deserializeAuditChanges_def assms(1) decoded_object_def
        object_changes_def canonicalChanges_def canonicalDetails_def Marshal_changes_def changes_members_def json_object_def Let_def)
  moreover have "Marshal_changes (canonicalChanges (ae_Changes e)) = ''null''"
    by (simp add: assms(1) canonicalChanges_def Marshal_changes_def)
  ultimately have "checksum_input e \<noteq> checksum_input (database_read e)"
    by (simp add: checksum_input_eq same_content_def)
  then have "generateChecksum mac (database_read e) \<noteq> generateChecksum mac e"
    using inj_onD [OF assms(3), of "checksum_input e" "checksum_input (database_read e)"] unfolding generateChecksum_def
    by (metis insertI1 insertI2)
  moreover have "ae_Checksum (database_read e) = ae_Checksum e" "chain_break (database_read e) = chain_break e"
    by (simp_all add: database_read_def chain_break_def fun_eq_iff)
  ultimately show ?thesis using assms(2) by (simp add: VerifyChain_def entry_breaks_def VerifyIntegrity_def)
qed

theorem database_entry_reported_witness:
  "\<exists>e. e = chained_entry (\<lambda>s. s) ''acme'' (0, []) (sample_entry ''e1'' ''grant'') \<and>
     chain_break e ChecksumMismatch \<in> set (VerifyChain (\<lambda>s. s) (\<lambda>x. x) [database_read e])"
proof -
  define e where "e = chained_entry (\<lambda>s. s) ''acme'' (0, []) (sample_entry ''e1'' ''grant'')"
  have "ae_Changes e = None" by (simp add: e_def sample_entry_def)
  moreover have "VerifyIntegrity (\<lambda>s. s) e" by (simp add: VerifyIntegrity_def e_def chained_entry_def Let_def)
  ultimately have "chain_break e ChecksumMismatch \<in> set (VerifyChain (\<lambda>s. s) (\<lambda>x. x) [database_read e])"
    by (rule database_entry_reported) (rule inj_on_id2)
  then show ?thesis using e_def by blast
qed

end
