(* ===== verification/Session_Store.thy ===== *)
theory Session_Store
  imports Cfgms_Prelude
begin

text \<open>
  Admin sessions and their store: \<open>Session\<close> and \<open>Config\<close> of \<open>pkg/session/contract.go\<close>, and
  \<open>MemStore\<close> of \<open>pkg/session/store.go\<close>. The store files sessions under token hashes; a session has
  a row for its current token and rows with a grace expiry for the tokens it has rotated away.
\<close>

section \<open>Sessions\<close>

datatype AssuranceLevel = AssuranceMachine | AssuranceBasic | AssuranceStrong

record Session =
  ses_ID :: string
  ses_ConnectionName :: string
  ses_PrincipalID :: string
  ses_TenantID :: string
  ses_IssuedAt :: instant
  ses_LastActivity :: instant
  ses_AbsoluteExpiresAt :: instant
  ses_Assurance :: AssuranceLevel
  ses_CredentialID :: string
  ses_LoginCredentialID :: string
  ses_BoundIP :: string
  ses_LastProvenAt :: "instant option"
  ses_RootScoped :: bool
  ses_Channel :: string

record Config =
  cfg_IdleTimeout :: duration
  cfg_AbsoluteTimeout :: duration
  cfg_GraceWindow :: duration
  cfg_SilentReproofInterval :: duration
  cfg_Channel :: string

definition DefaultConfig :: Config where
  "DefaultConfig = \<lparr>cfg_IdleTimeout = 15 * 60 * 1000000000, cfg_AbsoluteTimeout = 8 * 3600 * 1000000000,
     cfg_GraceWindow = 30 * 1000000000, cfg_SilentReproofInterval = 5 * 60 * 1000000000, cfg_Channel = []\<rparr>"

datatype session_error =
    ErrSessionExpired | ErrSessionRevoked | ErrSessionNotFound | ErrSessionChannelMismatch | ErrTokenRotated
  | StoreFault | TokenFault

section \<open>The store\<close>

record storeEntry =
  se_session :: Session
  se_revoked :: bool
  se_expiresAt :: "instant option"

record MemStore =
  st_records :: "(string \<times> storeEntry) list"
  st_byID :: "(string \<times> string list) list"

definition NewMemStore :: MemStore where
  "NewMemStore = \<lparr>st_records = [], st_byID = []\<rparr>"

definition usable :: "instant \<Rightarrow> storeEntry \<Rightarrow> bool" where
  "usable now e \<longleftrightarrow> \<not> se_revoked e \<and> (case se_expiresAt e of None \<Rightarrow> True | Some t \<Rightarrow> now \<le> t)"

definition hashes :: "string \<Rightarrow> MemStore \<Rightarrow> string list" where
  "hashes i st = (case map_of (st_byID st) i of None \<Rightarrow> [] | Some hs \<Rightarrow> hs)"

definition sessionLive :: "instant \<Rightarrow> string \<Rightarrow> MemStore \<Rightarrow> bool" where
  "sessionLive now i st \<longleftrightarrow>
     list_ex (\<lambda>h. case map_of (st_records st) h of Some e \<Rightarrow> usable now e | None \<Rightarrow> False) (hashes i st)"

definition store_put :: "string \<Rightarrow> Session \<Rightarrow> instant option \<Rightarrow> MemStore \<Rightarrow> MemStore" where
  "store_put tokenHash s expiresAt st =
     (case map_of (st_records st) tokenHash of
        Some old \<Rightarrow>
          st\<lparr>st_records := put tokenHash \<lparr>se_session = s, se_revoked = False,
            se_expiresAt = (case expiresAt of None \<Rightarrow> se_expiresAt old | Some t \<Rightarrow> Some t)\<rparr> (st_records st)\<rparr>
      | None \<Rightarrow>
          st\<lparr>st_byID := put (ses_ID s) (hashes (ses_ID s) st @ [tokenHash]) (st_byID st),
             st_records := put tokenHash \<lparr>se_session = s, se_revoked = False, se_expiresAt = expiresAt\<rparr> (st_records st)\<rparr>)"

definition store_Set :: "string \<Rightarrow> Session \<Rightarrow> MemStore \<Rightarrow> session_error + MemStore" where
  "store_Set tokenHash s st = Inr (store_put tokenHash s None st)"

definition store_Update :: "instant \<Rightarrow> string \<Rightarrow> Session \<Rightarrow> MemStore \<Rightarrow> session_error + MemStore" where
  "store_Update now tokenHash s st =
     (if \<not> sessionLive now (ses_ID s) st then Inl ErrSessionNotFound else Inr (store_put tokenHash s None st))"

definition store_Rotate ::
    "instant \<Rightarrow> string \<Rightarrow> string \<Rightarrow> Session \<Rightarrow> instant \<Rightarrow> MemStore \<Rightarrow> session_error + MemStore" where
  "store_Rotate now prevHash newHash s prevExpiry st =
     (if \<not> sessionLive now (ses_ID s) st then Inl ErrSessionNotFound
      else case map_of (st_records st) prevHash of
        None \<Rightarrow> Inl ErrTokenRotated
      | Some prev \<Rightarrow>
          if ses_ID (se_session prev) \<noteq> ses_ID s \<or> se_expiresAt prev \<noteq> None then Inl ErrTokenRotated
          else Inr (store_put newHash s None
                 (st\<lparr>st_records := put prevHash (prev\<lparr>se_expiresAt := Some prevExpiry\<rparr>) (st_records st)\<rparr>)))"

definition store_Get :: "instant \<Rightarrow> string \<Rightarrow> MemStore \<Rightarrow> session_error + Session" where
  "store_Get now tokenHash st =
     (case map_of (st_records st) tokenHash of
        None \<Rightarrow> Inl ErrSessionNotFound
      | Some e \<Rightarrow>
          if se_revoked e then Inl ErrSessionRevoked
          else (case se_expiresAt e of
                  Some t \<Rightarrow> if now > t then Inl ErrSessionNotFound else Inr (se_session e)
                | None \<Rightarrow> Inr (se_session e)))"

fun first_usable :: "instant \<Rightarrow> MemStore \<Rightarrow> string list \<Rightarrow> session_error + Session" where
  "first_usable now st [] = Inl ErrSessionNotFound"
| "first_usable now st (h # hs) =
     (case map_of (st_records st) h of
        Some e \<Rightarrow> if usable now e then Inr (se_session e) else first_usable now st hs
      | None \<Rightarrow> first_usable now st hs)"

definition store_GetByID :: "instant \<Rightarrow> string \<Rightarrow> MemStore \<Rightarrow> session_error + Session" where
  "store_GetByID now i st = first_usable now st (hashes i st)"

definition store_Delete :: "string \<Rightarrow> MemStore \<Rightarrow> session_error + MemStore" where
  "store_Delete i st =
     (case map_of (st_byID st) i of
        None \<Rightarrow> Inl ErrSessionNotFound
      | Some hs \<Rightarrow> Inr \<lparr>st_records = fold del hs (st_records st), st_byID = del i (st_byID st)\<rparr>)"

text \<open>\<open>rng\<close> is the order in which the map of records is iterated.\<close>

type_synonym record_order = "(string \<times> storeEntry) list \<Rightarrow> (string \<times> storeEntry) list"

definition store_ListAll :: "record_order \<Rightarrow> instant \<Rightarrow> MemStore \<Rightarrow> Session list" where
  "store_ListAll rng now st =
     foldl (\<lambda>out (_, e). if \<not> usable now e \<or> ses_ID (se_session e) \<in> ses_ID ` set out then out else out @ [se_session e])
       [] (rng (st_records st))"

definition sweep_entry :: "instant \<Rightarrow> string \<times> storeEntry \<Rightarrow> MemStore \<Rightarrow> MemStore" where
  "sweep_entry now he st =
     (let (h, e) = he; i = ses_ID (se_session e)
      in if \<not> now > ses_AbsoluteExpiresAt (se_session e) then st
         else let filtered = filter (\<lambda>x. x \<noteq> h) (hashes i st)
              in \<lparr>st_records = del h (st_records st),
                  st_byID = (if filtered = [] then del i (st_byID st) else put i filtered (st_byID st))\<rparr>)"

definition sweep :: "record_order \<Rightarrow> instant \<Rightarrow> MemStore \<Rightarrow> MemStore" where
  "sweep rng now st = fold (sweep_entry now) (rng (st_records st)) st"

section \<open>What the store keeps\<close>

text \<open>The index and the rows agree.\<close>

definition store_indexed :: "MemStore \<Rightarrow> bool" where
  "store_indexed st \<longleftrightarrow> distinct (keys (st_records st)) \<and>
     (\<forall>i h. h \<in> set (hashes i st) \<longleftrightarrow>
        (\<exists>e. map_of (st_records st) h = Some e \<and> ses_ID (se_session e) = i))"

text \<open>What never changes of a session.\<close>

definition ident :: "Session \<Rightarrow> string \<times> string \<times> string \<times> string \<times> instant \<times> instant \<times> bool \<times> string" where
  "ident s = (ses_ID s, ses_ConnectionName s, ses_PrincipalID s, ses_TenantID s, ses_IssuedAt s,
     ses_AbsoluteExpiresAt s, ses_RootScoped s, ses_Channel s)"

text \<open>\<open>own\<close> tells for every token hash ever drawn which session it was drawn for.\<close>

type_synonym owners = "string \<rightharpoonup> string \<times> string \<times> string \<times> string \<times> instant \<times> instant \<times> bool \<times> string"

definition store_ok :: "owners \<Rightarrow> MemStore \<Rightarrow> bool" where
  "store_ok own st \<longleftrightarrow> store_indexed st \<and>
     (\<forall>h e. map_of (st_records st) h = Some e \<longrightarrow> own h = Some (ident (se_session e)) \<and> \<not> se_revoked e)"

text \<open>
  How rows change at time \<open>now\<close>: one stays under its hash with its session and its grace expiry, if
  it has one, or it is new, under the hash drawn, for a session that is live or has just been created.
\<close>

definition evolves :: "instant \<Rightarrow> string option \<Rightarrow> string option \<Rightarrow> MemStore \<Rightarrow> MemStore \<Rightarrow> bool" where
  "evolves now hn idn st st' \<longleftrightarrow>
     (\<forall>h e'. map_of (st_records st') h = Some e' \<longrightarrow>
        (\<exists>e. map_of (st_records st) h = Some e \<and> ses_ID (se_session e) = ses_ID (se_session e') \<and>
           (se_expiresAt e \<noteq> None \<longrightarrow> se_expiresAt e' = se_expiresAt e)) \<or>
        hn = Some h \<and> (sessionLive now (ses_ID (se_session e')) st \<or> idn = Some (ses_ID (se_session e'))))"

declare map_of_eq_Some_iff [simp del]

lemma ident_ID: "ident s = ident s' \<Longrightarrow> ses_ID s = ses_ID s'"
  by (simp add: ident_def)

lemma evolves_refl [simp]: "evolves now hn idn st st"
  by (auto simp: evolves_def)

lemma own_le: "own \<subseteq>\<^sub>m own' \<Longrightarrow> own h = Some x \<Longrightarrow> own' h = Some x"
  by (metis domI map_le_def)

lemma store_ok_row:
  assumes "store_ok own st" and "map_of (st_records st) h = Some e"
  shows "own h = Some (ident (se_session e))" "\<not> se_revoked e"
  using assms by (auto simp: store_ok_def)

lemma store_ok_mono: "store_ok own st \<Longrightarrow> own \<subseteq>\<^sub>m own' \<Longrightarrow> store_ok own' st"
  by (simp add: store_ok_def own_le)

lemma sessionLive_row:
  assumes "store_indexed st" and "sessionLive now i st"
  shows "\<exists>h e. map_of (st_records st) h = Some e \<and> ses_ID (se_session e) = i \<and> usable now e"
  using assms by (fastforce simp: store_indexed_def sessionLive_def list_ex_iff split: option.splits)

lemma store_put_ok:
  assumes "store_ok own st" and own: "own h = Some (ident s)"
  shows "store_ok own (store_put h s x st)"
proof (cases "map_of (st_records st) h")
  case None
  have "hashes i (store_put h s x st) = hashes i st @ (if i = ses_ID s then [h] else [])" for i
    using None by (simp add: store_put_def hashes_def)
  then show ?thesis using assms None
    by (auto simp: store_ok_def store_indexed_def store_put_def split: if_splits)
next
  case (Some e)
  have "hashes i (store_put h s x st) = hashes i st" for i
    using Some by (simp add: store_put_def hashes_def)
  moreover have "ses_ID (se_session e) = ses_ID s" using store_ok_row(1) [OF assms(1) Some] own by (simp add: ident_def)
  ultimately show ?thesis using assms Some by (auto simp: store_ok_def store_indexed_def store_put_def)
qed

lemma store_Delete_rows:
  assumes "store_ok own st" and "store_Delete i st = Inr st'"
  shows "store_ok own st'" "evolves now hn idn st st'"
    "map_of (st_records st') h = Some e \<Longrightarrow> ses_ID (se_session e) \<noteq> i"
    "map_of (st_records st') k = Some e' \<Longrightarrow> map_of (st_records st) k = Some e'"
proof -
  obtain hs where hs: "map_of (st_byID st) i = Some hs"
    "st' = \<lparr>st_records = fold del hs (st_records st), st_byID = del i (st_byID st)\<rparr>"
    using assms(2) by (auto simp: store_Delete_def split: option.splits)
  have f: "map_of (fold del hs m) k = (if k \<in> set hs then None else map_of m k)" for m :: "(string \<times> storeEntry) list" and k
    by (induction hs arbitrary: m) auto
  have i: "hashes i st = hs" using hs(1) by (simp add: hashes_def)
  have ix: "store_indexed st" using assms(1) by (simp add: store_ok_def)
  have "distinct (keys m) \<Longrightarrow> distinct (keys (fold del hs m))" for m :: "(string \<times> storeEntry) list"
    by (induction hs arbitrary: m) auto
  then have d: "distinct (keys (fold del hs (st_records st)))" using ix by (simp add: store_indexed_def)
  have h': "hashes j st' = (if j = i then [] else hashes j st)" for j by (simp add: hs(2) hashes_def)
  have "store_indexed st'" using ix i d unfolding store_indexed_def h' by (auto simp: hs(2) f)
  then show "store_ok own st'" using assms(1) by (auto simp: store_ok_def hs(2) f split: if_splits)
  show "evolves now hn idn st st'" by (auto simp: evolves_def hs(2) f)
  show "ses_ID (se_session e) \<noteq> i" if "map_of (st_records st') h = Some e"
    using that ix i by (auto simp: hs(2) f store_indexed_def split: if_splits)
  show "map_of (st_records st) k = Some e'" if "map_of (st_records st') k = Some e'"
    using that by (simp add: hs(2) f split: if_splits)
qed

lemma store_Delete_none:
  assumes "store_indexed st" and "store_Delete i st = Inl x" and "map_of (st_records st) h = Some e"
  shows "ses_ID (se_session e) \<noteq> i"
proof -
  have "hashes i st = []" using assms(2) by (auto simp: store_Delete_def hashes_def split: option.splits)
  then have "h \<notin> set (hashes i st)" by simp
  then show ?thesis using assms(1,3) unfolding store_indexed_def by blast
qed

lemma store_Set_rows:
  assumes "store_ok own st" and "own h = Some (ident s)" and "map_of (st_records st) h = None" and "store_Set h s st = Inr st'"
  shows "store_ok own st'" "evolves now (Some h) (Some (ses_ID s)) st st'"
    "map_of (st_records st') h = Some \<lparr>se_session = s, se_revoked = False, se_expiresAt = None\<rparr>"
  using assms store_put_ok [of own st h s None] by (auto simp: store_Set_def evolves_def store_put_def split: if_splits)

lemma store_Update_rows:
  assumes "store_ok own st" and "own h = Some (ident s)" and "map_of (st_records st) h = Some e"
    and "store_Update now h s st = Inr st'"
  shows "store_ok own st'" "evolves now hn idn st st'"
proof -
  have st': "st' = store_put h s None st" using assms(4) by (simp add: store_Update_def split: if_splits)
  then show "store_ok own st'" using store_put_ok [OF assms(1,2)] by simp
  have "ses_ID (se_session e) = ses_ID s" using store_ok_row(1) [OF assms(1,3)] assms(2) by (simp add: ident_def)
  then show "evolves now hn idn st st'" using assms(3) by (auto simp: st' evolves_def store_put_def)
qed

lemma store_Rotate_rows:
  assumes "store_ok own st" and "own hn = Some (ident s)" and "map_of (st_records st) hn = None"
    and "store_Rotate now p hn s x st = Inr st'"
  shows "store_ok own st'" "evolves now (Some hn) idn st st'" "p \<noteq> hn"
    "\<exists>e. map_of (st_records st') p = Some e \<and> se_expiresAt e = Some x"
    "map_of (st_records st') hn = Some \<lparr>se_session = s, se_revoked = False, se_expiresAt = None\<rparr>"
proof -
  obtain e where e: "map_of (st_records st) p = Some e" "ses_ID (se_session e) = ses_ID s" "se_expiresAt e = None"
    "st' = store_put hn s None (st\<lparr>st_records := put p (e\<lparr>se_expiresAt := Some x\<rparr>) (st_records st)\<rparr>)"
    and live: "sessionLive now (ses_ID s) st"
    using assms(4) by (auto simp: store_Rotate_def split: if_splits option.splits)
  then show ne: "p \<noteq> hn" using assms(3) by auto
  let ?st = "st\<lparr>st_records := put p (e\<lparr>se_expiresAt := Some x\<rparr>) (st_records st)\<rparr>"
  have "hashes i ?st = hashes i st" for i by (simp add: hashes_def)
  then have "store_ok own ?st" using assms(1) e(1) by (auto simp: store_ok_def store_indexed_def)
  then show "store_ok own st'" unfolding e(4) by (rule store_put_ok) (rule assms(2))
  have r: "map_of (st_records st') h = (if h = hn then Some \<lparr>se_session = s, se_revoked = False, se_expiresAt = None\<rparr>
      else if h = p then Some (e\<lparr>se_expiresAt := Some x\<rparr>) else map_of (st_records st) h)" for h
    using assms(3) ne by (simp add: e(4) store_put_def)
  show "\<exists>e. map_of (st_records st') p = Some e \<and> se_expiresAt e = Some x"
    "map_of (st_records st') hn = Some \<lparr>se_session = s, se_revoked = False, se_expiresAt = None\<rparr>"
    using r ne by simp_all
  show "evolves now (Some hn) idn st st'"
    using e(1-3) live by (auto simp: evolves_def r split: if_splits)
qed

lemma sweep_entry_rows:
  assumes "store_ok own st" and "map_of (st_records st) h \<in> {None, Some e}"
  shows "store_ok own (sweep_entry now (h, e) st)"
    "k \<noteq> h \<Longrightarrow> map_of (st_records (sweep_entry now (h, e) st)) k = map_of (st_records st) k"
    "map_of (st_records (sweep_entry now (h, e) st)) k \<in> {None, map_of (st_records st) k}"
proof -
  let ?st = "sweep_entry now (h, e) st" and ?i = "ses_ID (se_session e)"
  have r: "map_of (st_records ?st) j = (if j = h \<and> now > ses_AbsoluteExpiresAt (se_session e) then None else map_of (st_records st) j)" for j
    by (simp add: sweep_entry_def Let_def)
  then show "k \<noteq> h \<Longrightarrow> map_of (st_records ?st) k = map_of (st_records st) k"
    "map_of (st_records ?st) k \<in> {None, map_of (st_records st) k}" by auto
  have hs: "hashes j ?st = (if j = ?i \<and> now > ses_AbsoluteExpiresAt (se_session e)
      then filter (\<lambda>x. x \<noteq> h) (hashes j st) else hashes j st)" for j
    by (auto simp: sweep_entry_def Let_def hashes_def split: option.splits)
  have ix: "store_indexed st" using assms(1) by (simp add: store_ok_def)
  have d: "distinct (keys (st_records ?st))" using ix by (simp add: store_indexed_def sweep_entry_def Let_def)
  have "store_indexed ?st" using ix assms(2) d unfolding store_indexed_def hs r by auto
  then show "store_ok own ?st" using assms(1) by (auto simp: store_ok_def r split: if_splits)
qed

lemma sweep_fold:
  assumes "store_ok own st" and "distinct (keys es)" and "\<forall>(h, e) \<in> set es. map_of (st_records st) h \<in> {None, Some e}"
  shows "store_ok own (fold (sweep_entry now) es st) \<and>
    (\<forall>k. map_of (st_records (fold (sweep_entry now) es st)) k \<in> {None, map_of (st_records st) k})"
  using assms
proof (induction es rule: rev_induct)
  case (snoc x es)
  obtain h e where x: "x = (h, e)" by (cases x)
  let ?st = "fold (sweep_entry now) es st"
  have IH: "store_ok own ?st" "\<And>k. map_of (st_records ?st) k \<in> {None, map_of (st_records st) k}"
    using snoc by (auto simp: x)
  have "map_of (st_records ?st) h \<in> {None, Some e}" using IH(2) [of h] snoc.prems(3) by (auto simp: x)
  note r = sweep_entry_rows [OF IH(1) this]
  show ?case using r(1) r(3) IH(2) by (simp add: x) (metis empty_iff insert_iff)
qed simp

lemma sweep_rows:
  assumes "store_ok own st" and "map_order rng"
  shows "store_ok own (sweep rng now st)" "evolves now' hn idn st (sweep rng now st)"
proof -
  have d: "distinct (keys (st_records st))" using assms(1) by (simp add: store_ok_def store_indexed_def)
  have m: "mset (rng (st_records st)) = mset (st_records st)" by (rule map_orderD(1) [OF assms(2)])
  have "mset (keys (rng (st_records st))) = mset (keys (st_records st))" using m by simp
  then have "distinct (keys (rng (st_records st)))" using d mset_eq_imp_distinct_iff by blast
  moreover have "\<forall>(h, e) \<in> set (rng (st_records st)). map_of (st_records st) h \<in> {None, Some e}"
    using d map_orderD(2) [OF assms(2), of "st_records st"] by (auto simp: map_of_eq_Some_iff)
  ultimately have f: "store_ok own (sweep rng now st)"
    "\<And>k. map_of (st_records (sweep rng now st)) k \<in> {None, map_of (st_records st) k}"
    using sweep_fold [OF assms(1)] by (auto simp: sweep_def)
  show "store_ok own (sweep rng now st)" by (rule f(1))
  have "map_of (st_records st) k = Some e" if "map_of (st_records (sweep rng now st)) k = Some e" for k e
    using f(2) [of k] that by auto
  then show "evolves now' hn idn st (sweep rng now st)" by (auto simp: evolves_def)
qed

end
