(* ===== verification/Session_Manager.thy ===== *)
theory Session_Manager
  imports Session_Store
begin

text \<open>
  The session manager: \<open>pkg/session/manager.go\<close>, on the store of the previous theory. A node keeps
  its \<open>managedSession\<close>s on a heap, since the maps by session and by token hash share them. An
  operation runs as a whole and reads the clock once. \<open>H\<close> is \<open>HashToken\<close>, SHA-256 in hexadecimal.
\<close>

section \<open>A node\<close>

record managedSession =
  ms_session :: Session
  ms_currentHash :: string
  ms_prevHash :: string
  ms_prevExpiry :: "instant option"
  ms_revoked :: bool

record node =
  nd_cfg :: Config
  nd_heap :: "managedSession list"
  nd_sessions :: "(string \<times> nat) list"
  nd_byHash :: "(string \<times> nat) list"

definition NewNode :: "Config \<Rightarrow> node" where
  "NewNode cfg = \<lparr>nd_cfg = cfg, nd_heap = [], nd_sessions = [], nd_byHash = []\<rparr>"

text \<open>
  What the environment of a call decides: the time, the caller's address, the token and the
  identifier drawn (drawing a token may fail), and which calls of the store fail; a failed write
  may have been applied.
\<close>

datatype write_fault = Works | FailsLost | FailsApplied

record session_env =
  sv_now :: instant
  sv_ip :: string
  sv_token :: "string option"
  sv_uuid :: string
  sv_load :: bool
  sv_read :: bool
  sv_readByID :: bool
  sv_write :: write_fault

definition faulty :: "write_fault \<Rightarrow> MemStore \<Rightarrow> session_error + MemStore \<Rightarrow> session_error option \<times> MemStore" where
  "faulty f st r =
     (case f of
        Works \<Rightarrow> (case r of Inl e \<Rightarrow> (Some e, st) | Inr st' \<Rightarrow> (None, st'))
      | FailsLost \<Rightarrow> (Some StoreFault, st)
      | FailsApplied \<Rightarrow> (Some StoreFault, case r of Inl _ \<Rightarrow> st | Inr st' \<Rightarrow> st'))"

definition api_Get :: "bool \<Rightarrow> session_env \<Rightarrow> string \<Rightarrow> MemStore \<Rightarrow> session_error + Session" where
  "api_Get fault v h st = (if fault then Inl StoreFault else store_Get (sv_now v) h st)"

definition api_GetByID :: "session_env \<Rightarrow> string \<Rightarrow> MemStore \<Rightarrow> session_error + Session" where
  "api_GetByID v i st = (if sv_readByID v then Inl StoreFault else store_GetByID (sv_now v) i st)"

definition set_ms :: "nat \<Rightarrow> managedSession \<Rightarrow> node \<Rightarrow> node" where
  "set_ms a ms nd = nd\<lparr>nd_heap := (nd_heap nd)[a := ms]\<rparr>"

section \<open>Issuing\<close>

definition issue ::
    "(string \<Rightarrow> string) \<Rightarrow> session_env \<Rightarrow> string \<Rightarrow> string \<Rightarrow> string \<Rightarrow> bool \<Rightarrow> string \<Rightarrow> string \<Rightarrow> node \<Rightarrow> MemStore
     \<Rightarrow> (session_error + Session \<times> string) \<times> node \<times> MemStore" where
  "issue H v principalID connectionName tenantID rootScoped loginCredentialID credentialID nd st =
     (case sv_token v of
        None \<Rightarrow> (Inl TokenFault, nd, st)
      | Some token \<Rightarrow>
          (let h = H token; now = sv_now v;
               sess = \<lparr>ses_ID = sv_uuid v, ses_ConnectionName = connectionName, ses_PrincipalID = principalID,
                 ses_TenantID = tenantID, ses_IssuedAt = now, ses_LastActivity = now,
                 ses_AbsoluteExpiresAt = now + cfg_AbsoluteTimeout (nd_cfg nd), ses_Assurance = AssuranceBasic,
                 ses_CredentialID = credentialID, ses_LoginCredentialID = loginCredentialID, ses_BoundIP = [],
                 ses_LastProvenAt = None, ses_RootScoped = rootScoped, ses_Channel = cfg_Channel (nd_cfg nd)\<rparr>;
               ms = \<lparr>ms_session = sess, ms_currentHash = h, ms_prevHash = [], ms_prevExpiry = None, ms_revoked = False\<rparr>;
               a = length (nd_heap nd);
               nd' = nd\<lparr>nd_heap := nd_heap nd @ [ms], nd_sessions := put (ses_ID sess) a (nd_sessions nd),
                       nd_byHash := put h a (nd_byHash nd)\<rparr>
           in case faulty (sv_write v) st (store_Set h sess st) of
                (Some e, st') \<Rightarrow>
                  (Inl e, nd'\<lparr>nd_sessions := del (ses_ID sess) (nd_sessions nd'), nd_byHash := del h (nd_byHash nd')\<rparr>, st')
              | (None, st') \<Rightarrow> (Inr (sess, token), nd', st')))"

definition Issue where
  "Issue H v principalID connectionName tenantID = issue H v principalID connectionName tenantID False [] []"

definition IssueBound where
  "IssueBound H v principalID connectionName tenantID rootScoped loginCredentialID credentialID =
     issue H v principalID connectionName tenantID rootScoped loginCredentialID credentialID"

definition IssueRootScoped where
  "IssueRootScoped H v principalID connectionName tenantID = issue H v principalID connectionName tenantID True [] []"

section \<open>Looking a token up\<close>

definition loadFromStore :: "session_env \<Rightarrow> string \<Rightarrow> node \<Rightarrow> MemStore \<Rightarrow> nat option \<times> node" where
  "loadFromStore v h nd st =
     (case api_Get (sv_load v) v h st of
        Inl _ \<Rightarrow> (None, nd)
      | Inr sess \<Rightarrow>
          if ses_Channel sess \<noteq> cfg_Channel (nd_cfg nd) then (None, nd)
          else (case map_of (nd_byHash nd) h of
                  Some a \<Rightarrow> (Some a, nd)
                | None \<Rightarrow>
                    (case map_of (nd_sessions nd) (ses_ID sess) of
                       Some a \<Rightarrow> (Some a, nd\<lparr>nd_byHash := put h a (nd_byHash nd)\<rparr>)
                     | None \<Rightarrow>
                         (let a = length (nd_heap nd);
                              ms = \<lparr>ms_session = sess, ms_currentHash = h, ms_prevHash = [], ms_prevExpiry = None,
                                    ms_revoked = False\<rparr>
                          in (Some a, nd\<lparr>nd_heap := nd_heap nd @ [ms], nd_byHash := put h a (nd_byHash nd),
                                        nd_sessions := put (ses_ID sess) a (nd_sessions nd)\<rparr>)))))"

definition lookup :: "session_env \<Rightarrow> string \<Rightarrow> node \<Rightarrow> MemStore \<Rightarrow> nat option \<times> node" where
  "lookup v h nd st = (case map_of (nd_byHash nd) h of Some a \<Rightarrow> (Some a, nd) | None \<Rightarrow> loadFromStore v h nd st)"

definition mergeStored :: "Session \<Rightarrow> Session \<Rightarrow> Session option" where
  "mergeStored cur stored =
     (if ses_ID stored \<noteq> ses_ID cur \<or> ses_PrincipalID stored \<noteq> ses_PrincipalID cur \<or>
         ses_TenantID stored \<noteq> ses_TenantID cur \<or> ses_IssuedAt stored \<noteq> ses_IssuedAt cur \<or>
         ses_AbsoluteExpiresAt stored \<noteq> ses_AbsoluteExpiresAt cur \<or>
         ses_LoginCredentialID stored \<noteq> ses_LoginCredentialID cur \<or>
         ses_RootScoped stored \<noteq> ses_RootScoped cur \<or> ses_Channel stored \<noteq> ses_Channel cur
      then None
      else Some (cur\<lparr>ses_Assurance := ses_Assurance stored, ses_CredentialID := ses_CredentialID stored,
             ses_BoundIP := ses_BoundIP stored, ses_LastProvenAt := ses_LastProvenAt stored,
             ses_LastActivity := (if ses_LastActivity stored > ses_LastActivity cur
                                  then ses_LastActivity stored else ses_LastActivity cur)\<rparr>))"

definition verifyInStore ::
    "session_env \<Rightarrow> string \<Rightarrow> managedSession \<Rightarrow> MemStore \<Rightarrow> session_error option \<times> managedSession" where
  "verifyInStore v h ms st =
     (case api_Get (sv_read v) v h st of
        Inr stored \<Rightarrow>
          if h = ms_prevHash ms then (None, ms)
          else (case mergeStored (ms_session ms) stored of
                  None \<Rightarrow> (Some ErrSessionNotFound, ms)
                | Some s \<Rightarrow> (None, ms\<lparr>ms_session := s\<rparr>))
      | Inl e \<Rightarrow>
          if e \<noteq> ErrSessionNotFound \<and> e \<noteq> ErrSessionRevoked then (Some e, ms)
          else (case api_GetByID v (ses_ID (ms_session ms)) st of
                  Inr _ \<Rightarrow> (Some ErrSessionExpired, ms)
                | Inl e' \<Rightarrow>
                    if e' \<noteq> ErrSessionNotFound then (Some e', ms)
                    else (Some ErrSessionRevoked, ms\<lparr>ms_revoked := True\<rparr>)))"

definition updateStore ::
    "session_env \<Rightarrow> string \<Rightarrow> managedSession \<Rightarrow> MemStore \<Rightarrow> session_error option \<times> managedSession \<times> MemStore" where
  "updateStore v h ms st =
     (let (e, st') = faulty (sv_write v) st (store_Update (sv_now v) h (ms_session ms) st)
      in if e = Some ErrSessionNotFound \<or> e = Some ErrSessionRevoked
         then (Some ErrSessionRevoked, ms\<lparr>ms_revoked := True\<rparr>, st') else (None, ms, st'))"

section \<open>Validating\<close>

definition downgraded :: "session_env \<Rightarrow> Config \<Rightarrow> Session \<Rightarrow> bool" where
  "downgraded v cfg s \<longleftrightarrow> ses_Assurance s = AssuranceStrong \<and>
     (sv_ip v \<noteq> [] \<and> ses_BoundIP s \<noteq> [] \<and> sv_ip v \<noteq> ses_BoundIP s \<or>
      cfg_SilentReproofInterval cfg > 0 \<and>
        (case ses_LastProvenAt s of None \<Rightarrow> False
         | Some t \<Rightarrow> time_Sub (sv_now v) t > cfg_SilentReproofInterval cfg))"

definition touch_session :: "session_env \<Rightarrow> bool \<Rightarrow> Session \<Rightarrow> Session" where
  "touch_session v prior s = (if prior then s else s\<lparr>ses_LastActivity := sv_now v\<rparr>)"

definition continuity :: "session_env \<Rightarrow> Config \<Rightarrow> Session \<Rightarrow> Session" where
  "continuity v cfg s =
     (if downgraded v cfg s then s\<lparr>ses_Assurance := AssuranceBasic, ses_LastProvenAt := None\<rparr> else s)"

text \<open>\<open>Validate\<close> once the token's session is found and locked.\<close>

definition validate_ms ::
    "session_env \<Rightarrow> Config \<Rightarrow> string \<Rightarrow> managedSession \<Rightarrow> MemStore \<Rightarrow> (session_error + Session) \<times> managedSession \<times> MemStore" where
  "validate_ms v cfg h ms st =
     (if ms_revoked ms then (Inl ErrSessionRevoked, ms, st)
      else if ses_Channel (ms_session ms) \<noteq> cfg_Channel cfg then (Inl ErrSessionChannelMismatch, ms, st)
      else case verifyInStore v h ms st of
        (Some e, ms) \<Rightarrow> (Inl e, ms, st)
      | (None, ms) \<Rightarrow>
          (let now = sv_now v; s = ms_session ms; prior = (h = ms_prevHash ms)
           in if now > ses_AbsoluteExpiresAt s then (Inl ErrSessionExpired, ms, st)
              else if prior \<and> (case ms_prevExpiry ms of None \<Rightarrow> False | Some t \<Rightarrow> now > t)
                   then (Inl ErrSessionExpired, ms, st)
              else if \<not> prior \<and> now > ses_LastActivity s + cfg_IdleTimeout cfg then (Inl ErrSessionExpired, ms, st)
              else
                (let s' = continuity v cfg (touch_session v prior s); ms = ms\<lparr>ms_session := s'\<rparr>
                 in if \<not> prior \<or> downgraded v cfg (touch_session v prior s)
                    then (case updateStore v h ms st of
                            (Some e, ms, st) \<Rightarrow> (Inl e, ms, st)
                          | (None, ms, st) \<Rightarrow> (Inr s', ms, st))
                    else (Inr s', ms, st))))"

definition Validate ::
    "(string \<Rightarrow> string) \<Rightarrow> session_env \<Rightarrow> string \<Rightarrow> node \<Rightarrow> MemStore \<Rightarrow> (session_error + Session) \<times> node \<times> MemStore" where
  "Validate H v token nd st =
     (case lookup v (H token) nd st of
        (None, nd) \<Rightarrow> (Inl ErrSessionNotFound, nd, st)
      | (Some a, nd) \<Rightarrow>
          (let (r, ms, st) = validate_ms v (nd_cfg nd) (H token) (nd_heap nd ! a) st in (r, set_ms a ms nd, st)))"

section \<open>Renewing\<close>

definition applyRotation :: "nat \<Rightarrow> string \<Rightarrow> string \<Rightarrow> instant \<Rightarrow> node \<Rightarrow> node" where
  "applyRotation a prevHash newHash prevExpiry nd =
     (let ms = nd_heap nd ! a;
          byHash = (if ms_prevHash ms \<noteq> [] \<and> ms_prevHash ms \<noteq> prevHash then del (ms_prevHash ms) (nd_byHash nd)
                    else nd_byHash nd)
      in nd\<lparr>nd_heap := (nd_heap nd)[a := ms\<lparr>ms_prevHash := prevHash, ms_prevExpiry := Some prevExpiry,
                          ms_currentHash := newHash\<rparr>],
            nd_byHash := put newHash a byHash\<rparr>)"

text \<open>The rotation of the token of a session that has been checked; a new token is returned unless another node was first.\<close>

definition rotate_token ::
    "(string \<Rightarrow> string) \<Rightarrow> session_env \<Rightarrow> string \<Rightarrow> nat \<Rightarrow> node \<Rightarrow> MemStore
     \<Rightarrow> (session_error + Session \<times> string option) \<times> node \<times> MemStore" where
  "rotate_token H v h a nd st =
     (case sv_token v of
        None \<Rightarrow> (Inl TokenFault, nd, st)
      | Some newToken \<Rightarrow>
          (let ms = nd_heap nd ! a; now = sv_now v;
               updated = (ms_session ms)\<lparr>ses_LastActivity := now\<rparr>;
               prevExpiry = now + cfg_GraceWindow (nd_cfg nd);
               (e, st') = faulty (sv_write v) st (store_Rotate now h (H newToken) updated prevExpiry st)
           in if e = Some ErrSessionNotFound \<or> e = Some ErrSessionRevoked
              then (Inl ErrSessionRevoked, set_ms a (ms\<lparr>ms_revoked := True\<rparr>) nd, st')
              else if e = Some ErrTokenRotated then (Inr (ms_session ms, None), nd, st')
              else (case e of
                      Some e \<Rightarrow> (Inl e, nd, st')
                    | None \<Rightarrow>
                        (Inr (updated, Some newToken),
                         applyRotation a h (H newToken) prevExpiry (set_ms a (ms\<lparr>ms_session := updated\<rparr>) nd), st'))))"

definition Renew ::
    "(string \<Rightarrow> string) \<Rightarrow> session_env \<Rightarrow> string \<Rightarrow> node \<Rightarrow> MemStore
     \<Rightarrow> (session_error + Session \<times> string option) \<times> node \<times> MemStore" where
  "Renew H v token nd st =
     (case lookup v (H token) nd st of
        (None, nd) \<Rightarrow> (Inl ErrSessionNotFound, nd, st)
      | (Some a, nd) \<Rightarrow>
          if ms_revoked (nd_heap nd ! a) then (Inl ErrSessionRevoked, nd, st)
          else (case verifyInStore v (H token) (nd_heap nd ! a) st of
             (Some e, ms) \<Rightarrow> (Inl e, set_ms a ms nd, st)
           | (None, ms) \<Rightarrow>
               (let nd = set_ms a ms nd; now = sv_now v
                in if now > ses_AbsoluteExpiresAt (ms_session ms) then (Inl ErrSessionExpired, nd, st)
                   else if H token = ms_prevHash ms
                   then (if (case ms_prevExpiry ms of None \<Rightarrow> False | Some t \<Rightarrow> now > t) then (Inl ErrSessionExpired, nd, st)
                         else (Inr (ms_session ms, None), nd, st))
                   else if now > ses_LastActivity (ms_session ms) + cfg_IdleTimeout (nd_cfg nd)
                   then (Inl ErrSessionExpired, nd, st)
                   else rotate_token H v (H token) a nd st)))"

definition evict :: "nat \<Rightarrow> node \<Rightarrow> node" where
  "evict a nd = nd\<lparr>nd_byHash := filter (\<lambda>(h, e). e \<noteq> a) (nd_byHash nd),
     nd_sessions := del (ses_ID (ms_session (nd_heap nd ! a))) (nd_sessions nd)\<rparr>"

section \<open>Elevating\<close>

definition Elevate ::
    "(string \<Rightarrow> string) \<Rightarrow> session_env \<Rightarrow> string \<Rightarrow> string \<Rightarrow> string \<Rightarrow> node \<Rightarrow> MemStore
     \<Rightarrow> (session_error + Session \<times> string) \<times> node \<times> MemStore" where
  "Elevate H v sessionID credentialID sourceIP nd st =
     (case map_of (nd_sessions nd) sessionID of
        None \<Rightarrow> (Inl ErrSessionNotFound, nd, st)
      | Some a \<Rightarrow>
          (let ms = nd_heap nd ! a; s = ms_session ms; now = sv_now v
           in if ms_revoked ms then (Inl ErrSessionRevoked, nd, st)
              else if now > ses_AbsoluteExpiresAt s then (Inl ErrSessionExpired, nd, st)
              else if now > ses_LastActivity s + cfg_IdleTimeout (nd_cfg nd) then (Inl ErrSessionExpired, nd, st)
              else case sv_token v of
                None \<Rightarrow> (Inl TokenFault, nd, st)
              | Some newToken \<Rightarrow>
                  (let updated = s\<lparr>ses_Assurance := AssuranceStrong, ses_BoundIP := sourceIP,
                         ses_CredentialID := credentialID,
                         ses_LoginCredentialID := (if ses_LoginCredentialID s = [] then credentialID else ses_LoginCredentialID s),
                         ses_LastProvenAt := Some now, ses_LastActivity := now\<rparr>;
                       prevExpiry = now + cfg_GraceWindow (nd_cfg nd);
                       (e, st') = faulty (sv_write v) st
                         (store_Rotate now (ms_currentHash ms) (H newToken) updated prevExpiry st)
                   in if e = Some ErrSessionNotFound \<or> e = Some ErrSessionRevoked
                      then (Inl ErrSessionRevoked, set_ms a (ms\<lparr>ms_revoked := True\<rparr>) nd, st')
                      else if e = Some ErrTokenRotated then (Inl ErrSessionExpired, evict a nd, st')
                      else (case e of
                              Some e \<Rightarrow> (Inl e, nd, st')
                            | None \<Rightarrow>
                                (Inr (updated, newToken),
                                 applyRotation a (ms_currentHash ms) (H newToken) prevExpiry
                                   (set_ms a (ms\<lparr>ms_session := updated\<rparr>) nd), st')))))"

section \<open>Reading and revoking\<close>

definition GetByID :: "session_env \<Rightarrow> string \<Rightarrow> node \<Rightarrow> MemStore \<Rightarrow> (session_error + Session) \<times> node" where
  "GetByID v i nd st =
     (case map_of (nd_sessions nd) i of
        Some a \<Rightarrow>
          (let ms = nd_heap nd ! a; s = ms_session ms; now = sv_now v
           in if ms_revoked ms then (Inl ErrSessionNotFound, nd)
              else if ses_Channel s \<noteq> cfg_Channel (nd_cfg nd) then (Inl ErrSessionNotFound, nd)
              else if now > ses_AbsoluteExpiresAt s \<or> now > ses_LastActivity s + cfg_IdleTimeout (nd_cfg nd)
                   then (Inl ErrSessionNotFound, nd)
              else case api_GetByID v i st of
                Inl e \<Rightarrow>
                  if e = ErrSessionNotFound then (Inl ErrSessionNotFound, set_ms a (ms\<lparr>ms_revoked := True\<rparr>) nd)
                  else (Inl e, nd)
              | Inr _ \<Rightarrow> (Inr s, nd))
      | None \<Rightarrow>
          (case api_GetByID v i st of
             Inl e \<Rightarrow> (Inl e, nd)
           | Inr stored \<Rightarrow>
               if ses_Channel stored \<noteq> cfg_Channel (nd_cfg nd) then (Inl ErrSessionNotFound, nd) else (Inr stored, nd)))"

definition Revoke :: "session_env \<Rightarrow> string \<Rightarrow> node \<Rightarrow> MemStore \<Rightarrow> session_error option \<times> node \<times> MemStore" where
  "Revoke v i nd st =
     (case map_of (nd_sessions nd) i of
        None \<Rightarrow>
          (case api_GetByID v i st of
             Inl e \<Rightarrow> (Some e, nd, st)
           | Inr stored \<Rightarrow>
               if ses_Channel stored \<noteq> cfg_Channel (nd_cfg nd) then (Some ErrSessionNotFound, nd, st)
               else (let (e, st') = faulty (sv_write v) st (store_Delete i st) in (e, nd, st')))
      | Some a \<Rightarrow>
          (let ms = nd_heap nd ! a
           in if ses_Channel (ms_session ms) \<noteq> cfg_Channel (nd_cfg nd) then (Some ErrSessionNotFound, nd, st)
              else (let nd = set_ms a (ms\<lparr>ms_revoked := True\<rparr>) nd;
                        (e, st') = faulty (sv_write v) st (store_Delete i st)
                    in (if e = Some ErrSessionNotFound then None else e, nd, st'))))"

text \<open>\<open>faults\<close> tells which of the deletions fail.\<close>

fun revoke_each ::
    "(string \<Rightarrow> write_fault) \<Rightarrow> string \<Rightarrow> Session list \<Rightarrow> string list \<Rightarrow> nat \<Rightarrow> node \<Rightarrow> MemStore \<Rightarrow> nat \<times> node \<times> MemStore" where
  "revoke_each faults principalID [] seen n nd st = (n, nd, st)"
| "revoke_each faults principalID (s # ss) seen n nd st =
     (if ses_PrincipalID s \<noteq> principalID \<or> ses_ID s \<in> set seen then revoke_each faults principalID ss seen n nd st
      else case faulty (faults (ses_ID s)) st (store_Delete (ses_ID s) st) of
        (Some _, st) \<Rightarrow> revoke_each faults principalID ss (ses_ID s # seen) n nd st
      | (None, st) \<Rightarrow>
          (let nd = (case map_of (nd_sessions nd) (ses_ID s) of
                       None \<Rightarrow> nd | Some a \<Rightarrow> set_ms a ((nd_heap nd ! a)\<lparr>ms_revoked := True\<rparr>) nd)
           in revoke_each faults principalID ss (ses_ID s # seen) (Suc n) nd st))"

definition RevokeAllForPrincipal ::
    "record_order \<Rightarrow> (string \<Rightarrow> write_fault) \<Rightarrow> session_env \<Rightarrow> string \<Rightarrow> node \<Rightarrow> MemStore
     \<Rightarrow> (session_error + nat) \<times> node \<times> MemStore" where
  "RevokeAllForPrincipal rng faults v principalID nd st =
     (if sv_read v then (Inl StoreFault, nd, st)
      else let (n, nd, st) = revoke_each faults principalID (store_ListAll rng (sv_now v) st) [] 0 nd st
           in (Inr n, nd, st))"

text \<open>\<open>order\<close> is the order in which the node's sessions are iterated.\<close>

fun list_stored :: "(Session \<Rightarrow> bool) \<Rightarrow> string list \<Rightarrow> Session list \<Rightarrow> Session list" where
  "list_stored live seen [] = []"
| "list_stored live seen (s # ss) =
     (if ses_ID s \<notin> set seen \<and> live s then s # list_stored live (ses_ID s # seen) ss else list_stored live seen ss)"

definition List_sessions ::
    "((string \<times> nat) list \<Rightarrow> (string \<times> nat) list) \<Rightarrow> record_order \<Rightarrow> session_env \<Rightarrow> node \<Rightarrow> MemStore \<Rightarrow> Session list" where
  "List_sessions order rng v nd st =
     (let now = sv_now v;
          live = (\<lambda>s. ses_Channel s = cfg_Channel (nd_cfg nd) \<and> now < ses_AbsoluteExpiresAt s \<and>
                   now < ses_LastActivity s + cfg_IdleTimeout (nd_cfg nd));
          snapshot = map (\<lambda>(_, a). nd_heap nd ! a) (order (nd_sessions nd));
          out = map ms_session (filter (\<lambda>ms. \<not> ms_revoked ms \<and> live (ms_session ms)) snapshot)
      in if nd_sessions nd = [] \<and> \<not> sv_read v
         then out @ list_stored live (map ses_ID out) (store_ListAll rng now st) else out)"

end
