(* ===== verification/Session_Laws.thy ===== *)
theory Session_Laws
  imports Session_Manager
begin

text \<open>
  Laws of the session managers of a cluster: nodes that share one store and whose operations come
  in any order, with faults of the store, sweeps and restarts in between.
\<close>

section \<open>What every call keeps\<close>

text \<open>
  Of a node: every address is on the heap, a token hash leads to the session it was drawn for, and
  a session identifier to a session that has it.
\<close>

definition node_ok :: "owners \<Rightarrow> node \<Rightarrow> bool" where
  "node_ok own nd \<longleftrightarrow>
     (\<forall>(h, a) \<in> set (nd_byHash nd). a < length (nd_heap nd) \<and> own h = Some (ident (ms_session (nd_heap nd ! a)))) \<and>
     (\<forall>(i, a) \<in> set (nd_sessions nd). a < length (nd_heap nd) \<and> ses_ID (ms_session (nd_heap nd ! a)) = i) \<and>
     (\<forall>ms \<in> set (nd_heap nd). own (ms_currentHash ms) = Some (ident (ms_session ms)))"

text \<open>Token hashes drawn for one session agree on it.\<close>

definition owners_agree :: "owners \<Rightarrow> bool" where
  "owners_agree own \<longleftrightarrow> (\<forall>h h' x x'. own h = Some x \<longrightarrow> own h' = Some x' \<longrightarrow> fst x = fst x' \<longrightarrow> x = x')"

definition owned_ids :: "owners \<Rightarrow> string set" where
  "owned_ids own = fst ` ran own"

definition grows :: "string option \<Rightarrow> string option \<Rightarrow> owners \<Rightarrow> owners \<Rightarrow> bool" where
  "grows hn idn own own' \<longleftrightarrow> own \<subseteq>\<^sub>m own' \<and> owners_agree own' \<and>
     dom own' \<subseteq> dom own \<union> set_option hn \<and> owned_ids own' \<subseteq> owned_ids own \<union> set_option idn"

definition call_ok :: "owners \<Rightarrow> session_env \<Rightarrow> string option \<Rightarrow> string option \<Rightarrow> node \<Rightarrow> MemStore \<Rightarrow> node \<Rightarrow> MemStore \<Rightarrow> bool" where
  "call_ok own v hn idn nd st nd' st' \<longleftrightarrow>
     node_ok own nd' \<and> nd_cfg nd' = nd_cfg nd \<and> store_ok own st' \<and> evolves (sv_now v) hn idn st st'"

lemma ident_fst: "fst (ident s) = ses_ID s"
  by (simp add: ident_def)

lemma ident_upd [simp]:
  "ident (s\<lparr>ses_LastActivity := x1\<rparr>) = ident s" "ident (s\<lparr>ses_Assurance := x2\<rparr>) = ident s"
  "ident (s\<lparr>ses_CredentialID := x3\<rparr>) = ident s" "ident (s\<lparr>ses_LoginCredentialID := x4\<rparr>) = ident s"
  "ident (s\<lparr>ses_BoundIP := x5\<rparr>) = ident s" "ident (s\<lparr>ses_LastProvenAt := x6\<rparr>) = ident s"
  by (simp_all add: ident_def)

lemma ident_fields:
  assumes "ident s = ident s'"
  shows "ses_ID s = ses_ID s'" "ses_PrincipalID s = ses_PrincipalID s'"
    "ses_AbsoluteExpiresAt s = ses_AbsoluteExpiresAt s'" "ses_Channel s = ses_Channel s'"
  using assms by (simp_all add: ident_def)

lemma set_put_subset: "set (put k x m) \<subseteq> insert (k, x) (set m)"
  by (induction m) (auto split: if_splits)

lemma set_del_subset: "set (del k m) \<subseteq> set m"
  by (auto simp: del_def)

lemma node_okD:
  assumes "node_ok own nd"
  shows "(h, a) \<in> set (nd_byHash nd) \<Longrightarrow> a < length (nd_heap nd) \<and> own h = Some (ident (ms_session (nd_heap nd ! a)))"
    "(i, a) \<in> set (nd_sessions nd) \<Longrightarrow> a < length (nd_heap nd) \<and> ses_ID (ms_session (nd_heap nd ! a)) = i"
    "a < length (nd_heap nd) \<Longrightarrow> own (ms_currentHash (nd_heap nd ! a)) = Some (ident (ms_session (nd_heap nd ! a)))"
  using assms by (auto simp: node_ok_def)

lemma node_ok_mono: "node_ok own nd \<Longrightarrow> own \<subseteq>\<^sub>m own' \<Longrightarrow> node_ok own' nd"
  by (fastforce simp: node_ok_def dest: own_le)

lemma NewNode_ok [simp]: "node_ok own (NewNode cfg)"
  by (simp add: node_ok_def NewNode_def)

lemma set_ms_ok:
  assumes "node_ok own nd" and "a < length (nd_heap nd)" and "ident (ms_session ms) = ident (ms_session (nd_heap nd ! a))"
    and "own (ms_currentHash ms) = Some (ident (ms_session ms))"
  shows "node_ok own (set_ms a ms nd)"
proof -
  have same: "ident (ms_session ((nd_heap nd)[a := ms] ! b)) = ident (ms_session (nd_heap nd ! b))" for b
    using assms(2,3) by (cases "a = b") auto
  have "ses_ID (ms_session ((nd_heap nd)[a := ms] ! b)) = ses_ID (ms_session (nd_heap nd ! b))" for b
    by (rule ident_ID [OF same])
  moreover have "\<forall>m \<in> set ((nd_heap nd)[a := ms]). own (ms_currentHash m) = Some (ident (ms_session m))"
    using assms(1,4) set_update_subset_insert [of "nd_heap nd" a ms] by (auto simp: node_ok_def)
  ultimately show ?thesis using assms(1) same by (simp add: node_ok_def set_ms_def)
qed

lemma set_ms_cfg [simp]: "nd_cfg (set_ms a ms nd) = nd_cfg nd" "length (nd_heap (set_ms a ms nd)) = length (nd_heap nd)"
  "a < length (nd_heap nd) \<Longrightarrow> nd_heap (set_ms a ms nd) ! a = ms"
  by (simp_all add: set_ms_def)

lemma revoked_ok:
  assumes "node_ok own nd" and "a < length (nd_heap nd)"
  shows "node_ok own (set_ms a ((nd_heap nd ! a)\<lparr>ms_revoked := True\<rparr>) nd)"
  using assms node_okD(3) [OF assms] by (intro set_ms_ok) simp_all

lemma node_add_ok:
  assumes "node_ok own nd" and "own h = Some (ident s)"
  shows "node_ok own (nd\<lparr>nd_heap := nd_heap nd @ [\<lparr>ms_session = s, ms_currentHash = h, ms_prevHash = [],
      ms_prevExpiry = None, ms_revoked = False\<rparr>],
    nd_sessions := put (ses_ID s) (length (nd_heap nd)) (nd_sessions nd), nd_byHash := put h (length (nd_heap nd)) (nd_byHash nd)\<rparr>)"
  using assms set_put_subset [of h "length (nd_heap nd)" "nd_byHash nd"] set_put_subset [of "ses_ID s" "length (nd_heap nd)" "nd_sessions nd"]
  by (fastforce simp: node_ok_def nth_append)

lemma node_fields_commute [simp]: "nd\<lparr>nd_byHash := b, nd_sessions := s\<rparr> = nd\<lparr>nd_sessions := s, nd_byHash := b\<rparr>"
  by (cases nd) simp

lemma node_shrink_ok:
  assumes "node_ok own nd" and "set bh \<subseteq> set (nd_byHash nd)" and "set ss \<subseteq> set (nd_sessions nd)"
  shows "node_ok own (nd\<lparr>nd_sessions := ss, nd_byHash := bh\<rparr>)"
  using assms by (fastforce simp: node_ok_def)

lemma node_alias_ok:
  assumes "node_ok own nd" and "a < length (nd_heap nd)" and "own h = Some (ident (ms_session (nd_heap nd ! a)))"
  shows "node_ok own (nd\<lparr>nd_byHash := put h a (nd_byHash nd)\<rparr>)"
  using assms set_put_subset [of h a "nd_byHash nd"] by (fastforce simp: node_ok_def)

section \<open>The calls\<close>

lemma faulty_cases:
  assumes "faulty f st r = (e, st')"
  obtains "st' = st" "e \<noteq> None" | st1 where "r = Inr st1" "st' = st1" "e = None \<or> e = Some StoreFault"
  using assms by (cases f; cases r) (auto simp: faulty_def)

lemma faulty_None: "faulty f st r = (None, st') \<Longrightarrow> r = Inr st'"
  by (cases f; cases r) (auto simp: faulty_def)

lemma api_Get_row:
  assumes "api_Get b v h st = Inr s"
  shows "\<exists>e. map_of (st_records st) h = Some e \<and> se_session e = s \<and> usable (sv_now v) e"
  using assms by (auto simp: api_Get_def store_Get_def usable_def split: if_splits option.splits)

lemma lookup_ok:
  assumes nd: "node_ok own nd" and st: "store_ok own st" and own: "owners_agree own" and l: "lookup v h nd st = (x, nd')"
  shows "node_ok own nd'" "nd_cfg nd' = nd_cfg nd"
    "x = Some a \<Longrightarrow> a < length (nd_heap nd') \<and> own h = Some (ident (ms_session (nd_heap nd' ! a)))"
proof -
  have "node_ok own nd' \<and> nd_cfg nd' = nd_cfg nd \<and>
      (\<forall>a. x = Some a \<longrightarrow> a < length (nd_heap nd') \<and> own h = Some (ident (ms_session (nd_heap nd' ! a))))"
  proof (cases "map_of (nd_byHash nd) h")
    case (Some a)
    then show ?thesis using l nd node_okD(1) [OF nd map_of_SomeD [OF Some]] by (auto simp: lookup_def)
  next
    case None
    have l: "loadFromStore v h nd st = (x, nd')" using l None by (simp add: lookup_def)
    show ?thesis
    proof (cases "api_Get (sv_load v) v h st")
      case (Inl e)
      then show ?thesis using l nd by (auto simp: loadFromStore_def)
    next
      case (Inr s)
      obtain e where e: "map_of (st_records st) h = Some e" "se_session e = s" using api_Get_row [OF Inr] by auto
      have h: "own h = Some (ident s)" using store_ok_row(1) [OF st e(1)] e(2) by simp
      show ?thesis
      proof (cases "map_of (nd_sessions nd) (ses_ID s)")
        case None' : None
        then show ?thesis using l None Inr nd h node_add_ok [OF nd h]
          by (auto simp: loadFromStore_def Let_def split: if_splits)
      next
        case (Some a)
        have a: "a < length (nd_heap nd)" "ses_ID (ms_session (nd_heap nd ! a)) = ses_ID s"
          using node_okD(2) [OF nd map_of_SomeD [OF Some]] by auto
        have "own h = Some (ident (ms_session (nd_heap nd ! a)))"
          using own node_okD(3) [OF nd a(1)] h a(2) unfolding owners_agree_def by (metis ident_fst)
        then show ?thesis using l None Inr nd a(1) Some node_alias_ok [OF nd a(1)]
          by (auto simp: loadFromStore_def split: if_splits)
      qed
    qed
  qed
  then show "node_ok own nd'" "nd_cfg nd' = nd_cfg nd"
    "x = Some a \<Longrightarrow> a < length (nd_heap nd') \<and> own h = Some (ident (ms_session (nd_heap nd' ! a)))" by auto
qed

lemma mergeStored_ident: "mergeStored cur stored = Some s \<Longrightarrow> ident s = ident cur"
  by (auto simp: mergeStored_def split: if_splits)

lemma verifyInStore_ok:
  assumes "verifyInStore v h ms st = (e, ms')"
  shows "ident (ms_session ms') = ident (ms_session ms)" "ms_currentHash ms' = ms_currentHash ms"
    "e = None \<Longrightarrow> \<exists>r. map_of (st_records st) h = Some r \<and> usable (sv_now v) r"
  using assms api_Get_row [of "sv_read v" v h st]
  by (auto simp: verifyInStore_def dest: mergeStored_ident split: sum.splits if_splits option.splits)

lemma updateStore_ok:
  assumes "updateStore v h ms st = (e, ms', st')" and "store_ok own st" and "own h = Some (ident (ms_session ms))"
    and "map_of (st_records st) h = Some r"
  shows "ms_session ms' = ms_session ms" "ms_currentHash ms' = ms_currentHash ms" "store_ok own st'"
    "evolves (sv_now v) hn idn st st'"
proof -
  obtain x where f: "faulty (sv_write v) st (store_Update (sv_now v) h (ms_session ms) st) = (x, st')"
    using assms(1) by (auto simp: updateStore_def split: prod.splits if_splits)
  show "ms_session ms' = ms_session ms" "ms_currentHash ms' = ms_currentHash ms"
    using assms(1) by (auto simp: updateStore_def split: prod.splits if_splits)
  from f show "store_ok own st'" "evolves (sv_now v) hn idn st st'"
    using store_Update_rows [OF assms(2-4)] assms(2) by (auto elim!: faulty_cases)
qed

lemma validate_ms_ok:
  assumes v: "validate_ms v cfg h ms st = (r, ms', st')" and st: "store_ok own st" and own: "own h = Some (ident (ms_session ms))"
  shows "ident (ms_session ms') = ident (ms_session ms)" "ms_currentHash ms' = ms_currentHash ms"
    "store_ok own st'" "evolves (sv_now v) hn idn st st'"
    "r = Inr s \<Longrightarrow> ident s = ident (ms_session ms) \<and> sv_now v \<le> ses_AbsoluteExpiresAt s \<and> ses_Channel s = cfg_Channel cfg \<and>
       (\<exists>e. map_of (st_records st) h = Some e \<and> usable (sv_now v) e)"
proof -
  have "ident (ms_session ms') = ident (ms_session ms) \<and> ms_currentHash ms' = ms_currentHash ms \<and>
    store_ok own st' \<and> evolves (sv_now v) hn idn st st' \<and>
    (\<forall>s. r = Inr s \<longrightarrow> ident s = ident (ms_session ms) \<and> sv_now v \<le> ses_AbsoluteExpiresAt s \<and> ses_Channel s = cfg_Channel cfg \<and>
       (\<exists>e. map_of (st_records st) h = Some e \<and> usable (sv_now v) e))"
  proof (cases "ms_revoked ms \<or> ses_Channel (ms_session ms) \<noteq> cfg_Channel cfg")
    case True
    then show ?thesis using v st by (auto simp: validate_ms_def split: if_splits)
  next
    case False
    obtain e m1 where ver: "verifyInStore v h ms st = (e, m1)" by fastforce
    note k = verifyInStore_ok [OF ver]
    show ?thesis
    proof (cases e)
      case (Some x)
      then show ?thesis using v st False ver k by (auto simp: validate_ms_def)
    next
      case None
      obtain row where row: "map_of (st_records st) h = Some row" "usable (sv_now v) row" using k(3) None by auto
      define s2 where "s2 = continuity v cfg (touch_session v (h = ms_prevHash m1) (ms_session m1))"
      have i: "ident s2 = ident (ms_session ms)" using k(1) by (simp add: s2_def continuity_def touch_session_def)
      note i' = ident_fields [OF i] ident_fields [OF k(1)]
      let ?m2 = "m1\<lparr>ms_session := s2\<rparr>"
      obtain ux um ust where u: "updateStore v h ?m2 st = (ux, um, ust)" by (metis prod_cases3)
      have own2: "own h = Some (ident (ms_session ?m2))" using own i by simp
      note uo = updateStore_ok [OF u st own2 row(1)]
      consider "(r, ms', st') = (Inl ErrSessionExpired, m1, st)"
        | x where "ux = Some x" "(r, ms', st') = (Inl x, um, ust)" "sv_now v \<le> ses_AbsoluteExpiresAt (ms_session m1)"
        | "ux = None" "(r, ms', st') = (Inr s2, um, ust)" "sv_now v \<le> ses_AbsoluteExpiresAt (ms_session m1)"
        | "(r, ms', st') = (Inr s2, ?m2, st)" "sv_now v \<le> ses_AbsoluteExpiresAt (ms_session m1)"
        using v False ver None u
        by (auto simp: validate_ms_def Let_def s2_def [symmetric] split: if_splits option.splits)
      then show ?thesis
      proof cases
        case 1
        then show ?thesis using k st by simp
      next
        case 2
        then show ?thesis using uo k i by simp
      next
        case 3
        then show ?thesis using uo k i i' row False by auto
      next
        case 4
        then show ?thesis using st k i i' row False by auto
      qed
    qed
  qed
  then show "ident (ms_session ms') = ident (ms_session ms)" "ms_currentHash ms' = ms_currentHash ms"
    "store_ok own st'" "evolves (sv_now v) hn idn st st'"
    "r = Inr s \<Longrightarrow> ident s = ident (ms_session ms) \<and> sv_now v \<le> ses_AbsoluteExpiresAt s \<and> ses_Channel s = cfg_Channel cfg \<and>
       (\<exists>e. map_of (st_records st) h = Some e \<and> usable (sv_now v) e)" by auto
qed

lemma Validate_ok:
  assumes nd: "node_ok own nd" and st: "store_ok own st" and own: "owners_agree own" and v: "Validate H v token nd st = (r, nd', st')"
  shows "call_ok own v hn idn nd st nd' st'"
    "r = Inr s \<Longrightarrow> own (H token) = Some (ident s) \<and> sv_now v \<le> ses_AbsoluteExpiresAt s \<and>
       ses_Channel s = cfg_Channel (nd_cfg nd) \<and> (\<exists>e. map_of (st_records st) (H token) = Some e \<and> usable (sv_now v) e)"
proof -
  obtain x n1 where l: "lookup v (H token) nd st = (x, n1)" by fastforce
  note lo = lookup_ok [OF nd st own l]
  have "call_ok own v hn idn nd st nd' st' \<and>
    (\<forall>s. r = Inr s \<longrightarrow> own (H token) = Some (ident s) \<and> sv_now v \<le> ses_AbsoluteExpiresAt s \<and>
       ses_Channel s = cfg_Channel (nd_cfg nd) \<and> (\<exists>e. map_of (st_records st) (H token) = Some e \<and> usable (sv_now v) e))"
  proof (cases x)
    case None
    then show ?thesis using v l lo st by (auto simp: Validate_def call_ok_def)
  next
    case (Some a)
    have a: "a < length (nd_heap n1)" "own (H token) = Some (ident (ms_session (nd_heap n1 ! a)))" using lo(3) [OF Some] by auto
    obtain m where m: "validate_ms v (nd_cfg n1) (H token) (nd_heap n1 ! a) st = (r, m, st')" "nd' = set_ms a m n1"
      using v l Some by (auto simp: Validate_def split: prod.splits)
    note vo = validate_ms_ok [OF m(1) st a(2)]
    have "node_ok own nd'" unfolding m(2)
      using set_ms_ok [OF lo(1) a(1) vo(1)] node_okD(3) [OF lo(1) a(1)] vo(1,2) by simp
    then show ?thesis using vo(3,4,5) lo(2) a(2) by (auto simp: call_ok_def m(2))
  qed
  then show "call_ok own v hn idn nd st nd' st'"
    "r = Inr s \<Longrightarrow> own (H token) = Some (ident s) \<and> sv_now v \<le> ses_AbsoluteExpiresAt s \<and>
       ses_Channel s = cfg_Channel (nd_cfg nd) \<and> (\<exists>e. map_of (st_records st) (H token) = Some e \<and> usable (sv_now v) e)" by auto
qed

lemma grows_refl: "owners_agree own \<Longrightarrow> grows hn idn own own"
  by (auto simp: grows_def)

lemma grows_upd:
  assumes "owners_agree own" and "h \<notin> dom own" and "\<And>h' x'. own h' = Some x' \<Longrightarrow> fst x' = fst x \<Longrightarrow> x' = x"
    and "fst x \<in> owned_ids own \<union> set_option idn"
  shows "grows (Some h) idn own (own(h \<mapsto> x))"
proof -
  have "owners_agree (own(h \<mapsto> x))"
    using assms(1,3) unfolding owners_agree_def fun_upd_apply by (metis option.inject)
  moreover have "ran (own(h \<mapsto> x)) = insert x (ran own)" using assms(2) by (meson domIff ran_map_upd)
  moreover have "own \<subseteq>\<^sub>m own(h \<mapsto> x)" using assms(2) by (simp add: map_le_def)
  ultimately show ?thesis using assms(4) by (auto simp: grows_def owned_ids_def)
qed

lemma grows_new:
  assumes "owners_agree own" and "h \<notin> dom own" and "fst x \<notin> owned_ids own"
  shows "grows (Some h) (Some (fst x)) own (own(h \<mapsto> x))"
  using assms by (intro grows_upd) (auto simp: owned_ids_def ran_def image_iff)

lemma grows_same:
  assumes "owners_agree own" and "h \<notin> dom own" and "own h' = Some x"
  shows "grows (Some h) idn own (own(h \<mapsto> x))"
proof (rule grows_upd [OF assms(1,2)])
  show "x' = x" if "own k = Some x'" "fst x' = fst x" for k x'
    using assms(1,3) that unfolding owners_agree_def by blast
  show "fst x \<in> owned_ids own \<union> set_option idn" using ranI [of own h' x, OF assms(3)] by (auto simp: owned_ids_def)
qed

lemma fresh_row: "store_ok own st \<Longrightarrow> h \<notin> dom own \<Longrightarrow> map_of (st_records st) h = None"
  by (cases "map_of (st_records st) h") (auto dest: store_ok_row)

lemma issue_ok:
  assumes nd: "node_ok own nd" and st: "store_ok own st" and own: "owners_agree own"
    and i: "issue H v p c t rs lc cc nd st = (r, nd', st')"
    and fresh: "\<And>tok. sv_token v = Some tok \<Longrightarrow> H tok \<notin> dom own" "sv_uuid v \<notin> owned_ids own"
  shows "\<exists>own'. grows (map_option H (sv_token v)) (Some (sv_uuid v)) own own' \<and>
    call_ok own' v (map_option H (sv_token v)) (Some (sv_uuid v)) nd st nd' st' \<and>
    (\<forall>s tok. r = Inr (s, tok) \<longrightarrow> own' (H tok) = Some (ident s))"
proof (cases "sv_token v")
  case None
  then show ?thesis using i nd st grows_refl [OF own] by (intro exI [of _ own]) (auto simp: issue_def call_ok_def)
next
  case (Some tok)
  define s where "s = \<lparr>ses_ID = sv_uuid v, ses_ConnectionName = c, ses_PrincipalID = p,
    ses_TenantID = t, ses_IssuedAt = sv_now v, ses_LastActivity = sv_now v,
    ses_AbsoluteExpiresAt = sv_now v + cfg_AbsoluteTimeout (nd_cfg nd), ses_Assurance = AssuranceBasic,
    ses_CredentialID = cc, ses_LoginCredentialID = lc, ses_BoundIP = [],
    ses_LastProvenAt = None, ses_RootScoped = rs, ses_Channel = cfg_Channel (nd_cfg nd)\<rparr>"
  define own' where "own' = own(H tok \<mapsto> ident s)"
  have sid: "ses_ID s = sv_uuid v" by (simp add: s_def)
  have g: "grows (Some (H tok)) (Some (sv_uuid v)) own own'"
    using grows_new [OF own fresh(1) [OF Some], of "ident s"] fresh(2) by (simp add: own'_def ident_fst sid)
  have le: "own \<subseteq>\<^sub>m own'" using g by (simp add: grows_def)
  have h: "own' (H tok) = Some (ident s)" by (simp add: own'_def)
  note st2 = store_Set_rows [OF store_ok_mono [OF st le] h fresh_row [OF st fresh(1) [OF Some]]]
  define n1 where "n1 = nd\<lparr>nd_heap := nd_heap nd @ [\<lparr>ms_session = s, ms_currentHash = H tok, ms_prevHash = [],
      ms_prevExpiry = None, ms_revoked = False\<rparr>],
    nd_sessions := put (ses_ID s) (length (nd_heap nd)) (nd_sessions nd),
    nd_byHash := put (H tok) (length (nd_heap nd)) (nd_byHash nd)\<rparr>"
  have n1: "node_ok own' n1" unfolding n1_def by (rule node_add_ok [OF node_ok_mono [OF nd le] h])
  obtain e f where f: "faulty (sv_write v) st (store_Set (H tok) s st) = (e, f)" by fastforce
  have res: "(r, nd', st') = (case e of Some e \<Rightarrow> (Inl e, n1\<lparr>nd_sessions := del (ses_ID s) (nd_sessions n1),
      nd_byHash := del (H tok) (nd_byHash n1)\<rparr>, f) | None \<Rightarrow> (Inr (s, tok), n1, f))"
    using i Some f by (auto simp: issue_def Let_def s_def [symmetric] n1_def split: option.splits)
  have store: "store_ok own' f \<and> evolves (sv_now v) (Some (H tok)) (Some (sv_uuid v)) st f"
    using f st2 store_ok_mono [OF st le] by (auto elim!: faulty_cases simp: sid)
  have node: "node_ok own' nd'" "nd_cfg nd' = nd_cfg nd"
    using res n1 node_shrink_ok [OF n1 set_del_subset set_del_subset] by (auto simp: n1_def split: option.splits)
  show ?thesis using g store node res h Some
    by (intro exI [of _ own']) (auto simp: call_ok_def split: option.splits)
qed

lemma applyRotation_ok:
  assumes "node_ok own nd" and a: "a < length (nd_heap nd)" and h: "own hn = Some (ident (ms_session (nd_heap nd ! a)))"
  shows "node_ok own (applyRotation a p hn x nd)"
proof -
  let ?m = "(nd_heap nd ! a)\<lparr>ms_prevHash := p, ms_prevExpiry := Some x, ms_currentHash := hn\<rparr>"
  have 1: "node_ok own (set_ms a ?m nd)" using assms by (intro set_ms_ok) simp_all
  let ?bh = "if ms_prevHash (nd_heap nd ! a) \<noteq> [] \<and> ms_prevHash (nd_heap nd ! a) \<noteq> p
    then del (ms_prevHash (nd_heap nd ! a)) (nd_byHash nd) else nd_byHash nd"
  have 2: "node_ok own ((set_ms a ?m nd)\<lparr>nd_sessions := nd_sessions (set_ms a ?m nd), nd_byHash := ?bh\<rparr>)"
    using set_del_subset [of "ms_prevHash (nd_heap nd ! a)" "nd_byHash nd"] by (intro node_shrink_ok [OF 1]) (auto simp: set_ms_def)
  show ?thesis using node_alias_ok [OF 2, of a hn] a h by (simp add: applyRotation_def Let_def set_ms_def)
qed

lemma applyRotation_cfg [simp]: "nd_cfg (applyRotation a p hn x nd) = nd_cfg nd"
  by (simp add: applyRotation_def Let_def)

text \<open>The rotation that \<open>Renew\<close> and \<open>Elevate\<close> ask the store for, whether or not it fails.\<close>

lemma rotation_ok:
  assumes st: "store_ok own st" and own: "owners_agree own" "own h' = Some (ident s)" and fresh: "hn \<notin> dom own"
    and f: "faulty f st (store_Rotate now p hn s x st) = (e, st')"
  shows "grows (Some hn) idn own (own(hn \<mapsto> ident s))" "store_ok (own(hn \<mapsto> ident s)) st'" "evolves now (Some hn) idn' st st'"
proof -
  let ?own = "own(hn \<mapsto> ident s)"
  note fun_upd_apply [simp del]
  show g: "grows (Some hn) idn own ?own" by (rule grows_same [OF own(1) fresh own(2)])
  then have st': "store_ok ?own st" using store_ok_mono [OF st] by (simp add: grows_def)
  have h: "?own hn = Some (ident s)" by (rule fun_upd_same)
  note r = store_Rotate_rows [OF st' h fresh_row [OF st fresh]]
  show "store_ok ?own st'" "evolves now (Some hn) idn' st st'" using f st' r by (auto elim!: faulty_cases)
qed

text \<open>What a call that may draw a token shows.\<close>

definition call_grows ::
    "(string \<Rightarrow> string) \<Rightarrow> owners \<Rightarrow> session_env \<Rightarrow> node \<Rightarrow> MemStore \<Rightarrow> node \<Rightarrow> MemStore \<Rightarrow> bool" where
  "call_grows H own v nd st nd' st' \<longleftrightarrow>
     (\<exists>own'. grows (map_option H (sv_token v)) None own own' \<and> call_ok own' v (map_option H (sv_token v)) None nd st nd' st')"

lemma call_growsI:
  assumes "owners_agree own" and "node_ok own nd'" and "nd_cfg nd' = nd_cfg nd" and "store_ok own st"
  shows "call_grows H own v nd st nd' st"
  using assms grows_refl by (auto simp: call_grows_def call_ok_def)

lemma rotate_commit:
  assumes nd: "node_ok own nd" and a: "a < length (nd_heap nd)" and st: "store_ok own st" and own: "owners_agree own"
    and tok: "sv_token v = Some tok" and fresh: "H tok \<notin> dom own" and i: "ident s = ident (ms_session (nd_heap nd ! a))"
    and f: "faulty f st (store_Rotate (sv_now v) p (H tok) s x st) = (e, st')"
    and cfg: "nd_cfg nd' = nd_cfg nd"
    and nd': "node_ok own nd' \<or>
      nd' = applyRotation a p (H tok) x (set_ms a ((nd_heap nd ! a)\<lparr>ms_session := s\<rparr>) nd)"
  shows "call_grows H own v nd st nd' st'"
proof -
  let ?own = "own(H tok \<mapsto> ident s)"
  have "own (ms_currentHash (nd_heap nd ! a)) = Some (ident s)" using node_okD(3) [OF nd a] i by simp
  note r = rotation_ok [OF st own this fresh f]
  have le: "own \<subseteq>\<^sub>m ?own" using r(1) by (simp add: grows_def)
  have n: "node_ok ?own nd" by (rule node_ok_mono [OF nd le])
  let ?n = "set_ms a ((nd_heap nd ! a)\<lparr>ms_session := s\<rparr>) nd"
  have "node_ok ?own ?n" using node_okD(3) [OF n a] i by (intro set_ms_ok [OF n a]) simp_all
  then have "node_ok ?own (applyRotation a p (H tok) x ?n)" using a by (intro applyRotation_ok) simp_all
  then have "node_ok ?own nd'" using nd' node_ok_mono [OF _ le] by auto
  then show ?thesis using r(1) [of None] r(2) r(3) [of None] cfg tok
    by (auto simp: call_grows_def call_ok_def simp del: fun_upd_apply)
qed

lemma rotate_token_ok:
  assumes nd: "node_ok own nd" and a: "a < length (nd_heap nd)" and st: "store_ok own st" and own: "owners_agree own"
    and fresh: "\<And>tok. sv_token v = Some tok \<Longrightarrow> H tok \<notin> dom own"
    and r: "rotate_token H v h a nd st = (r, nd', st')"
  shows "call_grows H own v nd st nd' st' \<and> (\<forall>s x. r = Inr (s, x) \<longrightarrow> ident s = ident (ms_session (nd_heap nd ! a)))"
proof (cases "sv_token v")
  case None
  then show ?thesis using r call_growsI [OF own nd _ st] by (auto simp: rotate_token_def)
next
  case (Some tok)
  let ?s = "(ms_session (nd_heap nd ! a))\<lparr>ses_LastActivity := sv_now v\<rparr>"
  obtain e st1 where f: "faulty (sv_write v) st (store_Rotate (sv_now v) h (H tok) ?s
      (sv_now v + cfg_GraceWindow (nd_cfg nd)) st) = (e, st1)" by fastforce
  have i: "ident ?s = ident (ms_session (nd_heap nd ! a))" by simp
  note c = rotate_commit [where H = H, OF nd a st own Some fresh [OF Some] i f]
  show ?thesis using r Some f c [of nd'] nd revoked_ok [OF nd a]
    by (auto simp: rotate_token_def Let_def split: if_splits option.splits)
qed

lemma Renew_ok:
  assumes nd: "node_ok own nd" and st: "store_ok own st" and own: "owners_agree own"
    and fresh: "\<And>tok. sv_token v = Some tok \<Longrightarrow> H tok \<notin> dom own"
    and r: "Renew H v token nd st = (r, nd', st')"
  shows "call_grows H own v nd st nd' st'"
    "r = Inr (s, y) \<Longrightarrow> own (H token) = Some (ident s) \<and> (\<exists>e. map_of (st_records st) (H token) = Some e \<and> usable (sv_now v) e)"
proof -
  obtain x n1 where l: "lookup v (H token) nd st = (x, n1)" by fastforce
  note lo = lookup_ok [OF nd st own l]
  have base: "call_grows H own v n1 st nd' st' \<Longrightarrow> call_grows H own v nd st nd' st'"
    using lo(2) by (simp add: call_grows_def call_ok_def)
  have "call_grows H own v nd st nd' st' \<and>
    (\<forall>s y. r = Inr (s, y) \<longrightarrow> own (H token) = Some (ident s) \<and> (\<exists>e. map_of (st_records st) (H token) = Some e \<and> usable (sv_now v) e))"
  proof (cases x)
    case None
    then show ?thesis using r l call_growsI [OF own lo(1) _ st] lo(2) by (auto simp: Renew_def)
  next
    case (Some a)
    have a: "a < length (nd_heap n1)" and h: "own (H token) = Some (ident (ms_session (nd_heap n1 ! a)))"
      using lo(3) [OF Some] by auto
    obtain e m where ver: "verifyInStore v (H token) (nd_heap n1 ! a) st = (e, m)" by fastforce
    note k = verifyInStore_ok [OF ver]
    have n2: "node_ok own (set_ms a m n1)"
      using k(1,2) node_okD(3) [OF lo(1) a] by (intro set_ms_ok [OF lo(1) a]) simp_all
    have a2: "a < length (nd_heap (set_ms a m n1))" using a by simp
    have g: "call_grows H own v (set_ms a m n1) st nd' st' \<Longrightarrow> call_grows H own v nd st nd' st'"
      using lo(2) by (simp add: call_grows_def call_ok_def)
    show ?thesis
      using r l Some ver k lo(2) h a call_growsI [OF own lo(1) _ st] call_growsI [OF own n2 _ st]
        rotate_token_ok [where H = H, OF n2 a2 st own fresh] g
      by (auto simp: Renew_def Let_def split: if_splits option.splits)
  qed
  then show "call_grows H own v nd st nd' st'"
    "r = Inr (s, y) \<Longrightarrow> own (H token) = Some (ident s) \<and> (\<exists>e. map_of (st_records st) (H token) = Some e \<and> usable (sv_now v) e)" by auto
qed

lemma evict_ok: "node_ok own nd \<Longrightarrow> node_ok own (evict a nd)"
  using node_shrink_ok [of own nd "filter (\<lambda>(h, e). e \<noteq> a) (nd_byHash nd)", OF _ _ set_del_subset] by (simp add: evict_def)

lemma Elevate_ok:
  assumes nd: "node_ok own nd" and st: "store_ok own st" and own: "owners_agree own"
    and fresh: "\<And>tok. sv_token v = Some tok \<Longrightarrow> H tok \<notin> dom own"
    and r: "Elevate H v i c ip nd st = (r, nd', st')"
  shows "call_grows H own v nd st nd' st'"
proof (cases "map_of (nd_sessions nd) i")
  case None
  then show ?thesis using r call_growsI [OF own nd _ st] by (auto simp: Elevate_def)
next
  case (Some a)
  have a: "a < length (nd_heap nd)" using node_okD(2) [OF nd map_of_SomeD [OF Some]] by simp
  define ms where "ms = nd_heap nd ! a"
  define s where "s = (ms_session ms)\<lparr>ses_Assurance := AssuranceStrong, ses_BoundIP := ip, ses_CredentialID := c,
    ses_LoginCredentialID := (if ses_LoginCredentialID (ms_session ms) = [] then c else ses_LoginCredentialID (ms_session ms)),
    ses_LastProvenAt := Some (sv_now v), ses_LastActivity := sv_now v\<rparr>"
  have ids: "ident s = ident (ms_session (nd_heap nd ! a))" by (simp add: s_def ms_def)
  show ?thesis
  proof (cases "sv_token v")
    case None
    then show ?thesis using r Some call_growsI [OF own nd _ st] by (auto simp: Elevate_def Let_def split: if_splits)
  next
    case tok: (Some tok)
    obtain e st1 where f: "faulty (sv_write v) st (store_Rotate (sv_now v) (ms_currentHash ms) (H tok) s
        (sv_now v + cfg_GraceWindow (nd_cfg nd)) st) = (e, st1)" by fastforce
    note c = rotate_commit [where H = H, OF nd a st own tok fresh [OF tok] ids f]
    have cfg: "nd_cfg (evict a nd) = nd_cfg nd" by (simp add: evict_def)
    show ?thesis using r Some tok f c [of nd'] nd revoked_ok [OF nd a] evict_ok [OF nd] call_growsI [OF own nd _ st] cfg
      by (auto simp: Elevate_def Let_def ms_def [symmetric] s_def [symmetric] split: if_splits option.splits)
  qed
qed

lemma owned_idI: "own h = Some (ident s) \<Longrightarrow> ses_ID s \<in> owned_ids own"
  unfolding owned_ids_def ran_def using ident_fst [of s] by (metis (mono_tags, lifting) image_eqI mem_Collect_eq)

lemma first_usable_row:
  assumes "first_usable now st hs = Inr s"
  shows "\<exists>h \<in> set hs. \<exists>e. map_of (st_records st) h = Some e \<and> se_session e = s \<and> usable now e"
  using assms by (induction hs) (auto split: option.splits if_splits)

lemma api_GetByID_row:
  assumes "api_GetByID v i st = Inr s" and "store_indexed st"
  shows "\<exists>h e. map_of (st_records st) h = Some e \<and> se_session e = s \<and> ses_ID s = i"
proof -
  obtain h e where "h \<in> set (hashes i st)" "map_of (st_records st) h = Some e" "se_session e = s"
    using first_usable_row [of "sv_now v" st "hashes i st" s] assms(1)
    by (auto simp: api_GetByID_def store_GetByID_def split: if_splits)
  then show ?thesis using assms(2) unfolding store_indexed_def by fastforce
qed

lemma GetByID_ok:
  assumes nd: "node_ok own nd" and st: "store_ok own st" and r: "GetByID v i nd st = (r, nd')"
  shows "call_ok own v None None nd st nd' st"
proof -
  have "node_ok own nd' \<and> nd_cfg nd' = nd_cfg nd"
  proof (cases "map_of (nd_sessions nd) i")
    case None
    then show ?thesis using r nd by (auto simp: GetByID_def split: sum.splits if_splits)
  next
    case (Some a)
    have "a < length (nd_heap nd)" using node_okD(2) [OF nd map_of_SomeD [OF Some]] by simp
    then show ?thesis using r Some nd revoked_ok [OF nd] by (auto simp: GetByID_def Let_def split: sum.splits if_splits)
  qed
  then show ?thesis using st by (simp add: call_ok_def)
qed

text \<open>A deletion, whether or not it fails.\<close>

lemma deletion_ok:
  assumes st: "store_ok own st" and f: "faulty f st (store_Delete i st) = (e, st')"
  shows "store_ok own st'" "map_of (st_records st') h = Some r \<Longrightarrow> map_of (st_records st) h = Some r"
    "e = None \<or> e = Some ErrSessionNotFound \<Longrightarrow> map_of (st_records st') h = Some r \<Longrightarrow> ses_ID (se_session r) \<noteq> i"
proof -
  have ix: "store_indexed st" using st by (simp add: store_ok_def)
  show "store_ok own st'" using f st store_Delete_rows(1) [OF st] by (auto elim!: faulty_cases)
  show "map_of (st_records st') h = Some r \<Longrightarrow> map_of (st_records st) h = Some r"
    using f store_Delete_rows(4) [OF st] by (auto elim!: faulty_cases)
  show "ses_ID (se_session r) \<noteq> i" if "e = None \<or> e = Some ErrSessionNotFound" "map_of (st_records st') h = Some r"
  proof (cases "store_Delete i st")
    case (Inl x)
    then have "st' = st" using f by (cases f) (auto simp: faulty_def)
    then show ?thesis using store_Delete_none [OF ix Inl] that by blast
  next
    case (Inr st1)
    then have "st' = st1" using f that(1) by (cases f) (auto simp: faulty_def)
    then show ?thesis using store_Delete_rows(3) [OF st Inr] that by blast
  qed
qed

lemma evolves_subset:
  assumes "\<And>h r. map_of (st_records st') h = Some r \<Longrightarrow> map_of (st_records st) h = Some r"
  shows "evolves now hn idn st st'"
  using assms by (auto simp: evolves_def)

lemma Revoke_ok:
  assumes nd: "node_ok own nd" and st: "store_ok own st" and r: "Revoke v i nd st = (r, nd', st')"
  shows "call_ok own v None None nd st nd' st'"
    "r = None \<Longrightarrow> i \<in> owned_ids own \<and> (\<forall>h e. map_of (st_records st') h = Some e \<longrightarrow> ses_ID (se_session e) \<noteq> i)"
proof -
  have ix: "store_indexed st" using st by (simp add: store_ok_def)
  obtain e st1 where f: "faulty (sv_write v) st (store_Delete i st) = (e, st1)" by fastforce
  note d = deletion_ok [OF st f]
  have keep: "st' = st \<or> st' = st1" and node: "node_ok own nd' \<and> nd_cfg nd' = nd_cfg nd"
    and fin: "r = None \<Longrightarrow> i \<in> owned_ids own \<and> st' = st1 \<and> (e = None \<or> e = Some ErrSessionNotFound)"
  proof -
    have "(st' = st \<or> st' = st1) \<and> (node_ok own nd' \<and> nd_cfg nd' = nd_cfg nd) \<and>
      (r = None \<longrightarrow> i \<in> owned_ids own \<and> st' = st1 \<and> (e = None \<or> e = Some ErrSessionNotFound))"
    proof (cases "map_of (nd_sessions nd) i")
      case None
      show ?thesis
      proof (cases "api_GetByID v i st")
        case (Inl x)
        then show ?thesis using r None nd by (auto simp: Revoke_def)
      next
        case (Inr s)
        obtain h row where "map_of (st_records st) h = Some row" "se_session row = s" "ses_ID s = i"
          using api_GetByID_row [OF Inr ix] by auto
        then have "i \<in> owned_ids own" using owned_idI [of own h s] store_ok_row(1) [OF st] by auto
        then show ?thesis using r None Inr f nd by (auto simp: Revoke_def split: if_splits)
      qed
    next
      case (Some a)
      have a: "a < length (nd_heap nd)" "ses_ID (ms_session (nd_heap nd ! a)) = i"
        using node_okD(2) [OF nd map_of_SomeD [OF Some]] by auto
      have "i \<in> owned_ids own" using owned_idI [where own = own, OF node_okD(3) [OF nd a(1)]] a(2) by simp
      then show ?thesis using r Some f nd revoked_ok [OF nd a(1)] by (auto simp: Revoke_def Let_def split: if_splits)
    qed
    then show "st' = st \<or> st' = st1" "node_ok own nd' \<and> nd_cfg nd' = nd_cfg nd"
      "r = None \<Longrightarrow> i \<in> owned_ids own \<and> st' = st1 \<and> (e = None \<or> e = Some ErrSessionNotFound)" by auto
  qed
  show "call_ok own v None None nd st nd' st'"
    using keep node st d(1) evolves_subset [of st1 st, OF d(2)] by (auto simp: call_ok_def)
  show "i \<in> owned_ids own \<and> (\<forall>h e. map_of (st_records st') h = Some e \<longrightarrow> ses_ID (se_session e) \<noteq> i)" if "r = None"
    using fin [OF that] d(3) by auto
qed

lemma revoke_each_ok:
  assumes "node_ok own nd" and "store_ok own st" and "revoke_each faults p ss seen n nd st = (n', nd', st')"
  shows "node_ok own nd' \<and> nd_cfg nd' = nd_cfg nd \<and> store_ok own st' \<and>
    (\<forall>h e. map_of (st_records st') h = Some e \<longrightarrow> map_of (st_records st) h = Some e)"
  using assms
proof (induction ss arbitrary: seen n nd st)
  case (Cons s ss)
  show ?case
  proof (cases "ses_PrincipalID s \<noteq> p \<or> ses_ID s \<in> set seen")
    case True
    then show ?thesis using Cons by simp
  next
    case False
    obtain e st1 where f: "faulty (faults (ses_ID s)) st (store_Delete (ses_ID s) st) = (e, st1)" by fastforce
    note d = deletion_ok [OF Cons.prems(2) f]
    define n1 where "n1 = (case map_of (nd_sessions nd) (ses_ID s) of
      None \<Rightarrow> nd | Some a \<Rightarrow> set_ms a ((nd_heap nd ! a)\<lparr>ms_revoked := True\<rparr>) nd)"
    have n1: "node_ok own n1" "nd_cfg n1 = nd_cfg nd"
      using Cons.prems(1) revoked_ok [OF Cons.prems(1)] node_okD(2) [OF Cons.prems(1)]
      by (auto simp: n1_def dest: map_of_SomeD split: option.splits)
    show ?thesis
    proof (cases e)
      case None
      then have "revoke_each faults p ss (ses_ID s # seen) (Suc n) n1 st1 = (n', nd', st')"
        using Cons.prems(3) False f by (simp add: n1_def)
      then show ?thesis using Cons.IH [OF n1(1) d(1)] n1(2) d(2) by fastforce
    next
      case (Some x)
      then have "revoke_each faults p ss (ses_ID s # seen) n nd st1 = (n', nd', st')"
        using Cons.prems(3) False f by simp
      then show ?thesis using Cons.IH [OF Cons.prems(1) d(1)] d(2) by fastforce
    qed
  qed
qed simp

lemma RevokeAll_ok:
  assumes "node_ok own nd" and "store_ok own st" and "RevokeAllForPrincipal rng faults v p nd st = (r, nd', st')"
  shows "call_ok own v None None nd st nd' st'"
proof (cases "sv_read v")
  case True
  then show ?thesis using assms by (auto simp: RevokeAllForPrincipal_def call_ok_def)
next
  case False
  obtain n n1 st1 where e: "revoke_each faults p (store_ListAll rng (sv_now v) st) [] 0 nd st = (n, n1, st1)" by (metis prod_cases3)
  note k = revoke_each_ok [OF assms(1,2) e]
  have "nd' = n1" "st' = st1" using assms(3) False e by (auto simp: RevokeAllForPrincipal_def)
  then show ?thesis using k evolves_subset [of st1 st] by (auto simp: call_ok_def)
qed

end
