(* ===== verification/Session_Cluster.thy ===== *)
theory Session_Cluster
  imports Session_Laws
begin

text \<open>
  Runs of a cluster of session managers: what holds of sessions, revocations and rotated tokens
  whichever operations the nodes perform, in whatever order.
\<close>

section \<open>The cluster\<close>

record cluster =
  cl_nodes :: "node list"
  cl_store :: MemStore

text \<open>A restart loses the memory of a node; a sweep is a pass of the store's reaper.\<close>

datatype session_op =
    OpIssue nat session_env string string string bool string string
  | OpValidate nat session_env string
  | OpRenew nat session_env string
  | OpElevate nat session_env string string string
  | OpGetByID nat session_env string
  | OpRevoke nat session_env string
  | OpRevokeAll nat session_env record_order "string \<Rightarrow> write_fault" string
  | OpSweep record_order instant
  | OpRestart nat

definition at_node :: "nat \<Rightarrow> (node \<Rightarrow> MemStore \<Rightarrow> node \<times> MemStore) \<Rightarrow> cluster \<Rightarrow> cluster" where
  "at_node n f cl =
     (if n < length (cl_nodes cl)
      then let (nd, st) = f (cl_nodes cl ! n) (cl_store cl) in \<lparr>cl_nodes = (cl_nodes cl)[n := nd], cl_store = st\<rparr>
      else cl)"

fun session_step :: "(string \<Rightarrow> string) \<Rightarrow> cluster \<Rightarrow> session_op \<Rightarrow> cluster" where
  "session_step H cl (OpIssue n v p c t rs lc cc) = at_node n (\<lambda>nd st. snd (issue H v p c t rs lc cc nd st)) cl"
| "session_step H cl (OpValidate n v tok) = at_node n (\<lambda>nd st. snd (Validate H v tok nd st)) cl"
| "session_step H cl (OpRenew n v tok) = at_node n (\<lambda>nd st. snd (Renew H v tok nd st)) cl"
| "session_step H cl (OpElevate n v i c ip) = at_node n (\<lambda>nd st. snd (Elevate H v i c ip nd st)) cl"
| "session_step H cl (OpGetByID n v i) = at_node n (\<lambda>nd st. (snd (GetByID v i nd st), st)) cl"
| "session_step H cl (OpRevoke n v i) = at_node n (\<lambda>nd st. snd (Revoke v i nd st)) cl"
| "session_step H cl (OpRevokeAll n v rng faults p) = at_node n (\<lambda>nd st. snd (RevokeAllForPrincipal rng faults v p nd st)) cl"
| "session_step H cl (OpSweep rng now) = cl\<lparr>cl_store := sweep rng now (cl_store cl)\<rparr>"
| "session_step H cl (OpRestart n) = at_node n (\<lambda>nd st. (NewNode (nd_cfg nd), st)) cl"

definition session_run :: "(string \<Rightarrow> string) \<Rightarrow> Config list \<Rightarrow> session_op list \<Rightarrow> cluster" where
  "session_run H cfgs ops = foldl (session_step H) \<lparr>cl_nodes = map NewNode cfgs, cl_store = NewMemStore\<rparr> ops"

text \<open>The token hashes and the identifiers an operation draws, and the time it runs at.\<close>

fun draws_hash :: "(string \<Rightarrow> string) \<Rightarrow> session_op \<Rightarrow> string option" where
  "draws_hash H (OpIssue n v p c t rs lc cc) = map_option H (sv_token v)"
| "draws_hash H (OpRenew n v tok) = map_option H (sv_token v)"
| "draws_hash H (OpElevate n v i c ip) = map_option H (sv_token v)"
| "draws_hash H _ = None"

fun draws_id :: "session_op \<Rightarrow> string option" where
  "draws_id (OpIssue n v p c t rs lc cc) = Some (sv_uuid v)"
| "draws_id _ = None"

fun op_time :: "session_op \<Rightarrow> instant option" where
  "op_time (OpIssue n v p c t rs lc cc) = Some (sv_now v)"
| "op_time (OpValidate n v tok) = Some (sv_now v)"
| "op_time (OpRenew n v tok) = Some (sv_now v)"
| "op_time (OpElevate n v i c ip) = Some (sv_now v)"
| "op_time (OpGetByID n v i) = Some (sv_now v)"
| "op_time (OpRevoke n v i) = Some (sv_now v)"
| "op_time (OpRevokeAll n v rng faults p) = Some (sv_now v)"
| "op_time (OpSweep rng now) = Some now"
| "op_time (OpRestart n) = None"

fun orders_map :: "session_op \<Rightarrow> bool" where
  "orders_map (OpRevokeAll n v rng faults p) \<longleftrightarrow> map_order rng"
| "orders_map (OpSweep rng now) \<longleftrightarrow> map_order rng"
| "orders_map _ \<longleftrightarrow> True"

definition not_before :: "instant \<Rightarrow> session_op \<Rightarrow> bool" where
  "not_before t op \<longleftrightarrow> (case op_time op of None \<Rightarrow> True | Some now \<Rightarrow> t \<le> now)"

definition drawn_hashes :: "(string \<Rightarrow> string) \<Rightarrow> session_op list \<Rightarrow> string list" where
  "drawn_hashes H ops = List.map_filter (draws_hash H) ops"

definition drawn_ids :: "session_op list \<Rightarrow> string list" where
  "drawn_ids ops = List.map_filter draws_id ops"

text \<open>
  What the managers rely on the generators for: no two tokens drawn have one hash, and no two
  sessions one identifier.
\<close>

definition fresh_draws :: "(string \<Rightarrow> string) \<Rightarrow> session_op list \<Rightarrow> bool" where
  "fresh_draws H ops \<longleftrightarrow> distinct (drawn_hashes H ops) \<and> distinct (drawn_ids ops) \<and> list_all orders_map ops"

section \<open>The invariant\<close>

definition cluster_ok :: "string set \<Rightarrow> string set \<Rightarrow> owners \<Rightarrow> cluster \<Rightarrow> bool" where
  "cluster_ok D I own cl \<longleftrightarrow> owners_agree own \<and> store_ok own (cl_store cl) \<and> list_all (node_ok own) (cl_nodes cl) \<and>
     dom own \<subseteq> D \<and> owned_ids own \<subseteq> I"

lemma drawn_simps [simp]:
  "drawn_hashes H [] = []" "drawn_ids [] = []"
  "drawn_hashes H (op # ops) = (case draws_hash H op of None \<Rightarrow> [] | Some h \<Rightarrow> [h]) @ drawn_hashes H ops"
  "drawn_ids (op # ops) = (case draws_id op of None \<Rightarrow> [] | Some i \<Rightarrow> [i]) @ drawn_ids ops"
  "drawn_hashes H (ops @ ops') = drawn_hashes H ops @ drawn_hashes H ops'"
  "drawn_ids (ops @ ops') = drawn_ids ops @ drawn_ids ops'"
  by (simp_all add: drawn_hashes_def drawn_ids_def List.map_filter_def split: option.splits)

lemma cluster_node: "cluster_ok D I own cl \<Longrightarrow> n < length (cl_nodes cl) \<Longrightarrow> node_ok own (cl_nodes cl ! n)"
  by (simp add: cluster_ok_def list_all_length)

lemma at_node_ok:
  assumes cl: "cluster_ok D I own cl"
    and f: "\<And>nd' st'. n < length (cl_nodes cl) \<Longrightarrow> f (cl_nodes cl ! n) (cl_store cl) = (nd', st') \<Longrightarrow>
      \<exists>own'. grows hn idn own own' \<and> call_ok own' v hn idn (cl_nodes cl ! n) (cl_store cl) nd' st'"
  shows "\<exists>own'. own \<subseteq>\<^sub>m own' \<and> cluster_ok (D \<union> set_option hn) (I \<union> set_option idn) own' (at_node n f cl) \<and>
    evolves (sv_now v) hn idn (cl_store cl) (cl_store (at_node n f cl)) \<and>
    map nd_cfg (cl_nodes (at_node n f cl)) = map nd_cfg (cl_nodes cl)"
proof (cases "n < length (cl_nodes cl)")
  case False
  then show ?thesis using cl by (intro exI [of _ own]) (auto simp: at_node_def cluster_ok_def)
next
  case True
  obtain nd' st' where r: "f (cl_nodes cl ! n) (cl_store cl) = (nd', st')" by fastforce
  obtain own' where g: "grows hn idn own own'" and c: "call_ok own' v hn idn (cl_nodes cl ! n) (cl_store cl) nd' st'"
    using f [OF True r] by auto
  have le: "own \<subseteq>\<^sub>m own'" using g by (simp add: grows_def)
  have "list_all (node_ok own') ((cl_nodes cl)[n := nd'])"
    using cl c True node_ok_mono [OF _ le] by (auto simp: list_all_length nth_list_update cluster_ok_def call_ok_def)
  then have "cluster_ok (D \<union> set_option hn) (I \<union> set_option idn) own' (at_node n f cl)"
    using cl g c True r unfolding cluster_ok_def grows_def call_ok_def at_node_def by auto
  moreover have "map nd_cfg ((cl_nodes cl)[n := nd']) = map nd_cfg (cl_nodes cl)"
    using c True by (simp add: call_ok_def map_update) (metis list_update_id nth_map)
  ultimately show ?thesis using le c True r by (auto simp: call_ok_def at_node_def)
qed

lemma not_drawn:
  assumes "cluster_ok D I own cl" and "set_option (draws_hash H op) \<inter> D = {}" and "draws_hash H op = map_option H (sv_token v)"
    and "sv_token v = Some tok"
  shows "H tok \<notin> dom own"
  using assms by (auto simp: cluster_ok_def)

lemma session_step_ok:
  assumes cl: "cluster_ok D I own cl" and fresh: "set_option (draws_hash H op) \<inter> D = {}" "set_option (draws_id op) \<inter> I = {}"
    and m: "orders_map op"
  shows "\<exists>own'. own \<subseteq>\<^sub>m own' \<and> cluster_ok (D \<union> set_option (draws_hash H op)) (I \<union> set_option (draws_id op)) own' (session_step H cl op) \<and>
    evolves (case op_time op of None \<Rightarrow> t0 | Some now \<Rightarrow> now) (draws_hash H op) (draws_id op) (cl_store cl) (cl_store (session_step H cl op)) \<and>
    map nd_cfg (cl_nodes (session_step H cl op)) = map nd_cfg (cl_nodes cl)"
proof -
  have st: "store_ok own (cl_store cl)" and own: "owners_agree own" using cl by (auto simp: cluster_ok_def)
  have r: "grows x y own own" for x y by (rule grows_refl [OF own])
  note nd = cluster_node [OF cl] and no = not_drawn [OF cl fresh(1)]
  show ?thesis
  proof (cases op)
    case (OpIssue n v p c t rs lc cc)
    have i: "sv_uuid v \<notin> owned_ids own" using cl fresh(2) OpIssue by (auto simp: cluster_ok_def)
    have f: "sv_token v = Some tok \<Longrightarrow> H tok \<notin> dom own" for tok using no [of v tok] OpIssue by simp
    show ?thesis unfolding OpIssue draws_hash.simps draws_id.simps op_time.simps session_step.simps option.case
      using issue_ok [where H = H, OF nd st own _ f i] by (intro at_node_ok [OF cl]) (metis prod.collapse)
  next
    case (OpValidate n v tok)
    show ?thesis unfolding OpValidate draws_hash.simps draws_id.simps op_time.simps session_step.simps option.case
      using Validate_ok(1) [OF nd st own] r by (intro at_node_ok [OF cl]) (metis prod.collapse)
  next
    case (OpRenew n v tok)
    have f: "sv_token v = Some tok \<Longrightarrow> H tok \<notin> dom own" for tok using no [of v tok] OpRenew by simp
    show ?thesis unfolding OpRenew draws_hash.simps draws_id.simps op_time.simps session_step.simps option.case
      using Renew_ok(1) [where H = H, OF nd st own f] unfolding call_grows_def
      by (intro at_node_ok [OF cl]) (metis prod.collapse)
  next
    case (OpElevate n v i c ip)
    have f: "sv_token v = Some tok \<Longrightarrow> H tok \<notin> dom own" for tok using no [of v tok] OpElevate by simp
    show ?thesis unfolding OpElevate draws_hash.simps draws_id.simps op_time.simps session_step.simps option.case
      using Elevate_ok [where H = H, OF nd st own f] unfolding call_grows_def
      by (intro at_node_ok [OF cl]) (metis prod.collapse)
  next
    case (OpGetByID n v i)
    show ?thesis unfolding OpGetByID draws_hash.simps draws_id.simps op_time.simps session_step.simps option.case
      using GetByID_ok [OF nd st] r by (intro at_node_ok [OF cl]) (metis prod.collapse prod.inject)
  next
    case (OpRevoke n v i)
    show ?thesis unfolding OpRevoke draws_hash.simps draws_id.simps op_time.simps session_step.simps option.case
      using Revoke_ok(1) [OF nd st] r by (intro at_node_ok [OF cl]) (metis prod.collapse)
  next
    case (OpRevokeAll n v rng faults p)
    show ?thesis unfolding OpRevokeAll draws_hash.simps draws_id.simps op_time.simps session_step.simps option.case
      using RevokeAll_ok [OF nd st] r by (intro at_node_ok [OF cl]) (metis prod.collapse)
  next
    case (OpSweep rng now)
    show ?thesis using sweep_rows [OF st, of rng] cl m OpSweep by (intro exI [of _ own]) (auto simp: cluster_ok_def)
  next
    case (OpRestart n)
    define v :: session_env where "v = \<lparr>sv_now = t0, sv_ip = [], sv_token = None, sv_uuid = [], sv_load = False,
      sv_read = False, sv_readByID = False, sv_write = Works\<rparr>"
    have now: "sv_now v = t0" by (simp add: v_def)
    show ?thesis unfolding OpRestart draws_hash.simps draws_id.simps op_time.simps session_step.simps option.case now [symmetric]
      using st r by (intro at_node_ok [OF cl] exI [of _ own]) (auto simp: call_ok_def NewNode_def node_ok_def)
  qed
qed

lemma session_run_ok:
  assumes "cluster_ok D I own cl" and "list_all orders_map ops" and "list_all (not_before T) ops"
    and "distinct (drawn_hashes H ops)" and "set (drawn_hashes H ops) \<inter> D = {}"
    and "distinct (drawn_ids ops)" and "set (drawn_ids ops) \<inter> I = {}"
    and "Dk \<subseteq> D" and "Ik \<subseteq> I" and "Q (cl_store cl)"
    and keep: "\<And>now hn idn st st'. store_indexed st \<Longrightarrow> Q st \<Longrightarrow> T \<le> now \<Longrightarrow> evolves now hn idn st st' \<Longrightarrow>
      set_option hn \<inter> Dk = {} \<Longrightarrow> set_option idn \<inter> Ik = {} \<Longrightarrow> Q st'"
  shows "\<exists>own'. own \<subseteq>\<^sub>m own' \<and>
    cluster_ok (D \<union> set (drawn_hashes H ops)) (I \<union> set (drawn_ids ops)) own' (foldl (session_step H) cl ops) \<and>
    Q (cl_store (foldl (session_step H) cl ops)) \<and>
    map nd_cfg (cl_nodes (foldl (session_step H) cl ops)) = map nd_cfg (cl_nodes cl)"
  using assms(1-10)
proof (induction ops arbitrary: D I own cl)
  case Nil
  then show ?case by (intro exI [of _ own]) simp
next
  case (Cons op ops)
  let ?cl = "session_step H cl op" and ?D = "D \<union> set_option (draws_hash H op)" and ?I = "I \<union> set_option (draws_id op)"
  let ?now = "case op_time op of None \<Rightarrow> T | Some now \<Rightarrow> now"
  have fresh: "set_option (draws_hash H op) \<inter> D = {}" "set_option (draws_id op) \<inter> I = {}"
    using Cons.prems(5,7) by (auto split: option.splits)
  obtain own1 where 1: "own \<subseteq>\<^sub>m own1" "cluster_ok ?D ?I own1 ?cl"
      "evolves ?now (draws_hash H op) (draws_id op) (cl_store cl) (cl_store ?cl)"
      "map nd_cfg (cl_nodes ?cl) = map nd_cfg (cl_nodes cl)"
    using session_step_ok [OF Cons.prems(1) fresh, of T] Cons.prems(2) by auto
  have "store_indexed (cl_store cl)" using Cons.prems(1) by (simp add: cluster_ok_def store_ok_def)
  moreover have "T \<le> ?now" using Cons.prems(3) by (auto simp: not_before_def split: option.splits)
  ultimately have Q: "Q (cl_store ?cl)" using keep [OF _ Cons.prems(10) _ 1(3)] fresh Cons.prems(8,9) by blast
  obtain own2 where "own1 \<subseteq>\<^sub>m own2"
      "cluster_ok (?D \<union> set (drawn_hashes H ops)) (?I \<union> set (drawn_ids ops)) own2 (foldl (session_step H) ?cl ops)"
      "Q (cl_store (foldl (session_step H) ?cl ops))"
      "map nd_cfg (cl_nodes (foldl (session_step H) ?cl ops)) = map nd_cfg (cl_nodes ?cl)"
    using Cons.IH [OF 1(2)] Cons.prems(2-9) Q by (auto split: option.splits)
  moreover have "?D \<union> set (drawn_hashes H ops) = D \<union> set (drawn_hashes H (op # ops))"
    "?I \<union> set (drawn_ids ops) = I \<union> set (drawn_ids (op # ops))" by (auto split: option.splits)
  ultimately show ?case using 1(1,4) map_le_trans [of own own1 own2] by (intro exI [of _ own2]) simp
qed

lemma time_bound: "\<exists>T \<le> t. list_all (not_before T) ops"
proof (induction ops)
  case (Cons op ops)
  then obtain T where "T \<le> t" "list_all (not_before T) ops" by auto
  then show ?case
    by (intro exI [of _ "min T (case op_time op of None \<Rightarrow> T | Some t \<Rightarrow> t)"])
      (auto simp: not_before_def list_all_iff split: option.splits)
qed auto

text \<open>Every cluster a run reaches satisfies the invariant, and its further runs keep what \<open>evolves\<close> keeps.\<close>

lemma reached_ok:
  assumes "fresh_draws H (ops @ ops')"
  shows "\<exists>own. cluster_ok (set (drawn_hashes H ops)) (set (drawn_ids ops)) own (session_run H cfgs ops)"
    "map nd_cfg (cl_nodes (session_run H cfgs ops)) = cfgs"
proof -
  let ?c0 = "\<lparr>cl_nodes = map NewNode cfgs, cl_store = NewMemStore\<rparr>"
  have c0: "cluster_ok {} {} Map.empty ?c0"
    by (auto simp: cluster_ok_def owners_agree_def store_ok_def store_indexed_def NewMemStore_def hashes_def owned_ids_def list_all_length)
  obtain T where T: "list_all (not_before T) ops" using time_bound by blast
  have "\<exists>own'. Map.empty \<subseteq>\<^sub>m own' \<and>
    cluster_ok ({} \<union> set (drawn_hashes H ops)) ({} \<union> set (drawn_ids ops)) own' (foldl (session_step H) ?c0 ops) \<and>
    True \<and> map nd_cfg (cl_nodes (foldl (session_step H) ?c0 ops)) = map nd_cfg (cl_nodes ?c0)"
    using assms T by (intro session_run_ok [OF c0, where Dk = "{}" and Ik = "{}"]) (auto simp: fresh_draws_def)
  then show "\<exists>own. cluster_ok (set (drawn_hashes H ops)) (set (drawn_ids ops)) own (session_run H cfgs ops)"
    "map nd_cfg (cl_nodes (session_run H cfgs ops)) = cfgs"
    by (auto simp: session_run_def comp_def NewNode_def)
qed

lemma later_ok:
  assumes fresh: "fresh_draws H (ops @ op # ops')" and T: "list_all (not_before T) ops'"
    and Dk: "Dk \<subseteq> set (drawn_hashes H (ops @ [op]))" and Ik: "Ik \<subseteq> set (drawn_ids (ops @ [op]))"
    and Q: "Q (cl_store (session_run H cfgs (ops @ [op])))"
    and keep: "\<And>now hn idn st st'. store_indexed st \<Longrightarrow> Q st \<Longrightarrow> T \<le> now \<Longrightarrow> evolves now hn idn st st' \<Longrightarrow>
      set_option hn \<inter> Dk = {} \<Longrightarrow> set_option idn \<inter> Ik = {} \<Longrightarrow> Q st'"
  shows "\<exists>own own'. store_ok own (cl_store (session_run H cfgs (ops @ [op]))) \<and> own \<subseteq>\<^sub>m own' \<and>
    cluster_ok (set (drawn_hashes H (ops @ op # ops'))) (set (drawn_ids (ops @ op # ops'))) own' (session_run H cfgs (ops @ op # ops')) \<and> Q (cl_store (session_run H cfgs (ops @ op # ops')))"
    "map nd_cfg (cl_nodes (session_run H cfgs (ops @ op # ops'))) = cfgs"
proof -
  have eq: "session_run H cfgs (ops @ op # ops') = foldl (session_step H) (session_run H cfgs (ops @ [op])) ops'"
    by (simp add: session_run_def)
  obtain own where own: "cluster_ok (set (drawn_hashes H (ops @ [op]))) (set (drawn_ids (ops @ [op]))) own (session_run H cfgs (ops @ [op]))"
    using reached_ok(1) [of H "ops @ [op]" ops' cfgs] fresh by auto
  have f: "list_all orders_map ops'" "distinct (drawn_hashes H ops')" "distinct (drawn_ids ops')"
    "set (drawn_hashes H ops') \<inter> set (drawn_hashes H (ops @ [op])) = {}" "set (drawn_ids ops') \<inter> set (drawn_ids (ops @ [op])) = {}"
    using fresh by (auto simp: fresh_draws_def split: option.splits)
  have st: "store_ok own (cl_store (session_run H cfgs (ops @ [op])))" using own by (simp add: cluster_ok_def)
  have all: "set (drawn_hashes H (ops @ [op])) \<union> set (drawn_hashes H ops') = set (drawn_hashes H (ops @ op # ops'))"
    "set (drawn_ids (ops @ [op])) \<union> set (drawn_ids ops') = set (drawn_ids (ops @ op # ops'))" by auto
  note r = session_run_ok [where Q = Q and Dk = Dk and Ik = Ik, OF own f(1) T f(2,4,3,5) Dk Ik Q]
  have ex: "\<exists>own'. own \<subseteq>\<^sub>m own' \<and> cluster_ok (set (drawn_hashes H (ops @ op # ops'))) (set (drawn_ids (ops @ op # ops'))) own'
      (session_run H cfgs (ops @ op # ops')) \<and> Q (cl_store (session_run H cfgs (ops @ op # ops'))) \<and>
      map nd_cfg (cl_nodes (session_run H cfgs (ops @ op # ops'))) = map nd_cfg (cl_nodes (session_run H cfgs (ops @ [op])))"
    unfolding eq all [symmetric] by (rule r) (rule keep; assumption)
  show "\<exists>own own'. store_ok own (cl_store (session_run H cfgs (ops @ [op]))) \<and> own \<subseteq>\<^sub>m own' \<and>
    cluster_ok (set (drawn_hashes H (ops @ op # ops'))) (set (drawn_ids (ops @ op # ops'))) own' (session_run H cfgs (ops @ op # ops')) \<and> Q (cl_store (session_run H cfgs (ops @ op # ops')))"
    using ex st by blast
  show "map nd_cfg (cl_nodes (session_run H cfgs (ops @ op # ops'))) = cfgs"
    using reached_ok(2) [of H "ops @ op # ops'" "[]" cfgs] fresh by simp
qed

lemma run_length:
  assumes "map nd_cfg (cl_nodes cl) = cfgs" and "m < length cfgs"
  shows "m < length (cl_nodes cl)" "nd_cfg (cl_nodes cl ! m) = cfgs ! m"
  using assms by auto

lemma run_op_store:
  assumes "n < length (cl_nodes (session_run H cfgs ops))"
  shows "session_step H (session_run H cfgs ops) op = at_node n f (session_run H cfgs ops) \<Longrightarrow>
    cl_store (session_run H cfgs (ops @ [op])) = snd (f (cl_nodes (session_run H cfgs ops) ! n) (cl_store (session_run H cfgs ops)))"
  using assms by (simp add: session_run_def at_node_def split: prod.splits)

text \<open>A call at \<open>now\<close> from the address \<open>ip\<close> with the draws \<open>tok\<close> and \<open>uuid\<close> and no fault, for concrete runs.\<close>

definition plain_call :: "instant \<Rightarrow> string option \<Rightarrow> string \<Rightarrow> session_env" where
  "plain_call now tok uuid = \<lparr>sv_now = now, sv_ip = ''ip'', sv_token = tok, sv_uuid = uuid, sv_load = False,
     sv_read = False, sv_readByID = False, sv_write = Works\<rparr>"

abbreviation two_nodes :: "Config list" where
  "two_nodes \<equiv> [DefaultConfig, DefaultConfig]"

abbreviation issue_t1 :: session_op where
  "issue_t1 \<equiv> OpIssue 0 (plain_call 5 (Some ''t1'') ''i1'') ''p'' ''c'' ''t'' True [] []"

abbreviation renew_t1 :: session_op where
  "renew_t1 \<equiv> OpRenew 1 (plain_call 7 (Some ''t2'') []) ''t1''"

section \<open>A session keeps its identity\<close>

lemma issue_result:
  assumes "issue H v p c t rs lc cc nd st = (Inr (s, tok), nd', st')"
  shows "\<exists>e. map_of (st_records st') (H tok) = Some e \<and> se_session e = s"
    "ses_ID s = sv_uuid v" "ses_PrincipalID s = p" "ses_TenantID s = t" "ses_RootScoped s = rs"
    "ses_AbsoluteExpiresAt s = sv_now v + cfg_AbsoluteTimeout (nd_cfg nd)" "ses_Channel s = cfg_Channel (nd_cfg nd)"
  using assms
  by (auto simp: issue_def Let_def store_Set_def store_put_def dest!: faulty_None split: option.splits prod.splits)

text \<open>C6: a session keeps the identity it was issued with. Whatever the nodes of the cluster have done
  since, a token that some node accepts and that is the one returned by an issue, or belongs to the
  session it created, gives a session with the principal, tenant and root scope of the issue, on a
  node of the same channel and within the absolute lifetime that began then.
\<close>

theorem validated_identity:
  assumes fresh: "fresh_draws H (ops @ OpIssue n v p c t rs lc cc # ops')"
    and n: "n < length cfgs" and cl: "cl = session_run H cfgs ops"
    and iss: "fst (issue H v p c t rs lc cc (cl_nodes cl ! n) (cl_store cl)) = Inr (s0, token)"
    and m: "m < length cfgs" and cl': "cl' = session_run H cfgs (ops @ OpIssue n v p c t rs lc cc # ops')"
    and val: "fst (Validate H w tok (cl_nodes cl' ! m) (cl_store cl')) = Inr s" and same: "tok = token \<or> ses_ID s = ses_ID s0"
  shows "ses_ID s = ses_ID s0 \<and> ses_PrincipalID s = p \<and> ses_TenantID s = t \<and> ses_RootScoped s = rs \<and>
    sv_now w \<le> sv_now v + cfg_AbsoluteTimeout (cfgs ! n) \<and> cfg_Channel (cfgs ! m) = cfg_Channel (cfgs ! n)"
proof -
  let ?op = "OpIssue n v p c t rs lc cc"
  obtain nd1 st1 where i: "issue H v p c t rs lc cc (cl_nodes cl ! n) (cl_store cl) = (Inr (s0, token), nd1, st1)"
    using iss by (metis prod.collapse)
  note ir = issue_result [OF i]
  have cfg: "n < length (cl_nodes cl)" "nd_cfg (cl_nodes cl ! n) = cfgs ! n"
    using run_length [OF reached_ok(2) [OF fresh] n] by (simp_all add: cl)
  have st1: "cl_store (session_run H cfgs (ops @ [?op])) = st1"
    using run_op_store [of n H cfgs ops ?op "\<lambda>nd st. snd (issue H v p c t rs lc cc nd st)"] cfg(1) i by (simp add: cl)
  obtain T where T: "list_all (not_before T) ops'" using time_bound by blast
  obtain D I own own' where o: "store_ok own st1" "own \<subseteq>\<^sub>m own'" "cluster_ok D I own' cl'"
    using later_ok(1) [OF fresh T, of "{}" "{}" "\<lambda>_. True" cfgs] st1 unfolding cl' by auto
  note cfg' = run_length [OF later_ok(2) [OF fresh T, of "{}" "{}" "\<lambda>_. True" cfgs] m]
  have own0: "own' (H token) = Some (ident s0)" using ir(1) store_ok_row(1) [OF o(1)] own_le [OF o(2)] by metis
  have agree: "owners_agree own'" and st': "store_ok own' (cl_store cl')" using o(3) by (auto simp: cluster_ok_def)
  have m': "m < length (cl_nodes cl')" "nd_cfg (cl_nodes cl' ! m) = cfgs ! m" using cfg' by (simp_all add: cl')
  have s: "own' (H tok) = Some (ident s)" "sv_now w \<le> ses_AbsoluteExpiresAt s" "ses_Channel s = cfg_Channel (cfgs ! m)"
    using Validate_ok(2) [OF cluster_node [OF o(3) m'(1)] st' agree _, of H w tok "Inr s"] val m'(2) by (metis prod.collapse)+
  have "ident s = ident s0"
    using same s(1) own0 agree unfolding owners_agree_def by (metis ident_fst option.inject)
  then show ?thesis using ir(2-) s(2,3) cfg(2) by (simp add: ident_def)
qed

theorem validated_identity_witness:
  "\<exists>s. fst (Validate id (plain_call 9 None []) ''t2'' (cl_nodes (session_run id two_nodes [issue_t1, renew_t1]) ! 0)
      (cl_store (session_run id two_nodes [issue_t1, renew_t1]))) = Inr s \<and> ses_PrincipalID s = ''p'' \<and> ses_TenantID s = ''t''"
proof -
  let ?v = "plain_call 5 (Some ''t1'') ''i1''"
  let ?run = "session_run id two_nodes [issue_t1, renew_t1]" and ?start = "session_run id two_nodes []"
  define s0 where "s0 = fst (projr (fst (issue id ?v ''p'' ''c'' ''t'' True [] [] (cl_nodes ?start ! 0) (cl_store ?start))))"
  define s where "s = projr (fst (Validate id (plain_call 9 None []) ''t2'' (cl_nodes ?run ! 0) (cl_store ?run)))"
  have i: "fst (issue id ?v ''p'' ''c'' ''t'' True [] [] (cl_nodes ?start ! 0) (cl_store ?start)) = Inr (s0, ''t1'')"
    unfolding s0_def by code_simp
  have val: "fst (Validate id (plain_call 9 None []) ''t2'' (cl_nodes ?run ! 0) (cl_store ?run)) = Inr s"
    unfolding s_def by code_simp
  have id: "ses_ID s = ses_ID s0" unfolding s_def s0_def by code_simp
  have "fresh_draws id ([] @ issue_t1 # [renew_t1])" by (simp add: fresh_draws_def plain_call_def)
  then show ?thesis
    using validated_identity [of id "[]" 0 ?v "''p''" "''c''" "''t''" True "[]" "[]" "[renew_t1]" two_nodes ?start s0 "''t1''" 0 ?run
      "plain_call 9 None []" "''t2''" s] i val id by auto
qed

section \<open>Revocation is final\<close>

text \<open>No token of the session is accepted from the instant \<open>t\<close> on.\<close>

definition dead :: "instant \<Rightarrow> string \<Rightarrow> MemStore \<Rightarrow> bool" where
  "dead t i st \<longleftrightarrow> (\<forall>h e. map_of (st_records st) h = Some e \<longrightarrow> ses_ID (se_session e) = i \<longrightarrow>
     (\<exists>x < t. se_expiresAt e = Some x))"

lemma dead_unusable:
  assumes "dead t i st" and "map_of (st_records st) h = Some e" and "usable now e" and "t \<le> now"
  shows "ses_ID (se_session e) \<noteq> i"
  using assms by (force simp: dead_def usable_def)

lemma dead_keeps:
  assumes ix: "store_indexed st" and d: "dead t i st" and now: "t \<le> now" and e: "evolves now hn idn st st'" and idn: "i \<notin> set_option idn"
  shows "dead t i st'"
  unfolding dead_def
proof (intro allI impI)
  fix h e' assume r: "map_of (st_records st') h = Some e'" "ses_ID (se_session e') = i"
  have "\<not> sessionLive now i st" using sessionLive_row [OF ix, of now i] dead_unusable [OF d _ _ now] by blast
  moreover have "idn \<noteq> Some i" using idn by auto
  ultimately obtain e where "map_of (st_records st) h = Some e" "ses_ID (se_session e) = i"
      "se_expiresAt e \<noteq> None \<longrightarrow> se_expiresAt e' = se_expiresAt e"
    using e r unfolding evolves_def by blast
  then show "\<exists>x < t. se_expiresAt e' = Some x" using d unfolding dead_def by fastforce
qed

text \<open>What a dead session means for the calls of a node.\<close>

lemma dead_calls:
  assumes cl: "cluster_ok D I own cl" and m: "m < length (cl_nodes cl)" and d: "dead t i (cl_store cl)" and now: "t \<le> sv_now w"
  shows "fst (Validate H w tok (cl_nodes cl ! m) (cl_store cl)) = Inr s \<Longrightarrow> ses_ID s \<noteq> i"
    "(\<And>x. sv_token w = Some x \<Longrightarrow> H x \<notin> dom own) \<Longrightarrow>
      fst (Renew H w tok (cl_nodes cl ! m) (cl_store cl)) = Inr (s, y) \<Longrightarrow> ses_ID s \<noteq> i"
proof -
  have agree: "owners_agree own" and st: "store_ok own (cl_store cl)" using cl by (auto simp: cluster_ok_def)
  note nd = cluster_node [OF cl m]
  have no: "ses_ID s \<noteq> i" if "own (H tok) = Some (ident s)"
      "\<exists>e. map_of (st_records (cl_store cl)) (H tok) = Some e \<and> usable (sv_now w) e" for s
    using that dead_unusable [OF d _ _ now] store_ok_row(1) [OF st] ident_ID by (metis option.inject)
  show "ses_ID s \<noteq> i" if "fst (Validate H w tok (cl_nodes cl ! m) (cl_store cl)) = Inr s"
    using no Validate_ok(2) [OF nd st agree, of H w tok "Inr s"] that by (metis prod.collapse)
  show "ses_ID s \<noteq> i" if "\<And>x. sv_token w = Some x \<Longrightarrow> H x \<notin> dom own"
      "fst (Renew H w tok (cl_nodes cl ! m) (cl_store cl)) = Inr (s, y)"
    using no Renew_ok(2) [where H = H and token = tok and r = "Inr (s, y)", OF nd st agree that(1)] that(2) by (metis prod.collapse)
qed

text \<open>C3: revocation is final. Once a node has answered a revocation of a session without an error, no
  node of the cluster accepts or renews a token of that session again, whatever operations, faults
  of the store and restarts follow and whatever the clocks of the nodes show.
\<close>

theorem revocation_final:
  assumes fresh: "fresh_draws H (ops @ OpRevoke n v i # ops' @ [OpRenew m w tok])"
    and n: "n < length cfgs" and cl: "cl = session_run H cfgs ops"
    and rev: "fst (Revoke v i (cl_nodes cl ! n) (cl_store cl)) = None"
    and m: "m < length cfgs" and cl': "cl' = session_run H cfgs (ops @ OpRevoke n v i # ops')"
  shows "(\<forall>s. fst (Validate H w tok (cl_nodes cl' ! m) (cl_store cl')) = Inr s \<longrightarrow> ses_ID s \<noteq> i) \<and>
    (\<forall>s y. fst (Renew H w tok (cl_nodes cl' ! m) (cl_store cl')) = Inr (s, y) \<longrightarrow> ses_ID s \<noteq> i)"
proof -
  let ?op = "OpRevoke n v i"
  have f': "fresh_draws H (ops @ ?op # ops')" using fresh by (auto simp: fresh_draws_def)
  obtain own where own: "cluster_ok (set (drawn_hashes H ops)) (set (drawn_ids ops)) own cl"
    using reached_ok(1) [OF f', of cfgs] by (auto simp: cl)
  have n': "n < length (cl_nodes cl)" using run_length(1) [OF reached_ok(2) [OF f'] n] by (simp add: cl)
  obtain nd1 st1 where r: "Revoke v i (cl_nodes cl ! n) (cl_store cl) = (None, nd1, st1)" using rev by (metis prod.collapse)
  have st: "store_ok own (cl_store cl)" using own by (simp add: cluster_ok_def)
  note ro = Revoke_ok(2) [OF cluster_node [OF own n'] st r refl]
  have st1: "cl_store (session_run H cfgs (ops @ [?op])) = st1"
    using run_op_store [of n H cfgs ops ?op "\<lambda>nd st. snd (Revoke v i nd st)"] n' r by (simp add: cl)
  obtain T where T: "list_all (not_before T) ops'" "T \<le> sv_now w" using time_bound by blast
  have "dead T i st1" using ro by (auto simp: dead_def)
  moreover have "{i} \<subseteq> set (drawn_ids (ops @ [?op]))" using ro own by (auto simp: cluster_ok_def)
  ultimately obtain own' where o: "cluster_ok (set (drawn_hashes H (ops @ ?op # ops'))) (set (drawn_ids (ops @ ?op # ops'))) own' cl'"
      "dead T i (cl_store cl')"
    using later_ok(1) [OF f' T(1), of "{}" "{i}" "dead T i" cfgs] dead_keeps st1 unfolding cl' by auto
  have m': "m < length (cl_nodes cl')"
    using run_length(1) [OF reached_ok(2) [of H "ops @ ?op # ops'" "[]" cfgs] m] f' by (simp add: cl')
  have "H x \<notin> dom own'" if "sv_token w = Some x" for x
    using o(1) fresh that by (auto simp: cluster_ok_def fresh_draws_def)
  then show ?thesis using dead_calls [where H = H, OF o(1) m' o(2) T(2)] by blast
qed

theorem revocation_final_witness:
  "fst (Validate id (plain_call 9 None []) ''t2'' (cl_nodes (session_run id two_nodes [issue_t1, renew_t1, OpRevoke 0 (plain_call 8 None []) ''i1'']) ! 1)
      (cl_store (session_run id two_nodes [issue_t1, renew_t1, OpRevoke 0 (plain_call 8 None []) ''i1'']))) = Inl ErrSessionRevoked \<and>
   \<not> (\<exists>s. fst (Validate id (plain_call 9 None []) ''t2'' (cl_nodes (session_run id two_nodes [issue_t1, renew_t1, OpRevoke 0 (plain_call 8 None []) ''i1'']) ! 1)
      (cl_store (session_run id two_nodes [issue_t1, renew_t1, OpRevoke 0 (plain_call 8 None []) ''i1'']))) = Inr s \<and> ses_ID s = ''i1'')"
proof -
  let ?v = "plain_call 8 None []" and ?w = "plain_call 9 None []"
  let ?run = "session_run id two_nodes [issue_t1, renew_t1, OpRevoke 0 ?v ''i1'']" and ?start = "session_run id two_nodes [issue_t1, renew_t1]"
  have r: "fst (Revoke ?v ''i1'' (cl_nodes ?start ! 0) (cl_store ?start)) = None" by code_simp
  have val: "fst (Validate id ?w ''t2'' (cl_nodes ?run ! 1) (cl_store ?run)) = Inl ErrSessionRevoked" by code_simp
  have "fresh_draws id ([issue_t1, renew_t1] @ OpRevoke 0 ?v ''i1'' # [] @ [OpRenew 1 ?w ''t2''])"
    by (simp add: fresh_draws_def plain_call_def)
  then show ?thesis
    using revocation_final [of id "[issue_t1, renew_t1]" 0 ?v "''i1''" "[]" 1 ?w "''t2''" two_nodes ?start ?run] r val by auto
qed

section \<open>Revoking every session of a principal\<close>

lemma ListAll_rows:
  assumes "map_order rng" and "store_indexed st"
  shows "s \<in> set (store_ListAll rng now st) \<Longrightarrow> \<exists>h e. map_of (st_records st) h = Some e \<and> se_session e = s"
    "map_of (st_records st) h = Some e \<Longrightarrow> usable now e \<Longrightarrow> \<exists>s \<in> set (store_ListAll rng now st). ses_ID s = ses_ID (se_session e)"
proof -
  let ?f = "\<lambda>out (_ :: string, e). if \<not> usable now e \<or> ses_ID (se_session e) \<in> ses_ID ` set out then out else out @ [se_session e]"
  have sound: "set (foldl ?f out es) \<subseteq> set out \<union> se_session ` snd ` set es" for out es
    by (induction es arbitrary: out) (fastforce split: if_splits)+
  have grow: "set out \<subseteq> set (foldl ?f out es)" for out es
    by (induction es arbitrary: out) (fastforce split: if_splits)+
  have complete: "ses_ID (se_session e) \<in> ses_ID ` set (foldl ?f out es)" if "(h, e) \<in> set es" "usable now e" for out es
    using that
  proof (induction es arbitrary: out)
    case (Cons x es)
    show ?case
    proof (cases "x = (h, e)")
      case True
      have "ses_ID (se_session e) \<in> ses_ID ` set (?f out x)" using True Cons.prems(2) by auto
      then show ?thesis using grow [of "?f out x" es] by auto
    next
      case False
      then show ?thesis using Cons by auto
    qed
  qed simp
  have set: "set (rng (st_records st)) = set (st_records st)" using map_orderD(2) [OF assms(1)] by blast
  have d: "distinct (keys (st_records st))" using assms(2) by (simp add: store_indexed_def)
  show "\<exists>h e. map_of (st_records st) h = Some e \<and> se_session e = s" if "s \<in> set (store_ListAll rng now st)"
    using that sound [of "[]" "rng (st_records st)"] map_of_is_SomeI [OF d] by (fastforce simp: store_ListAll_def set)
  show "\<exists>s \<in> set (store_ListAll rng now st). ses_ID s = ses_ID (se_session e)"
    if "map_of (st_records st) h = Some e" "usable now e"
    using complete [where es = "rng (st_records st)" and out = "[]"] map_of_SomeD [OF that(1)] that(2) by (force simp: store_ListAll_def set)
qed

lemma revoke_each_deletes:
  assumes "node_ok own nd" and "store_ok own st" and "revoke_each (\<lambda>_. Works) p ss seen n nd st = (n', nd', st')"
    and "\<And>h e. map_of (st_records st) h = Some e \<Longrightarrow> ses_ID (se_session e) \<notin> set seen"
    and "s \<in> set ss" and "ses_PrincipalID s = p" and "map_of (st_records st') h = Some e"
  shows "ses_ID (se_session e) \<noteq> ses_ID s"
  using assms
proof (induction ss arbitrary: seen n nd st)
  case (Cons x ss)
  have keep: "map_of (st_records st) h = Some e" using revoke_each_ok [OF Cons.prems(1-3)] Cons.prems(7) by blast
  show ?case
  proof (cases "ses_PrincipalID x \<noteq> p \<or> ses_ID x \<in> set seen")
    case True
    then show ?thesis using Cons Cons.prems(4) [OF keep] by (cases "s = x") auto
  next
    case False
    obtain f st1 where f: "faulty Works st (store_Delete (ses_ID x) st) = (f, st1)" by fastforce
    note d = deletion_ok [OF Cons.prems(2) f]
    have fx: "f = None \<or> f = Some ErrSessionNotFound" using f by (auto simp: faulty_def store_Delete_def split: option.splits)
    have seen: "ses_ID (se_session r) \<notin> set (ses_ID x # seen)" if "map_of (st_records st1) k = Some r" for k r
      using d(3) [OF fx that] Cons.prems(4) [OF d(2) [OF that]] by simp
    obtain n1 nd1 where r: "revoke_each (\<lambda>_. Works) p ss (ses_ID x # seen) n1 nd1 st1 = (n', nd', st')" "node_ok own nd1"
      using Cons.prems(1,3) False f revoked_ok [OF Cons.prems(1)] node_okD(2) [OF Cons.prems(1)]
      by (cases f; cases "map_of (nd_sessions nd) (ses_ID x)") (auto dest: map_of_SomeD)
    have "map_of (st_records st1) h = Some e" using revoke_each_ok [OF r(2) d(1) r(1)] Cons.prems(7) by blast
    then show ?thesis using Cons.IH [OF r(2) d(1) r(1) seen _ Cons.prems(6,7)] seen Cons.prems(5) by (cases "s = x") auto
  qed
qed simp

lemma RevokeAll_dead:
  assumes nd: "node_ok own nd" and st: "store_ok own st" and agree: "owners_agree own" and m: "map_order rng"
    and r: "RevokeAllForPrincipal rng (\<lambda>_. Works) v p nd st = (Inr n, nd', st')"
    and i: "\<And>h e. map_of (st_records st) h = Some e \<Longrightarrow> ses_ID (se_session e) = i \<Longrightarrow> ses_PrincipalID (se_session e) = p"
  shows "dead (sv_now v) i st'"
  unfolding dead_def
proof (intro allI impI)
  fix h e assume e: "map_of (st_records st') h = Some e" "ses_ID (se_session e) = i"
  have ix: "store_indexed st" using st by (simp add: store_ok_def)
  have re: "revoke_each (\<lambda>_. Works) p (store_ListAll rng (sv_now v) st) [] 0 nd st = (n, nd', st')"
    using r by (auto simp: RevokeAllForPrincipal_def split: if_splits prod.splits)
  have row: "map_of (st_records st) h = Some e" using revoke_each_ok [OF nd st re] e(1) by blast
  have "\<not> usable (sv_now v) e"
  proof
    assume "usable (sv_now v) e"
    then obtain s where s: "s \<in> set (store_ListAll rng (sv_now v) st)" "ses_ID s = i"
      using ListAll_rows(2) [OF m ix row] e(2) by auto
    then have "ses_PrincipalID s = p" using ListAll_rows(1) [OF m ix s(1)] i by auto
    then show False using revoke_each_deletes [OF nd st re _ s(1) _ e(1)] s(2) e(2) by simp
  qed
  then show "\<exists>x < sv_now v. se_expiresAt e = Some x"
    using store_ok_row(2) [OF st row] by (auto simp: usable_def split: option.splits)
qed

lemma run_extends:
  assumes fresh: "fresh_draws H (ops @ ops')"
    and own: "cluster_ok (set (drawn_hashes H ops)) (set (drawn_ids ops)) own (session_run H cfgs ops)"
  shows "\<exists>own'. own \<subseteq>\<^sub>m own' \<and>
    cluster_ok (set (drawn_hashes H (ops @ ops'))) (set (drawn_ids (ops @ ops'))) own' (session_run H cfgs (ops @ ops'))"
proof -
  obtain T where T: "list_all (not_before T) ops'" using time_bound by blast
  have f: "list_all orders_map ops'" "distinct (drawn_hashes H ops')" "distinct (drawn_ids ops')"
    "set (drawn_hashes H ops') \<inter> set (drawn_hashes H ops) = {}" "set (drawn_ids ops') \<inter> set (drawn_ids ops) = {}"
    using fresh by (auto simp: fresh_draws_def)
  show ?thesis
    using session_run_ok [where Q = "\<lambda>_. True" and Dk = "{}" and Ik = "{}", OF own f(1) T f(2,4,3,5)]
    by (auto simp: session_run_def)
qed

text \<open>C13: revoking a principal's sessions reaches all of them, on whichever node they were issued or are
  cached. When the call lists the sessions and every deletion works, a session of that principal
  that some node accepts afterwards has been issued since.
\<close>

theorem principal_revocation_final:
  assumes fresh: "fresh_draws H (ops @ OpRevokeAll n v rng (\<lambda>_. Works) p # ops')"
    and n: "n < length cfgs" and cl: "cl = session_run H cfgs ops"
    and rev: "fst (RevokeAllForPrincipal rng (\<lambda>_. Works) v p (cl_nodes cl ! n) (cl_store cl)) = Inr k"
    and later: "list_all (not_before (sv_now v)) ops'" "sv_now v \<le> sv_now w"
    and m: "m < length cfgs" and cl': "cl' = session_run H cfgs (ops @ OpRevokeAll n v rng (\<lambda>_. Works) p # ops')"
    and val: "fst (Validate H w tok (cl_nodes cl' ! m) (cl_store cl')) = Inr s" and p: "ses_PrincipalID s = p"
  shows "ses_ID s \<in> set (drawn_ids ops')"
proof (rule ccontr)
  let ?op = "OpRevokeAll n v rng (\<lambda>_. Works) p" and ?i = "ses_ID s"
  assume new: "?i \<notin> set (drawn_ids ops')"
  obtain own0 where own0: "cluster_ok (set (drawn_hashes H ops)) (set (drawn_ids ops)) own0 cl"
    using reached_ok(1) [OF fresh, of cfgs] by (auto simp: cl)
  have n': "n < length (cl_nodes cl)" using run_length(1) [OF reached_ok(2) [OF fresh] n] by (simp add: cl)
  obtain nd1 st1 where r: "RevokeAllForPrincipal rng (\<lambda>_. Works) v p (cl_nodes cl ! n) (cl_store cl) = (Inr k, nd1, st1)"
    using rev by (metis prod.collapse)
  have st1: "cl_store (session_run H cfgs (ops @ [?op])) = st1"
    using run_op_store [of n H cfgs ops ?op "\<lambda>nd st. snd (RevokeAllForPrincipal rng (\<lambda>_. Works) v p nd st)"] n' r by (simp add: cl)
  have st: "store_ok own0 (cl_store cl)" and agree: "owners_agree own0" using own0 by (auto simp: cluster_ok_def)
  have mo: "map_order rng" using fresh by (simp add: fresh_draws_def)
  have m': "m < length (cl_nodes cl')"
    using run_length(1) [OF reached_ok(2) [of H "ops @ ?op # ops'" "[]" cfgs] m] fresh by (simp add: cl')
  obtain own' where own': "own0 \<subseteq>\<^sub>m own'"
      "cluster_ok (set (drawn_hashes H (ops @ ?op # ops'))) (set (drawn_ids (ops @ ?op # ops'))) own' cl'"
    using run_extends [OF fresh own0 [unfolded cl]] by (auto simp: cl')
  have st': "store_ok own' (cl_store cl')" and agree': "owners_agree own'" using own'(2) by (auto simp: cluster_ok_def)
  have s: "own' (H tok) = Some (ident s)"
    using Validate_ok(2) [OF cluster_node [OF own'(2) m'] st' agree' _, of H w tok "Inr s"] val by (metis prod.collapse)
  have "?i \<in> set (drawn_ids (ops @ ?op # ops'))" using owned_idI [where own = own', OF s] own'(2) by (auto simp: cluster_ok_def)
  then have old: "{?i} \<subseteq> set (drawn_ids (ops @ [?op]))" using new by auto
  have "dead (sv_now v) ?i st1"
  proof (rule RevokeAll_dead [OF cluster_node [OF own0 n'] st agree mo r])
    fix h e assume e: "map_of (st_records (cl_store cl)) h = Some e" "ses_ID (se_session e) = ?i"
    have "own' h = Some (ident (se_session e))" by (rule own_le [OF own'(1) store_ok_row(1) [OF st e(1)]])
    then have "ident (se_session e) = ident s" using agree' s e(2) unfolding owners_agree_def by (metis ident_fst)
    then show "ses_PrincipalID (se_session e) = p" using ident_fields(2) p by blast
  qed
  then have "dead (sv_now v) ?i (cl_store cl')"
    using later_ok(1) [OF fresh later(1) _ old, of "{}" "dead (sv_now v) ?i" cfgs] dead_keeps st1 unfolding cl' by auto
  then show False using dead_calls(1) [OF own'(2) m' _ later(2) val] by blast
qed

theorem principal_revocation_final_witness:
  "\<exists>s. fst (Validate id (plain_call 9 None []) ''t3'' (cl_nodes (session_run id two_nodes [issue_t1,
        OpRevokeAll 1 (plain_call 8 None []) (\<lambda>es. es) (\<lambda>_. Works) ''p'',
        OpIssue 0 (plain_call 8 (Some ''t3'') ''i3'') ''p'' ''c'' ''t'' True [] []]) ! 1)
      (cl_store (session_run id two_nodes [issue_t1, OpRevokeAll 1 (plain_call 8 None []) (\<lambda>es. es) (\<lambda>_. Works) ''p'',
        OpIssue 0 (plain_call 8 (Some ''t3'') ''i3'') ''p'' ''c'' ''t'' True [] []]))) = Inr s \<and> ses_ID s = ''i3''"
proof -
  let ?v = "plain_call 8 None []" and ?w = "plain_call 9 None []" and ?new = "OpIssue 0 (plain_call 8 (Some ''t3'') ''i3'') ''p'' ''c'' ''t'' True [] []"
  let ?op = "OpRevokeAll 1 ?v (\<lambda>es. es) (\<lambda>_. Works) ''p''"
  let ?run = "session_run id two_nodes [issue_t1, ?op, ?new]" and ?start = "session_run id two_nodes [issue_t1]"
  have r: "fst (RevokeAllForPrincipal (\<lambda>es. es) (\<lambda>_. Works) ?v ''p'' (cl_nodes ?start ! 1) (cl_store ?start)) = Inr 1" by code_simp
  define s where "s = projr (fst (Validate id ?w ''t3'' (cl_nodes ?run ! 1) (cl_store ?run)))"
  have val: "fst (Validate id ?w ''t3'' (cl_nodes ?run ! 1) (cl_store ?run)) = Inr s" unfolding s_def by code_simp
  have p: "ses_PrincipalID s = ''p''" unfolding s_def by code_simp
  have "fresh_draws id ([issue_t1] @ ?op # [?new])" using map_order_id by (simp add: fresh_draws_def plain_call_def id_def)
  moreover have "list_all (not_before (sv_now ?v)) [?new]" "sv_now ?v \<le> sv_now ?w" by (simp_all add: not_before_def plain_call_def)
  ultimately have "ses_ID s \<in> set (drawn_ids [?new])"
    using principal_revocation_final [of id "[issue_t1]" 1 ?v "\<lambda>es. es" "''p''" "[?new]" two_nodes ?start 1 ?w 1 ?run "''t3''" s] r val p by simp
  then show ?thesis using val by (simp add: plain_call_def)
qed

section \<open>A rotated token expires\<close>

definition barred :: "instant \<Rightarrow> string \<Rightarrow> MemStore \<Rightarrow> bool" where
  "barred t h st \<longleftrightarrow> (\<forall>e. map_of (st_records st) h = Some e \<longrightarrow> se_expiresAt e = Some t)"

lemma barred_keeps: "barred t h st \<Longrightarrow> evolves now hn idn st st' \<Longrightarrow> h \<notin> set_option hn \<Longrightarrow> barred t h st'"
  unfolding barred_def evolves_def by fastforce

lemma Renew_rotates:
  assumes nd: "node_ok own nd" and st: "store_ok own st" and own: "owners_agree own"
    and fresh: "\<And>x. sv_token v = Some x \<Longrightarrow> H x \<notin> dom own"
    and r: "Renew H v tok nd st = (Inr (s, Some new), nd', st')"
  shows "barred (sv_now v + cfg_GraceWindow (nd_cfg nd)) (H tok) st'" "H tok \<in> dom own"
proof -
  obtain x n1 where l: "lookup v (H tok) nd st = (x, n1)" by fastforce
  note lo = lookup_ok [OF nd st own l]
  obtain a where a: "x = Some a" using r l by (cases x) (auto simp: Renew_def)
  have al: "a < length (nd_heap n1)" and h: "own (H tok) = Some (ident (ms_session (nd_heap n1 ! a)))" using lo(3) [OF a] by auto
  then show "H tok \<in> dom own" by auto
  obtain m where m: "verifyInStore v (H tok) (nd_heap n1 ! a) st = (None, m)"
      "rotate_token H v (H tok) a (set_ms a m n1) st = (Inr (s, Some new), nd', st')"
    using r l a by (auto simp: Renew_def Let_def split: if_splits option.splits prod.splits)
  let ?s = "(ms_session m)\<lparr>ses_LastActivity := sv_now v\<rparr>"
  obtain t where t: "sv_token v = Some t"
      "faulty (sv_write v) st (store_Rotate (sv_now v) (H tok) (H t) ?s (sv_now v + cfg_GraceWindow (nd_cfg nd)) st) = (None, st')"
    using m(2) al lo(2) by (auto simp: rotate_token_def Let_def split: option.splits if_splits prod.splits)
  have "own (H tok) = Some (ident ?s)" using h verifyInStore_ok(1) [OF m(1)] by simp
  note ro = rotation_ok [OF st own this fresh [OF t(1)] t(2)]
  have le: "own \<subseteq>\<^sub>m own(H t \<mapsto> ident ?s)" using ro(1) [of None] by (simp add: grows_def)
  show "barred (sv_now v + cfg_GraceWindow (nd_cfg nd)) (H tok) st'"
    using store_Rotate_rows(4) [OF store_ok_mono [OF st le] fun_upd_same fresh_row [OF st fresh [OF t(1)]] faulty_None [OF t(2)]]
    by (auto simp: barred_def)
qed

text \<open>C9: a rotated token is accepted for the grace window and no longer. Once a renewal has returned a
  new token, no node of the cluster accepts or renews the old one at an instant past the renewal by
  more than the grace window, whatever operations, faults and restarts happen in between.
\<close>

theorem rotated_token_expires:
  assumes fresh: "fresh_draws H (ops @ OpRenew n v tok # ops' @ [OpRenew m w tok])"
    and n: "n < length cfgs" and cl: "cl = session_run H cfgs ops"
    and ren: "fst (Renew H v tok (cl_nodes cl ! n) (cl_store cl)) = Inr (s, Some new)"
    and m: "m < length cfgs" and cl': "cl' = session_run H cfgs (ops @ OpRenew n v tok # ops')"
    and late: "sv_now w > sv_now v + cfg_GraceWindow (cfgs ! n)"
  shows "(\<exists>e. fst (Validate H w tok (cl_nodes cl' ! m) (cl_store cl')) = Inl e) \<and>
    (\<exists>e. fst (Renew H w tok (cl_nodes cl' ! m) (cl_store cl')) = Inl e)"
proof -
  let ?op = "OpRenew n v tok" and ?x = "sv_now v + cfg_GraceWindow (cfgs ! n)"
  have f': "fresh_draws H (ops @ ?op # ops')" using fresh by (auto simp: fresh_draws_def)
  obtain own where own: "cluster_ok (set (drawn_hashes H ops)) (set (drawn_ids ops)) own cl"
    using reached_ok(1) [OF f', of cfgs] by (auto simp: cl)
  have n': "n < length (cl_nodes cl)" "nd_cfg (cl_nodes cl ! n) = cfgs ! n"
    using run_length [OF reached_ok(2) [OF f'] n] by (simp_all add: cl)
  obtain nd1 st1 where r: "Renew H v tok (cl_nodes cl ! n) (cl_store cl) = (Inr (s, Some new), nd1, st1)"
    using ren by (metis prod.collapse)
  have st: "store_ok own (cl_store cl)" and agree: "owners_agree own" using own by (auto simp: cluster_ok_def)
  have "H x \<notin> dom own" if "sv_token v = Some x" for x
    using own f' that by (auto simp: cluster_ok_def fresh_draws_def)
  note ro = Renew_rotates [where H = H, OF cluster_node [OF own n'(1)] st agree this r]
  have st1: "cl_store (session_run H cfgs (ops @ [?op])) = st1"
    using run_op_store [of n H cfgs ops ?op "\<lambda>nd st. snd (Renew H v tok nd st)"] n' r by (simp add: cl)
  obtain T where T: "list_all (not_before T) ops'" using time_bound by blast
  have "{H tok} \<subseteq> set (drawn_hashes H (ops @ [?op]))" using ro(2) own by (auto simp: cluster_ok_def)
  then obtain own' where o: "cluster_ok (set (drawn_hashes H (ops @ ?op # ops'))) (set (drawn_ids (ops @ ?op # ops'))) own' cl'"
      "barred ?x (H tok) (cl_store cl')"
    using later_ok(1) [OF f' T, of "{H tok}" "{}" "barred ?x (H tok)" cfgs] barred_keeps st1 ro(1) n'(2) unfolding cl' by auto
  have m': "m < length (cl_nodes cl')"
    using run_length(1) [OF reached_ok(2) [of H "ops @ ?op # ops'" "[]" cfgs] m] f' by (simp add: cl')
  have st': "store_ok own' (cl_store cl')" and agree': "owners_agree own'" using o(1) by (auto simp: cluster_ok_def)
  have fr: "H x \<notin> dom own'" if "sv_token w = Some x" for x
    using o(1) fresh that by (auto simp: cluster_ok_def fresh_draws_def)
  have no: "\<not> (\<exists>e. map_of (st_records (cl_store cl')) (H tok) = Some e \<and> usable (sv_now w) e)"
    using o(2) late by (auto simp: barred_def usable_def)
  note nd = cluster_node [OF o(1) m']
  show ?thesis
  proof (intro conjI)
    show "\<exists>e. fst (Validate H w tok (cl_nodes cl' ! m) (cl_store cl')) = Inl e"
      using Validate_ok(2) [OF nd st' agree', of H w tok] no by (metis prod.collapse sum.exhaust)
    show "\<exists>e. fst (Renew H w tok (cl_nodes cl' ! m) (cl_store cl')) = Inl e"
      using Renew_ok(2) [where H = H and token = tok, OF nd st' agree' fr] no by (metis prod.collapse sum.exhaust)
  qed
qed

theorem rotated_token_expires_witness:
  "(\<exists>e. fst (Validate id (plain_call 30000000008 None []) ''t1'' (cl_nodes (session_run id two_nodes [issue_t1, renew_t1]) ! 0)
      (cl_store (session_run id two_nodes [issue_t1, renew_t1]))) = Inl e) \<and>
   (\<exists>s. fst (Validate id (plain_call 30000000007 None []) ''t1'' (cl_nodes (session_run id two_nodes [issue_t1, renew_t1]) ! 0)
      (cl_store (session_run id two_nodes [issue_t1, renew_t1]))) = Inr s)"
proof -
  let ?v = "plain_call 7 (Some ''t2'') []" and ?w = "plain_call 30000000008 None []" and ?u = "plain_call 30000000007 None []"
  let ?run = "session_run id two_nodes [issue_t1, renew_t1]" and ?start = "session_run id two_nodes [issue_t1]"
  define s where "s = fst (projr (fst (Renew id ?v ''t1'' (cl_nodes ?start ! 1) (cl_store ?start))))"
  have r: "fst (Renew id ?v ''t1'' (cl_nodes ?start ! 1) (cl_store ?start)) = Inr (s, Some ''t2'')" unfolding s_def by code_simp
  have "\<not> isl (fst (Validate id ?u ''t1'' (cl_nodes ?run ! 0) (cl_store ?run)))" by code_simp
  then have early: "\<exists>s. fst (Validate id ?u ''t1'' (cl_nodes ?run ! 0) (cl_store ?run)) = Inr s" by (metis isl_def sum.exhaust)
  have "fresh_draws id ([issue_t1] @ renew_t1 # [] @ [OpRenew 0 ?w ''t1''])" by (simp add: fresh_draws_def plain_call_def)
  moreover have "sv_now ?w > sv_now ?v + cfg_GraceWindow (two_nodes ! 1)" by (simp add: plain_call_def DefaultConfig_def)
  ultimately show ?thesis
    using rotated_token_expires [of id "[issue_t1]" 1 ?v "''t1''" "[]" 0 ?w two_nodes ?start s "''t2''" ?run] r early by auto
qed

section \<open>An issued token is accepted\<close>

lemma fresh_cell_accepted:
  assumes row: "map_of (st_records st) h = Some \<lparr>se_session = ms_session ms, se_revoked = False, se_expiresAt = None\<rparr>"
    and ix: "store_indexed st"
    and ms: "\<not> ms_revoked ms" "ms_prevHash ms = []" "ms_prevExpiry ms = None" "ses_Assurance (ms_session ms) = AssuranceBasic"
    and cfg: "ses_Channel (ms_session ms) = cfg_Channel cfg"
    and now: "sv_now v \<le> ses_AbsoluteExpiresAt (ms_session ms)" "sv_now v \<le> ses_LastActivity (ms_session ms) + cfg_IdleTimeout cfg"
    and works: "\<not> sv_read v" "sv_write v = Works"
  shows "\<exists>s. fst (validate_ms v cfg h ms st) = Inr s \<and> ident s = ident (ms_session ms)"
proof -
  have get: "api_Get (sv_read v) v h st = Inr (ms_session ms)" using row works(1) by (simp add: api_Get_def store_Get_def)
  have "mergeStored (ms_session ms) (ms_session ms) = Some (ms_session ms)" by (simp add: mergeStored_def)
  then have ver: "verifyInStore v h ms st = (None, ms)" using get by (simp add: verifyInStore_def)
  have "h \<in> set (hashes (ses_ID (ms_session ms)) st)" using ix row by (auto simp: store_indexed_def)
  then have live: "sessionLive (sv_now v) (ses_ID (ms_session ms)) st"
    using row by (force simp: sessionLive_def list_ex_iff usable_def)
  have basic: "\<not> downgraded v cfg (touch_session v b (ms_session ms))" for b using ms(4) by (simp add: downgraded_def touch_session_def)
  have sid: "ses_ID (touch_session v b (ms_session ms)) = ses_ID (ms_session ms)" for b by (simp add: touch_session_def)
  have "\<exists>m st'. updateStore v h (ms\<lparr>ms_session := touch_session v b (ms_session ms)\<rparr>) st = (None, m, st')" for b
    using live works(2) sid by (simp add: updateStore_def store_Update_def faulty_def)
  then obtain m st' where "updateStore v h (ms\<lparr>ms_session := touch_session v (h = []) (ms_session ms)\<rparr>) st = (None, m, st')" by blast
  then show ?thesis using ms cfg now ver basic
    by (auto simp: validate_ms_def Let_def continuity_def) (auto simp: touch_session_def)
qed

text \<open>The session just issued as every node finds it.\<close>

lemma issued_lookup:
  assumes cl: "cluster_ok D I own cl" and n: "n < length (cl_nodes cl)" and m: "m < length (cl_nodes cl)"
    and fresh: "H tok \<notin> dom own" "sv_uuid v \<notin> owned_ids own"
    and i: "issue H v p c t rs lc cc (cl_nodes cl ! n) (cl_store cl) = (Inr (s, tok), nd', st')"
    and load: "\<not> sv_load w" and ch: "cfg_Channel (nd_cfg (cl_nodes cl ! m)) = cfg_Channel (nd_cfg (cl_nodes cl ! n))"
  shows "\<exists>a nd1. lookup w (H tok) (if m = n then nd' else cl_nodes cl ! m) st' = (Some a, nd1) \<and>
      nd_cfg nd1 = nd_cfg (cl_nodes cl ! m) \<and> nd_heap nd1 ! a = \<lparr>ms_session = s, ms_currentHash = H tok, ms_prevHash = [],
        ms_prevExpiry = None, ms_revoked = False\<rparr>"
    "map_of (st_records st') (H tok) = Some \<lparr>se_session = s, se_revoked = False, se_expiresAt = None\<rparr>"
    "ses_Assurance s = AssuranceBasic" "ses_LastActivity s = sv_now v"
proof -
  have st: "store_ok own (cl_store cl)" using cl by (simp add: cluster_ok_def)
  have tok: "sv_token v = Some tok" using i by (auto simp: issue_def Let_def split: option.splits prod.splits)
  show row: "map_of (st_records st') (H tok) = Some \<lparr>se_session = s, se_revoked = False, se_expiresAt = None\<rparr>"
    using i fresh_row [OF st fresh(1)]
    by (auto simp: issue_def Let_def store_Set_def store_put_def dest!: faulty_None split: option.splits prod.splits)
  show "ses_Assurance s = AssuranceBasic" "ses_LastActivity s = sv_now v"
    using i by (auto simp: issue_def Let_def split: option.splits prod.splits)
  show "\<exists>a nd1. lookup w (H tok) (if m = n then nd' else cl_nodes cl ! m) st' = (Some a, nd1) \<and>
      nd_cfg nd1 = nd_cfg (cl_nodes cl ! m) \<and> nd_heap nd1 ! a = \<lparr>ms_session = s, ms_currentHash = H tok, ms_prevHash = [],
        ms_prevExpiry = None, ms_revoked = False\<rparr>"
  proof (cases "m = n")
    case True
    have "nd' = (cl_nodes cl ! n)\<lparr>nd_heap := nd_heap (cl_nodes cl ! n) @ [\<lparr>ms_session = s, ms_currentHash = H tok, ms_prevHash = [],
        ms_prevExpiry = None, ms_revoked = False\<rparr>], nd_sessions := put (ses_ID s) (length (nd_heap (cl_nodes cl ! n))) (nd_sessions (cl_nodes cl ! n)),
        nd_byHash := put (H tok) (length (nd_heap (cl_nodes cl ! n))) (nd_byHash (cl_nodes cl ! n))\<rparr>"
      using i by (auto simp: issue_def Let_def split: option.splits prod.splits)
    then show ?thesis using True by (simp add: lookup_def)
  next
    case False
    let ?nd = "cl_nodes cl ! m"
    note nd = cluster_node [OF cl m]
    have h: "map_of (nd_byHash ?nd) (H tok) = None"
      using node_okD(1) [OF nd map_of_SomeD] fresh(1) by (cases "map_of (nd_byHash ?nd) (H tok)") auto
    have u: "map_of (nd_sessions ?nd) (ses_ID s) = None"
    proof (rule ccontr)
      assume "map_of (nd_sessions ?nd) (ses_ID s) \<noteq> None"
      then obtain a where "map_of (nd_sessions ?nd) (ses_ID s) = Some a" by auto
      then have a: "a < length (nd_heap ?nd)" "ses_ID (ms_session (nd_heap ?nd ! a)) = ses_ID s"
        using node_okD(2) [OF nd map_of_SomeD] by auto
      then show False using owned_idI [where own = own, OF node_okD(3) [OF nd a(1)]] fresh(2) issue_result(2) [OF i] by simp
    qed
    have "api_Get (sv_load w) w (H tok) st' = Inr s" using row load by (simp add: api_Get_def store_Get_def)
    then show ?thesis using False h u ch issue_result(7) [OF i] by (simp add: lookup_def loadFromStore_def Let_def)
  qed
qed

text \<open>C17: a token issued on one node is accepted on every node of its channel. Right after the issue, in
  whatever state the cluster is, each of them validates the token while the store answers and
  neither the idle timeout of that node nor the absolute lifetime has passed, and returns the session.
\<close>

theorem issued_token_accepted:
  assumes fresh: "fresh_draws H (ops @ [OpIssue n v p c t rs lc cc])"
    and n: "n < length cfgs" and cl: "cl = session_run H cfgs ops"
    and iss: "fst (issue H v p c t rs lc cc (cl_nodes cl ! n) (cl_store cl)) = Inr (s0, token)"
    and m: "m < length cfgs" and ch: "cfg_Channel (cfgs ! m) = cfg_Channel (cfgs ! n)"
    and cl': "cl' = session_run H cfgs (ops @ [OpIssue n v p c t rs lc cc])"
    and works: "\<not> sv_load w" "\<not> sv_read w" "sv_write w = Works"
    and now: "sv_now w \<le> sv_now v + cfg_AbsoluteTimeout (cfgs ! n)" "sv_now w \<le> sv_now v + cfg_IdleTimeout (cfgs ! m)"
  shows "\<exists>s. fst (Validate H w token (cl_nodes cl' ! m) (cl_store cl')) = Inr s \<and> ident s = ident s0"
proof -
  let ?op = "OpIssue n v p c t rs lc cc"
  obtain own where own: "cluster_ok (set (drawn_hashes H ops)) (set (drawn_ids ops)) own cl"
    using reached_ok(1) [OF fresh, of cfgs] by (auto simp: cl)
  note cfg = reached_ok(2) [OF fresh, of cfgs, folded cl]
  note n' = run_length [OF cfg n] and m' = run_length [OF cfg m]
  obtain nd1 st1 where i: "issue H v p c t rs lc cc (cl_nodes cl ! n) (cl_store cl) = (Inr (s0, token), nd1, st1)"
    using iss by (metis prod.collapse)
  have tok: "sv_token v = Some token" using i by (auto simp: issue_def Let_def split: option.splits prod.splits)
  have f: "H token \<notin> dom own" "sv_uuid v \<notin> owned_ids own" using fresh own tok by (auto simp: fresh_draws_def cluster_ok_def)
  have cl'_eq: "cl' = \<lparr>cl_nodes = (cl_nodes cl)[n := nd1], cl_store = st1\<rparr>"
    using n'(1) i by (simp add: cl' session_run_def cl [unfolded session_run_def, symmetric] at_node_def)
  have nd: "cl_nodes cl' ! m = (if m = n then nd1 else cl_nodes cl ! m)" "cl_store cl' = st1" using n'(1) by (auto simp: cl'_eq)
  have ch': "cfg_Channel (nd_cfg (cl_nodes cl ! m)) = cfg_Channel (nd_cfg (cl_nodes cl ! n))" using n'(2) m'(2) ch by simp
  note lo = issued_lookup [where H = H, OF own n'(1) m'(1) f i works(1) ch']
  obtain a nd2 where l: "lookup w (H token) (cl_nodes cl' ! m) st1 = (Some a, nd2)" "nd_cfg nd2 = cfgs ! m"
      "nd_heap nd2 ! a = \<lparr>ms_session = s0, ms_currentHash = H token, ms_prevHash = [], ms_prevExpiry = None, ms_revoked = False\<rparr>"
    using lo(1) m'(2) unfolding nd by auto
  have ix: "store_indexed st1"
    using reached_ok(1) [of H "ops @ [?op]" "[]" cfgs] fresh unfolding cl' [symmetric] cluster_ok_def store_ok_def nd(2) by auto
  have "\<exists>s. fst (validate_ms w (cfgs ! m) (H token) (nd_heap nd2 ! a) st1) = Inr s \<and> ident s = ident (ms_session (nd_heap nd2 ! a))"
    using lo(2-4) issue_result [OF i] l(3) now works ch n'(2) ix by (intro fresh_cell_accepted) simp_all
  then show ?thesis using l nd(2) by (auto simp: Validate_def split: prod.splits)
qed

theorem issued_token_accepted_witness:
  "\<exists>s s0. fst (issue id (plain_call 5 (Some ''t1'') ''i1'') ''p'' ''c'' ''t'' True [] [] (NewNode DefaultConfig) NewMemStore) = Inr (s0, ''t1'') \<and>
    fst (Validate id (plain_call 9 None []) ''t1'' (cl_nodes (session_run id two_nodes [issue_t1]) ! 1)
      (cl_store (session_run id two_nodes [issue_t1]))) = Inr s \<and> ident s = ident s0"
proof -
  let ?v = "plain_call 5 (Some ''t1'') ''i1''" and ?start = "session_run id two_nodes []" and ?run = "session_run id two_nodes [issue_t1]"
  define s0 where "s0 = fst (projr (fst (issue id ?v ''p'' ''c'' ''t'' True [] [] (NewNode DefaultConfig) NewMemStore)))"
  have i: "fst (issue id ?v ''p'' ''c'' ''t'' True [] [] (NewNode DefaultConfig) NewMemStore) = Inr (s0, ''t1'')"
    unfolding s0_def by code_simp
  have "fresh_draws id ([] @ [issue_t1])" by (simp add: fresh_draws_def plain_call_def)
  then show ?thesis
    using issued_token_accepted [of id "[]" 0 ?v "''p''" "''c''" "''t''" True "[]" "[]" two_nodes ?start s0 "''t1''" 1 ?run "plain_call 9 None []"] i
    by (auto simp: session_run_def plain_call_def DefaultConfig_def)
qed

section \<open>Elevation on another node\<close>


end
