(* ===== verification/Spec2Isabelle.thy ===== *)
theory Spec2Isabelle
  imports Version Lease Pending_Cmd Selector Cache Auth_Defense Schedule_Laws Batch_Laws Rbac_Steward Audit_Laws Session_Cluster
begin

text \<open>
  A verification development for cfgms, a configuration management system. A \<^emph>\<open>controller\<close>
  (\<open>cmd/controller\<close>, \<open>features/controller\<close>) holds the desired configuration of a fleet, one
  \<^emph>\<open>steward\<close> per device (\<open>cmd/steward\<close>, \<open>features/steward\<close>) applies it, and the packages under
  \<open>pkg/\<close> are shared. The controller decides who may do what (\<open>features/rbac\<close>), keeps
  the sessions of its administrators (\<open>pkg/session\<close>), turns an operator's
  selector into a set of stewards, runs commands on them in batches, and, in a cluster, lets one
  node at a time act under a lease. Stewards queue the commands they receive and reboot only in
  maintenance windows. The development models these decision procedures and state machines; the
  I/O around them is represented by arguments of the operations that use it.

  \<^bold>\<open>Conventions.\<close> A Go string is a list of bytes (\<^typ>\<open>string\<close>), an instant or a duration an
  integer number of nanoseconds, an error a value of a sum or option type, and a map an
  association list with unique keys or a function to options. Where the source iterates over a
  map, the order is an argument \<open>rng\<close> about which only \<open>map_order\<close> is assumed: a permutation of the
  entries. Reading the clock, drawing an identifier and the outcome of a database statement or of
  a message are arguments too. A method that holds a lock is one step; where a method releases it
  around a call, the model has a step for each half. Loops that are not structural are recursive
  functions with a termination proof; the fuel in \<open>search_days\<close> (400 days) and in
  \<open>buildRoleHierarchyWithVisited\<close> (depth 10) is the source's own bound.

  \<^bold>\<open>The theories.\<close>

  \<^item> \<open>Cfgms_Prelude\<close>: Go's string and map operations, orders of map iteration, and the locale
    \<open>op_machine\<close>: if every operation keeps an invariant then every run does. It is interpreted by
    the lease store, the cache, the access-control manager and the audit log.

  \<^item> \<open>Version\<close> (\<open>pkg/version/semver.go\<close>): parsing and comparing semantic versions. Comparison is
    that of a linear order on parsed versions, with numeric identifiers of any size.

  \<^item> \<open>Lease_Store\<close>, \<open>Lease\<close> (\<open>pkg/lease/lease.go\<close>, and \<open>lease_store.go\<close> of the database and the flat-file provider under
    \<open>pkg/storage/providers\<close>): the upsert that grants, renews or
    refuses a lease, the fencing token, and the manager's cached local authority. A cluster is a
    step relation in which calls of several nodes overlap; replies arrive late, are lost, or follow
    a failed statement that took effect. Shown: at most one node has local authority while the
    calls of each node do not overlap, tokens increase whenever the holder changes, the methods
    run alone are runs of the relation, and an overlapping release breaks exclusion. The locale
    \<open>lease_store\<close> is the contract between the two, interpreted by both stores.

  \<^item> \<open>Pending_Cmd\<close> (\<open>pkg/controlplane/providers/internal/pendingcmd/queue.go\<close>): commands that
    arrive before a handler is subscribed, as a step relation over \<open>Admit\<close>, \<open>Subscribe\<close>, \<open>Reset\<close>
    and the rounds of a drain. Shown: delivery in order without loss, and that a drain returns.

  \<^item> \<open>Selector\<close> (\<open>pkg/fleet/selector\<close>): the expression language that selects stewards. Shown:
    a typing error never selects the whole fleet, and printed terms tokenize back.

  \<^item> \<open>Cache\<close> (\<open>pkg/cache/cache.go\<close>): a cache with expiry and three eviction policies. Shown for all
    runs: unique keys, the size limit, right statistics, and every stored value either held or
    reported as evicted once; and what a lookup returns after a store.

  \<^item> \<open>Auth_Defense\<close> (\<open>features/rbac/authdefense\<close>): rate limits per address and circuit breakers in
    front of authentication, on a ring of failure times and on the cache through the locales
    \<open>ring_cache\<close> and \<open>kv_cache\<close>. Shown: when an address is limited and when a breaker refuses.

  \<^item> \<open>Go_Calendar\<close>, \<open>Schedule\<close>, \<open>Schedule_Laws\<close> (\<open>pkg/maintenance/schedule\<close>, and the reboot gate
    \<open>pkg/maintenance/providers/steward/gate.go\<close>): Go's \<open>time.Date\<close> and its civil calendar, weekly and monthly maintenance
    windows, their YAML form. Shown: the day selector against a definition by counting weekdays,
    membership in a window, the next occurrence as the earliest opening and its existence
    within a hundred days, and the round trip of marshalling and parsing.

  \<^item> \<open>Batch_Partition\<close>, \<open>Batch_Job\<close>, \<open>Batch_Laws\<close> (\<open>features/controller/batchjob\<close>,
    \<open>features/controller/commands/publisher.go\<close>, the SQLite store of jobs): cutting a fleet into
    batches that never hold two members of one cluster role, and running them one after the other
    with rollback. The locale \<open>quorum_checker\<close> is the interface of the two checkers of the source.
    Shown: over every behaviour of the stewards, the transport and the database, a batch starts
    only after all earlier ones succeeded, and only completed batches are rolled back.

  \<^item> \<open>Rbac_Store\<close>, \<open>Rbac_Defaults\<close>, \<open>Rbac_Hierarchy\<close>, \<open>Rbac_Engine\<close>, \<open>Rbac_Persist\<close>,
    \<open>Rbac_Manager\<close> (\<open>features/rbac\<close> and \<open>pkg/storage/providers/sqlite/rbac_store.go\<close>): the in-memory
    store of permissions, roles, subjects and assignments; the built-in roles; the role hierarchy
    with inheritance and conflicts; the decision \<open>CheckPermission\<close>; the durable tables; and the
    manager, which writes through to them behind a justification gate and the escalation
    prevention. \<open>Rbac_Laws\<close>, \<open>Rbac_Restart\<close> and \<open>Rbac_Steward\<close> hold what spans them: the
    hierarchy stays acyclic under changes of a parent, at most five such changes succeed in ten
    seconds, a restart recovers exactly the grants of the tables, and a newly registered steward
    has exactly the permissions of its service role. Some theorems state behaviour that the
    code's comments exclude: a failed write revokes an earlier grant, a deleted subject returns,
    a recreated role closes a cycle, a restrictive role restricts nothing.

  \<^item> \<open>Audit_Chain\<close>, \<open>Audit_Log\<close>, \<open>Audit_Laws\<close> (\<open>pkg/audit/manager.go\<close>, the chained append of
    \<open>pkg/storage/providers/sqlite/audit_store.go\<close> and the JSON columns of the PostgreSQL store): the
    checksum of an audit entry with its framing and JSON text, the verification of a chain, and the
    queue, drain and retries between recording an event and storing it. The keyed hash is an
    argument; what is assumed of it is that the entries at hand do not collide and that no checksum
    is presented that was not issued. Shown: a list that verifies is a piece of a genuine chain, an
    accepted event is stored once a flush succeeds, and what SQLite gives back verifies after every
    run; and that PostgreSQL's does not, that a call overlapping \<open>Stop\<close> can lose its event, and that
    a chain cut at an end is accepted.

  \<^item> \<open>Session_Store\<close>, \<open>Session_Manager\<close>, \<open>Session_Laws\<close>, \<open>Session_Cluster\<close> (\<open>pkg/session\<close>): the bearer
    sessions of administrators. \<open>Session_Store\<close> is \<open>MemStore\<close>, rows by token hash with the grace
    expiry of a rotated token; \<open>Session_Manager\<close> has the manager's operations on a node, whose heap
    holds the sessions that its two maps share. \<open>Session_Cluster\<close> runs nodes on one store, in any
    order of operations, with failing reads, writes that fail before or after taking effect, sweeps
    and restarts. The hash of a token is an argument; assumed is that no token hash and no session
    identifier is drawn twice. The invariant of \<open>Session_Laws\<close> assigns each hash ever drawn to its
    session. Shown: an accepted token has the identity it was issued with, revocation is final on
    every node, for one session and for a principal, a rotated token dies with its grace window, and
    an issued token is accepted everywhere; and that an elevation locks the session out of the nodes
    that had cached it. An operation runs as a whole, and the store reads the caller's clock.

  \<^bold>\<open>Not modelled.\<close> Transport, TLS and certificates (\<open>pkg/transport\<close>, \<open>pkg/cert\<close>, gRPC and QUIC
  providers), the REST handlers of \<open>features/controller/api\<close>, logging and telemetry
  are I/O whose effect on the modelled state is the calls they make. The modules under
  \<open>features/modules\<close> change an operating system through its commands and system calls. The command
  line tools print and parse. The workflow engine, reports, the entity graph, the tenant
  hierarchy and directory providers are separate subsystems that the modelled ones do not call. In
  access control, role templates, time-limited conditions, scopes and continuous authorization
  are left out; in the defense, only the HTTP wrapping of the middleware. Generated protocol
  buffer code appears as the records of its \<open>.proto\<close> files. The SQL forms of the session store are
  left out: the cluster of sessions shares a store that behaves as \<open>MemStore\<close> does.
\<close>

end
